(* ===== verification/Prelude.thy ===== *)
theory Prelude
  imports Complex_Main "HOL-Library.Word"
begin

unbundle bit_operations_syntax

text \<open>
  Shared vocabulary of the development: the machine integer types of the C++ sources, the
  conversions between \<open>uint64_t\<close> and \<open>double\<close>, the cache-line alignment every component uses, and
  the generic lemmas on words, maps, sets and lists that the component theories rely on.

  A \<open>double\<close> is modelled by a \<^typ>\<open>real\<close>: the arithmetic of the latency models is exact here, without
  rounding, and a division whose divisor may be zero is only reasoned about where the divisor is
  known to be non-zero.  Unsigned integers keep their width and wrap around.
\<close>

section \<open>Machine integers\<close>

type_synonym u8 = "8 word"
type_synonym u16 = "16 word"
type_synonym u32 = "32 word"
type_synonym u64 = "64 word"

abbreviation UINT32_MAX :: u32 where "UINT32_MAX \<equiv> - 1"
abbreviation UINT64_MAX :: u64 where "UINT64_MAX \<equiv> - 1"

text \<open>\<open>static_cast<double>(x)\<close> of an unsigned integer, and the truncating conversion back.\<close>

definition double_of_u64 :: "u64 \<Rightarrow> real" where
  "double_of_u64 w = real (unat w)"

definition u64_of_double :: "real \<Rightarrow> u64" where
  "u64_of_double x = word_of_int (if 0 \<le> x then \<lfloor>x\<rfloor> else \<lceil>x\<rceil>)"

text \<open>\<open>addr & ~(CACHELINE_SIZE - 1)\<close> with \<open>CACHELINE_SIZE = 64\<close>.\<close>

definition cl_align :: "u64 \<Rightarrow> u64" where
  "cl_align a = a AND NOT (64 - 1)"

text \<open>
  A \<open>std::map\<close> as an association list in ascending key order: assignment through \<open>operator[]\<close>.
\<close>

fun map_set :: "'k::linorder \<Rightarrow> 'v \<Rightarrow> ('k \<times> 'v) list \<Rightarrow> ('k \<times> 'v) list" where
  "map_set k v [] = [(k, v)]"
| "map_set k v ((k', v') # m) =
     (if k < k' then (k, v) # (k', v') # m
      else if k = k' then (k, v) # m
      else (k', v') # map_set k v m)"

section \<open>Collections of rewrite rules\<close>

named_theorems frame_simps
  \<open>fields an operation leaves unchanged\<close>

named_theorems word_nat_simps
  \<open>unsigned comparisons and arithmetic as facts about natural numbers\<close>

declare word_le_nat_alt [word_nat_simps]
declare word_less_nat_alt [word_nat_simps]

section \<open>Conversions\<close>

lemma unat_u64_less: "unat (a :: u64) < 2 ^ 64"
  using unsigned_less [of a] by simp

lemma unat_u32_less: "unat (a :: u32) < 2 ^ 32"
  using unsigned_less [of a] by simp

lemma double_of_u64_nonneg [simp]: "0 \<le> double_of_u64 w"
  unfolding double_of_u64_def by (rule of_nat_0_le_iff)

lemma double_of_u64_0 [simp]: "double_of_u64 0 = 0"
  by (simp add: double_of_u64_def)

lemma double_of_u64_less_iff: "double_of_u64 a < double_of_u64 b \<longleftrightarrow> a < b"
  unfolding double_of_u64_def word_less_nat_alt by (rule of_nat_less_iff)

lemma u64_of_double_exact:
  assumes "0 \<le> x" and "x < 2 ^ 64"
  shows "real (unat (u64_of_double x)) = real_of_int \<lfloor>x\<rfloor>"
proof -
  have b: "0 \<le> \<lfloor>x\<rfloor>" "\<lfloor>x\<rfloor> < 2 ^ 64"
    using assms by (simp_all add: floor_less_iff)
  have "uint (u64_of_double x) = \<lfloor>x\<rfloor>"
    using b assms(1) by (simp add: u64_of_double_def uint_word_of_int take_bit_eq_mod)
  then have "int (unat (u64_of_double x)) = \<lfloor>x\<rfloor>"
    by simp
  then show ?thesis
    by (metis of_int_of_nat_eq)
qed

lemma u64_of_double_nat [simp]: "u64_of_double (real n) = of_nat n"
  by (simp add: u64_of_double_def)

section \<open>Cache-line alignment\<close>

lemma cl_align_eq: "cl_align a = push_bit 6 (drop_bit 6 a)"
proof -
  have m: "(64 - 1 :: u64) = mask 6"
    by (simp add: mask_eq_exp_minus_1)
  show ?thesis
    unfolding cl_align_def m
    by (rule bit_word_eqI) (auto simp add: bit_simps)
qed

lemma unat_cl_align: "unat (cl_align a) = unat a div 64 * 64"
proof -
  have "unat (drop_bit 6 a) = unat a div 64"
    by (simp add: unat_drop_bit_eq drop_bit_eq_div unat_div)
  moreover have "unat (push_bit 6 (drop_bit 6 a)) = unat (drop_bit 6 a) * 64"
  proof -
    have "unat (drop_bit 6 a) * 64 < 2 ^ 64"
      using unat_u64_less [of a] by (simp add: unat_drop_bit_eq drop_bit_eq_div unat_div)
    then show ?thesis
      by (simp add: push_bit_eq_mult unat_word_ariths)
  qed
  ultimately show ?thesis
    by (simp add: cl_align_eq)
qed

lemma cl_align_idem [simp]: "cl_align (cl_align a) = cl_align a"
  by (rule word_unat_eq_iff [THEN iffD2]) (simp add: unat_cl_align)

lemma cl_align_le: "cl_align a \<le> a"
  by (simp add: word_le_nat_alt unat_cl_align)

lemma unat_cl_offset: "unat (a - cl_align a) = unat a mod 64"
proof -
  have "unat (a - cl_align a) = unat a - unat (cl_align a)"
    by (rule unat_sub) (rule cl_align_le)
  then show ?thesis
    by (simp add: unat_cl_align minus_div_mult_eq_mod)
qed

lemma cl_align_eq_iff: "cl_align a = cl_align b \<longleftrightarrow> unat a div 64 = unat b div 64"
  by (simp add: word_unat_eq_iff unat_cl_align)

lemma cl_align_aligned: "cl_align a = a \<longleftrightarrow> 64 dvd unat a"
  by (metis unat_cl_align word_unat_eq_iff dvd_triv_right dvd_div_mult_self)

section \<open>Word arithmetic without wrap-around\<close>

lemma unat_add_no_wrap:
  fixes a b :: "'a::len word"
  assumes "unat a + unat b < 2 ^ LENGTH('a)"
  shows "unat (a + b) = unat a + unat b"
  using assms by (simp add: unat_add_lem)

lemma unat_of_nat_small:
  assumes "n < 2 ^ LENGTH('a::len)"
  shows "unat (of_nat n :: 'a word) = n"
  using assms by (simp add: unat_of_nat)

lemma unat_sub_one: "0 < (x :: 'a::len word) \<Longrightarrow> unat (x - 1) = unat x - 1"
  by (metis unat_minus_one word_gt_0)

lemma unat_add_one:
  assumes "(x :: 'a::len word) < y"
  shows "unat (x + 1) = unat x + 1"
proof -
  have "unat x + 1 \<le> unat y" using assms by (simp add: word_less_nat_alt)
  also have "unat y < 2 ^ LENGTH('a)" by (rule unsigned_less)
  finally show ?thesis using unat_add_no_wrap [of x 1] by simp
qed

section \<open>Lists and maps\<close>

lemma find_Some_iff_nth:
  "List.find P xs = Some x \<longleftrightarrow> (\<exists>i < length xs. xs ! i = x \<and> P x \<and> (\<forall>j < i. \<not> P (xs ! j)))"
  by (auto simp: find_Some_iff)

lemma sorted_wrt_insort_key:
  assumes "\<And>x y. P x y \<Longrightarrow> P y x"
  shows "sorted_wrt P (insort_key f x xs) \<longleftrightarrow> (\<forall>y \<in> set xs. P x y) \<and> sorted_wrt P xs"
  by (induction xs) (use assms in \<open>auto simp: set_insort_key\<close>)

lemma sorted_wrt_sort_key:
  assumes "\<And>x y. P x y \<Longrightarrow> P y x"
  shows "sorted_wrt P (sort_key f xs) \<longleftrightarrow> sorted_wrt P xs"
  by (induction xs) (simp_all add: sorted_wrt_insort_key [OF assms])

lemma foldl_invariant:
  assumes "I s" and "\<And>s x. I s \<Longrightarrow> x \<in> set xs \<Longrightarrow> I (f s x)"
  shows "I (foldl f s xs)"
  using assms by (induction xs arbitrary: s) auto

section \<open>Sums, widening and the next cache line\<close>

lemma sum_list_less:
  "\<forall>x \<in> set xs. f x < (b::nat) \<Longrightarrow> length xs \<le> n \<Longrightarrow> 0 < n \<Longrightarrow> 0 < b \<Longrightarrow> sum_list (map f xs) < n * b"
proof (cases "xs = []")
  case False
  assume *: "\<forall>x \<in> set xs. f x < b" and "length xs \<le> n"
  have "sum_list (map f xs) < length xs * b"
    using False * by (induction xs rule: list_nonempty_induct) auto
  also have "\<dots> \<le> n * b" using \<open>length xs \<le> n\<close> by simp
  finally show ?thesis .
qed simp

lemma sum_list_divide: "sum_list (map (\<lambda>x. f x / c) xs) = sum_list (map f xs) / (c :: real)"
  by (induction xs) (simp_all add: add_divide_distrib)

lemma of_nat_sum_list_map: "real (sum_list (map f xs)) = sum_list (map (\<lambda>x. real (f x)) xs)"
  by (induction xs) simp_all

lemma unat_UINT32_MAX: "unat UINT32_MAX = 4294967295"
  by (simp add: unsigned_minus_1_eq_mask mask_eq_exp_minus_1)

lemma unat_ucast_u32: "unat (ucast (w :: u32) :: u64) = unat w"
  using unat_u32_less [of w] by (simp add: unsigned_ucast_eq take_bit_nat_eq_self_iff)

lemma unat_sum_list:
  "sum_list (map unat xs) < 2 ^ 64 \<Longrightarrow> unat (sum_list xs :: u64) = sum_list (map unat xs)"
  by (induction xs) (simp_all add: unat_add_no_wrap)

lemma aligned_next:
  assumes "cl_align cl = cl" "cl < e" "e \<le> (- 64 :: u64)"
  shows "unat (cl + 64) = unat cl + 64" "cl_align (cl + 64) = cl + 64"
proof -
  have "unat (- 64 :: u64) = 2 ^ 64 - 64" by simp
  then have "unat cl < 2 ^ 64 - 64" using assms(2,3) by (simp add: word_nat_simps)
  then show eq: "unat (cl + 64) = unat cl + 64" using unat_add_no_wrap [of cl 64] by simp
  show "cl_align (cl + 64) = cl + 64"
    using assms(1) by (simp add: cl_align_aligned eq)
qed

lemma aligned_gap:
  assumes "cl_align a = a" "cl_align b = b"
  shows "unat a < unat b \<longleftrightarrow> unat a + 64 \<le> unat b"
  using assms by (auto simp: cl_align_aligned dvd_def)

lemma aligned_le_last: "cl_align cl = cl \<Longrightarrow> cl \<le> (- 64 :: u64)"
proof -
  assume "cl_align cl = cl"
  then have "64 dvd unat cl" by (simp add: cl_align_aligned)
  then obtain k where k: "unat cl = 64 * k" ..
  then have "64 * k < 2 ^ 64" using unat_u64_less [of cl] by simp
  then have "64 * k \<le> 2 ^ 64 - 64" by simp
  moreover have "unat (- 64 :: u64) = 2 ^ 64 - 64" by simp
  ultimately show ?thesis by (simp add: word_nat_simps k)
qed

section \<open>Ordered maps\<close>

lemma set_map_set_keys: "fst ` set (map_set k v m) = insert k (fst ` set m)"
proof (induction m)
  case (Cons p m)
  then show ?case by (cases p) (simp add: insert_commute)
qed simp

lemma sorted_map_set:
  "sorted_wrt (<) (map fst m) \<Longrightarrow> sorted_wrt (<) (map fst (map_set k v m))"
proof (induction m)
  case (Cons p m)
  obtain k' v' where p: "p = (k', v')" by (cases p)
  have keys: "fst ` set (map_set k v m) = insert k (fst ` set m)" by (rule set_map_set_keys)
  show ?case using Cons keys by (auto simp: p)
qed simp

lemma map_of_map_set:
  "sorted_wrt (<) (map fst m) \<Longrightarrow> map_of (map_set k v m) = (map_of m)(k \<mapsto> v)"
proof (induction m)
  case (Cons p m)
  obtain k' v' where p: "p = (k', v')" by (cases p)
  have "map_of m k = None" if "k < k'"
    using Cons.prems that by (force simp: p map_of_eq_None_iff)
  then show ?case using Cons by (auto simp: p fun_eq_iff)
qed simp

lemma length_map_set: "length (map_set k v m) \<le> Suc (length m)"
  by (induction m) auto

end
