(* ===== verification/HDM_Decoder.thy ===== *)
theory HDM_Decoder
  imports Prelude
begin

text \<open>
  The HDM (host-managed device memory) decoder of \<open>include/hdm_decoder.h\<close> and
  \<open>src/hdm_decoder.cpp\<close>: it maps a physical address to the device or node that backs it and to an
  offset within that target, by an ordered list of ranges, by interleaving, or by ranges first and
  interleaving as a fallback.

  The lemmas show that the linear scan and the binary search find the one range that contains the
  address, that interleaving can be inverted and spreads a region over its targets within the
  capacity they must provide, and that no two addresses are routed to the same cell of a target.
\<close>

section \<open>Data\<close>

datatype HDMDecoderMode = INTERLEAVED | RANGE_BASED | HYBRID

datatype InterleaveGranularity =
  CACHELINE_64B | CACHELINE_256B | PAGE_4K | PAGE_2M | PAGE_1G

fun granularity_bytes :: "InterleaveGranularity \<Rightarrow> u64" where
  "granularity_bytes CACHELINE_64B = 64"
| "granularity_bytes CACHELINE_256B = 256"
| "granularity_bytes PAGE_4K = 4096"
| "granularity_bytes PAGE_2M = 2097152"
| "granularity_bytes PAGE_1G = 1073741824"

record HDMRange =
  hr_base_addr :: u64
  hr_size :: u64
  hr_target_id :: u32
  hr_is_remote :: bool

record HDMInterleaveConfig =
  il_granularity :: InterleaveGranularity
  il_target_ids :: "u32 list"
  il_base_addr :: u64
  il_total_size :: u64

record DecodeResult =
  dr_target_id :: u32
  dr_local_offset :: u64
  dr_is_remote :: bool
  dr_hop_count :: u32

record HDMDecoder =
  hdm_mode :: HDMDecoderMode
  hdm_ranges :: "HDMRange list"
  hdm_interleave_config :: HDMInterleaveConfig
  hdm_ranges_sorted :: bool

section \<open>Operations\<close>

definition default_interleave_config :: HDMInterleaveConfig where
  "default_interleave_config =
     \<lparr>il_granularity = CACHELINE_256B, il_target_ids = [], il_base_addr = 0, il_total_size = 0\<rparr>"

definition new_HDMDecoder :: "HDMDecoderMode \<Rightarrow> HDMDecoder" where
  "new_HDMDecoder mode =
     \<lparr>hdm_mode = mode, hdm_ranges = [], hdm_interleave_config = default_interleave_config,
      hdm_ranges_sorted = False\<rparr>"

definition add_range :: "HDMDecoder \<Rightarrow> u64 \<Rightarrow> u64 \<Rightarrow> u32 \<Rightarrow> bool \<Rightarrow> HDMDecoder" where
  "add_range d base sz target remote =
     d\<lparr>hdm_ranges := hdm_ranges d @
          [\<lparr>hr_base_addr = base, hr_size = sz, hr_target_id = target, hr_is_remote = remote\<rparr>],
       hdm_ranges_sorted := False\<rparr>"

definition configure_interleave ::
  "HDMDecoder \<Rightarrow> InterleaveGranularity \<Rightarrow> u32 list \<Rightarrow> u64 \<Rightarrow> u64 \<Rightarrow> HDMDecoder" where
  "configure_interleave d gran targets base total_size =
     d\<lparr>hdm_interleave_config :=
         \<lparr>il_granularity = gran, il_target_ids = targets,
          il_base_addr = base, il_total_size = total_size\<rparr>\<rparr>"

text \<open>
  \<open>std::sort\<close> by base address.  The library leaves the order of ranges with equal bases open; the
  stable order is one of the permitted results, and the theorems below need distinct bases.
\<close>

definition sort_ranges :: "HDMDecoder \<Rightarrow> HDMDecoder" where
  "sort_ranges d =
     d\<lparr>hdm_ranges := sort_key hr_base_addr (hdm_ranges d), hdm_ranges_sorted := True\<rparr>"

definition decode_miss :: DecodeResult where
  "decode_miss =
     \<lparr>dr_target_id = UINT32_MAX, dr_local_offset = 0, dr_is_remote = False, dr_hop_count = 0\<rparr>"

definition range_hit :: "HDMRange \<Rightarrow> u64 \<Rightarrow> DecodeResult" where
  "range_hit r addr =
     \<lparr>dr_target_id = hr_target_id r, dr_local_offset = addr - hr_base_addr r,
      dr_is_remote = hr_is_remote r, dr_hop_count = (if hr_is_remote r then 1 else 0)\<rparr>"

fun scan_ranges :: "HDMRange list \<Rightarrow> u64 \<Rightarrow> DecodeResult" where
  "scan_ranges [] addr = decode_miss"
| "scan_ranges (r # rs) addr =
     (if addr \<ge> hr_base_addr r \<and> addr < hr_base_addr r + hr_size r
      then range_hit r addr else scan_ranges rs addr)"

function search_ranges :: "HDMRange list \<Rightarrow> u64 \<Rightarrow> int \<Rightarrow> int \<Rightarrow> DecodeResult" where
  "search_ranges rs addr lo hi =
     (if lo \<le> hi then
        let mid = lo + (hi - lo) div 2; r = rs ! nat mid in
        if addr < hr_base_addr r then search_ranges rs addr lo (mid - 1)
        else if addr \<ge> hr_base_addr r + hr_size r then search_ranges rs addr (mid + 1) hi
        else range_hit r addr
      else decode_miss)"
  by pat_completeness auto
termination
  by (relation "measure (\<lambda>(rs, addr, lo, hi). nat (hi - lo + 1))") auto

declare search_ranges.simps [simp del]

definition decode_range :: "HDMDecoder \<Rightarrow> u64 \<Rightarrow> DecodeResult" where
  "decode_range d addr =
     (if hdm_ranges d = [] then decode_miss
      else if \<not> hdm_ranges_sorted d then scan_ranges (hdm_ranges d) addr
      else search_ranges (hdm_ranges d) addr 0 (int (length (hdm_ranges d)) - 1))"

definition decode_interleaved :: "HDMDecoder \<Rightarrow> u64 \<Rightarrow> DecodeResult" where
  "decode_interleaved d addr =
     (let cfg = hdm_interleave_config d in
      if il_target_ids cfg = [] then decode_miss
      else if addr < il_base_addr cfg \<or> addr \<ge> il_base_addr cfg + il_total_size cfg
      then decode_miss
      else
        let granularity = granularity_bytes (il_granularity cfg);
            relative_addr = addr - il_base_addr cfg;
            block_index = relative_addr div granularity;
            num_targets = of_nat (length (il_target_ids cfg));
            target_index = block_index mod num_targets;
            target_id = il_target_ids cfg ! unat target_index;
            target_block = block_index div num_targets;
            intra_block_offset = relative_addr mod granularity;
            local_offset = target_block * granularity + intra_block_offset;
            is_remote = (case List.find (\<lambda>r. hr_target_id r = target_id) (hdm_ranges d) of
                           Some r \<Rightarrow> hr_is_remote r | None \<Rightarrow> False)
        in \<lparr>dr_target_id = target_id, dr_local_offset = local_offset,
            dr_is_remote = is_remote, dr_hop_count = (if is_remote then 1 else 0)\<rparr>)"

definition decode :: "HDMDecoder \<Rightarrow> u64 \<Rightarrow> DecodeResult" where
  "decode d addr =
     (case hdm_mode d of
        RANGE_BASED \<Rightarrow> decode_range d addr
      | INTERLEAVED \<Rightarrow> decode_interleaved d addr
      | HYBRID \<Rightarrow>
          (let result = decode_range d addr in
           if dr_target_id result \<noteq> UINT32_MAX then result else decode_interleaved d addr))"

definition get_home_node :: "HDMDecoder \<Rightarrow> u64 \<Rightarrow> u32" where
  "get_home_node d addr = dr_target_id (decode d addr)"

definition is_local :: "HDMDecoder \<Rightarrow> u64 \<Rightarrow> u32 \<Rightarrow> bool" where
  "is_local d addr local_node_id =
     (dr_target_id (decode d addr) = local_node_id \<and> \<not> dr_is_remote (decode d addr))"

section \<open>What a well-formed map is\<close>

text \<open>A range that ends below the top of the address space, and the addresses it covers.\<close>

definition range_ok :: "HDMRange \<Rightarrow> bool" where
  "range_ok r \<longleftrightarrow> 0 < unat (hr_size r) \<and> unat (hr_base_addr r) + unat (hr_size r) < 2 ^ 64
     \<and> hr_target_id r \<noteq> UINT32_MAX"

definition range_covers :: "HDMRange \<Rightarrow> u64 \<Rightarrow> bool" where
  "range_covers r a \<longleftrightarrow>
     unat (hr_base_addr r) \<le> unat a \<and> unat a < unat (hr_base_addr r) + unat (hr_size r)"

definition range_before :: "HDMRange \<Rightarrow> HDMRange \<Rightarrow> bool" where
  "range_before r s \<longleftrightarrow> unat (hr_base_addr r) + unat (hr_size r) \<le> unat (hr_base_addr s)"

definition range_disjoint :: "HDMRange \<Rightarrow> HDMRange \<Rightarrow> bool" where
  "range_disjoint r s \<longleftrightarrow> range_before r s \<or> range_before s r"

definition ranges_wf :: "HDMDecoder \<Rightarrow> bool" where
  "ranges_wf d \<longleftrightarrow>
     list_all range_ok (hdm_ranges d) \<and> sorted_wrt range_disjoint (hdm_ranges d)
     \<and> (hdm_ranges_sorted d \<longrightarrow> sorted (map hr_base_addr (hdm_ranges d)))"

definition ranges_cover :: "HDMDecoder \<Rightarrow> u64 \<Rightarrow> bool" where
  "ranges_cover d a \<longleftrightarrow> list_ex (\<lambda>r. range_covers r a) (hdm_ranges d)"

definition interleave_wf :: "HDMDecoder \<Rightarrow> bool" where
  "interleave_wf d \<longleftrightarrow>
     (let cfg = hdm_interleave_config d in
      distinct (il_target_ids cfg) \<and> UINT32_MAX \<notin> set (il_target_ids cfg)
      \<and> unat (il_base_addr cfg) + unat (il_total_size cfg) < 2 ^ 64)"

definition interleave_cover :: "HDMDecoder \<Rightarrow> u64 \<Rightarrow> bool" where
  "interleave_cover d a \<longleftrightarrow>
     (let cfg = hdm_interleave_config d in
      il_target_ids cfg \<noteq> [] \<and> unat (il_base_addr cfg) \<le> unat a
      \<and> unat a < unat (il_base_addr cfg) + unat (il_total_size cfg))"

definition ranges_route_wf :: "HDMDecoder \<Rightarrow> bool" where
  "ranges_route_wf d \<longleftrightarrow> ranges_wf d \<and> distinct (map hr_target_id (hdm_ranges d))"

definition hybrid_wf :: "HDMDecoder \<Rightarrow> bool" where
  "hybrid_wf d \<longleftrightarrow> ranges_route_wf d \<and> interleave_wf d
     \<and> hr_target_id ` set (hdm_ranges d) \<inter> set (il_target_ids (hdm_interleave_config d)) = {}"

text \<open>The arithmetic of the decoder, on the natural numbers the words stand for.\<close>

definition interleave_index :: "HDMDecoder \<Rightarrow> u64 \<Rightarrow> nat" where
  "interleave_index d a =
     (let cfg = hdm_interleave_config d in
      (unat a - unat (il_base_addr cfg)) div unat (granularity_bytes (il_granularity cfg))
        mod length (il_target_ids cfg))"

definition interleave_offset :: "HDMDecoder \<Rightarrow> u64 \<Rightarrow> nat" where
  "interleave_offset d a =
     (let cfg = hdm_interleave_config d; g = unat (granularity_bytes (il_granularity cfg));
          rel = unat a - unat (il_base_addr cfg) in
      rel div g div length (il_target_ids cfg) * g + rel mod g)"

text \<open>Concrete maps for the instances of the theorems.\<close>

definition example_ranges :: HDMDecoder where
  "example_ranges =
     add_range (add_range (new_HDMDecoder RANGE_BASED) 4096 4096 1 True) 0 4096 0 False"

definition example_interleave :: HDMDecoder where
  "example_interleave =
     configure_interleave (add_range (new_HDMDecoder HYBRID) 0 4096 7 False)
       CACHELINE_256B [1, 2, 3] 8192 65536"

section \<open>Range decoding\<close>

lemma range_test_iff:
  "range_ok r \<Longrightarrow>
     (addr \<ge> hr_base_addr r \<and> addr < hr_base_addr r + hr_size r) \<longleftrightarrow> range_covers r addr"
  by (simp add: range_ok_def range_covers_def word_nat_simps unat_add_no_wrap)

lemma range_disjoint_sym: "range_disjoint r s \<Longrightarrow> range_disjoint s r"
  by (auto simp: range_disjoint_def)

lemma covers_unique:
  "range_covers r a \<Longrightarrow> range_covers s a \<Longrightarrow> \<not> range_disjoint r s"
  by (auto simp: range_covers_def range_disjoint_def range_before_def)

lemma scan_miss:
  "list_all range_ok rs \<Longrightarrow> \<not> list_ex (\<lambda>r. range_covers r a) rs \<Longrightarrow> scan_ranges rs a = decode_miss"
  by (induction rs) (auto simp: range_test_iff)

lemma scan_hit:
  assumes "list_all range_ok rs" "sorted_wrt range_disjoint rs" "r \<in> set rs" "range_covers r a"
  shows "scan_ranges rs a = range_hit r a"
  using assms
proof (induction rs)
  case (Cons s rs)
  show ?case
  proof (cases "range_covers s a")
    case True
    with Cons.prems have "r = s"
      by (auto dest: covers_unique)
    with True Cons.prems show ?thesis
      by (simp add: range_test_iff)
  next
    case False
    with Cons.prems have "r \<in> set rs" by auto
    with False Cons show ?thesis
      by (simp add: range_test_iff)
  qed
qed simp

text \<open>
  On a sorted list of disjoint, non-empty ranges the ranges follow each other in the address space,
  which is what the comparisons of the binary search rely on.
\<close>

lemma sorted_disjoint_before:
  assumes "list_all range_ok rs" "sorted_wrt range_disjoint rs" "sorted (map hr_base_addr rs)"
  shows "sorted_wrt range_before rs"
  unfolding sorted_wrt_iff_nth_less
proof (intro allI impI)
  fix i j assume ij: "i < j" "j < length rs"
  have ok: "range_ok (rs ! i)"
    using assms(1) ij by (simp add: list_all_length)
  have "hr_base_addr (rs ! i) \<le> hr_base_addr (rs ! j)"
    using assms(3) ij by (auto simp: sorted_iff_nth_mono_less)
  moreover have "range_disjoint (rs ! i) (rs ! j)"
    using assms(2) ij by (simp add: sorted_wrt_iff_nth_less)
  moreover have "range_ok (rs ! j)"
    using assms(1) ij by (simp add: list_all_length)
  ultimately show "range_before (rs ! i) (rs ! j)"
    using ok by (auto simp: range_disjoint_def range_before_def range_ok_def word_nat_simps)
qed

lemma search_miss:
  assumes "list_all range_ok rs" "\<not> list_ex (\<lambda>r. range_covers r a) rs"
    and "0 \<le> lo" "hi < int (length rs)"
  shows "search_ranges rs a lo hi = decode_miss"
  using assms
proof (induction rs a lo hi rule: search_ranges.induct)
  case (1 rs a lo hi)
  let ?mid = "lo + (hi - lo) div 2"
  show ?case
  proof (cases "lo \<le> hi")
    case True
    have m: "lo \<le> ?mid" "?mid \<le> hi" using True by auto
    then have n: "nat ?mid < length rs" using 1 by auto
    then have "range_ok (rs ! nat ?mid)" "\<not> range_covers (rs ! nat ?mid) a"
      using "1.prems" by (auto simp: list_all_length list_ex_length)
    then have c: "a < hr_base_addr (rs ! nat ?mid)
        \<or> hr_base_addr (rs ! nat ?mid) + hr_size (rs ! nat ?mid) \<le> a"
      using range_test_iff [of "rs ! nat ?mid" a] by auto
    have l: "search_ranges rs a lo (?mid - 1) = decode_miss" if "a < hr_base_addr (rs ! nat ?mid)"
      by (rule "1.IH"(1) [OF True refl refl that "1.prems"(1-3)]) (use "1.prems" m in linarith)
    have r: "search_ranges rs a (?mid + 1) hi = decode_miss"
      if "\<not> a < hr_base_addr (rs ! nat ?mid)"
        "hr_base_addr (rs ! nat ?mid) + hr_size (rs ! nat ?mid) \<le> a"
      by (rule "1.IH"(2) [OF True refl refl that "1.prems"(1,2)]) (use "1.prems" m in linarith)+
    from c l r True show ?thesis
      by (subst search_ranges.simps) (auto simp: Let_def)
  next
    case False
    then show ?thesis by (subst search_ranges.simps) simp
  qed
qed

lemma search_hit:
  assumes "list_all range_ok rs" "sorted_wrt range_before rs"
    and "k < length rs" "range_covers (rs ! k) a"
    and "0 \<le> lo" "lo \<le> int k" "int k \<le> hi" "hi < int (length rs)"
  shows "search_ranges rs a lo hi = range_hit (rs ! k) a"
  using assms
proof (induction rs a lo hi rule: search_ranges.induct)
  case (1 rs a lo hi)
  let ?mid = "lo + (hi - lo) div 2"
  let ?m = "nat ?mid"
  have lohi: "lo \<le> hi" using 1 by simp
  have m: "lo \<le> ?mid" "?mid \<le> hi" using lohi by auto
  then have n: "?m < length rs" using "1.prems"(5,8) by linarith
  then have ok: "range_ok (rs ! ?m)" "range_ok (rs ! k)"
    using "1.prems" by (auto simp: list_all_length)
  have before: "range_before (rs ! i) (rs ! j)" if "i < j" "j < length rs" for i j
    using "1.prems"(2) that by (simp add: sorted_wrt_iff_nth_less)
  consider (eq) "k = ?m" | (left) "k < ?m" | (right) "?m < k" by linarith
  then show ?case
  proof cases
    case eq
    have "\<not> a < hr_base_addr (rs ! ?m)" "\<not> hr_base_addr (rs ! ?m) + hr_size (rs ! ?m) \<le> a"
      using range_test_iff [OF ok(1), of a] "1.prems"(4) eq by auto
    with lohi eq show ?thesis
      by (subst search_ranges.simps) (simp add: Let_def)
  next
    case left
    have c: "a < hr_base_addr (rs ! ?m)"
      using before [OF left n] "1.prems"(4) by (simp add: range_before_def range_covers_def word_nat_simps)
    have "search_ranges rs a lo (?mid - 1) = range_hit (rs ! k) a"
      by (rule "1.IH"(1) [OF lohi refl refl c "1.prems"(1-5)]) (use "1.prems" left m in linarith)+
    with c lohi show ?thesis
      by (subst search_ranges.simps) (simp add: Let_def)
  next
    case right
    have c: "\<not> a < hr_base_addr (rs ! ?m)"
        "hr_base_addr (rs ! ?m) + hr_size (rs ! ?m) \<le> a"
      using before [OF right "1.prems"(3)] "1.prems"(4) ok(1)
      by (auto simp: range_before_def range_covers_def range_ok_def word_nat_simps unat_add_no_wrap)
    have "search_ranges rs a (?mid + 1) hi = range_hit (rs ! k) a"
      by (rule "1.IH"(2) [OF lohi refl refl c "1.prems"(1-4)]) (use "1.prems" right m in linarith)+
    with c lohi show ?thesis
      by (subst search_ranges.simps) (simp add: Let_def)
  qed
qed

lemma decode_range_hit:
  assumes "ranges_wf d" "r \<in> set (hdm_ranges d)" "range_covers r a"
  shows "decode_range d a = range_hit r a"
proof (cases "hdm_ranges_sorted d")
  case True
  from assms True have "sorted_wrt range_before (hdm_ranges d)"
    by (auto simp: ranges_wf_def intro: sorted_disjoint_before)
  moreover obtain k where "k < length (hdm_ranges d)" "r = hdm_ranges d ! k"
    using assms(2) by (auto simp: in_set_conv_nth)
  ultimately show ?thesis
    using True assms by (auto simp: decode_range_def ranges_wf_def intro!: search_hit)
next
  case False
  with assms show ?thesis
    by (auto simp: decode_range_def ranges_wf_def intro: scan_hit)
qed

lemma decode_range_miss:
  assumes "ranges_wf d" "\<not> ranges_cover d a"
  shows "decode_range d a = decode_miss"
  using assms
  by (auto simp: decode_range_def ranges_wf_def ranges_cover_def intro: scan_miss search_miss)

lemma ranges_coverE:
  assumes "ranges_cover d a"
  obtains r where "r \<in> set (hdm_ranges d)" "range_covers r a"
  using assms by (auto simp: ranges_cover_def list_ex_iff)

text \<open>Sorting keeps a range map well-formed, so it changes no decoding result.\<close>

lemma ranges_wf_sort_ranges: "ranges_wf d \<Longrightarrow> ranges_wf (sort_ranges d)"
  by (simp add: ranges_wf_def sort_ranges_def sorted_wrt_sort_key range_disjoint_sym list_all_iff)

lemma ranges_cover_sort_ranges [simp]: "ranges_cover (sort_ranges d) a = ranges_cover d a"
  by (simp add: ranges_cover_def sort_ranges_def list_ex_iff)

lemma example_ranges_wf: "ranges_wf example_ranges"
  by (simp add: example_ranges_def add_range_def new_HDMDecoder_def ranges_wf_def range_ok_def
      range_disjoint_def range_before_def)

text \<open>
  C19. On a range map without overlaps, decoding an address by ranges finds the one range that
  contains it, whether the decoder scans the list or searches the sorted list: the answer is that
  range's target, the distance from its base, and one hop exactly if the range is remote; an address
  outside every range is reported as a miss.
\<close>

theorem decode_range_correct:
  assumes "ranges_wf d"
  shows "(\<exists>r \<in> set (hdm_ranges d). range_covers r a \<and> decode_range d a = range_hit r a)
    \<or> (\<forall>r \<in> set (hdm_ranges d). \<not> range_covers r a) \<and> decode_range d a = decode_miss"
proof (cases "ranges_cover d a")
  case True
  with assms show ?thesis by (auto elim!: ranges_coverE intro: decode_range_hit)
next
  case False
  with assms show ?thesis
    by (auto simp: ranges_cover_def list_ex_iff intro!: decode_range_miss)
qed

theorem decode_range_correct_witness:
  "(\<exists>r \<in> set (hdm_ranges example_ranges).
      range_covers r 5000 \<and> decode_range example_ranges 5000 = range_hit r 5000)
   \<or> (\<forall>r \<in> set (hdm_ranges example_ranges). \<not> range_covers r 5000)
     \<and> decode_range example_ranges 5000 = decode_miss"
  by (rule decode_range_correct [OF example_ranges_wf])

text \<open>
  C20. The binary search over sorted ranges is an optimisation only: sorting a range map without
  overlaps and searching it gives the same result for every address as scanning it in the order the
  ranges were added.
\<close>

theorem sort_ranges_equiv:
  assumes "ranges_wf d"
  shows "decode_range (sort_ranges d) a = decode_range d a"
proof (cases "ranges_cover d a")
  case True
  then obtain r where "r \<in> set (hdm_ranges d)" "range_covers r a"
    by (rule ranges_coverE)
  with assms show ?thesis
    using decode_range_hit [of "sort_ranges d" r a] decode_range_hit [of d r a]
    by (simp add: ranges_wf_sort_ranges) (simp add: sort_ranges_def)
next
  case False
  with assms show ?thesis
    by (simp add: decode_range_miss ranges_wf_sort_ranges)
qed

theorem sort_ranges_equiv_witness:
  "decode_range (sort_ranges example_ranges) 5000 = decode_range example_ranges 5000"
  by (rule sort_ranges_equiv [OF example_ranges_wf])

section \<open>Interleaved decoding\<close>

lemma granularity_pos: "0 < unat (granularity_bytes g)"
  by (cases g) simp_all

lemma distinct_u32_length:
  assumes "distinct (xs :: u32 list)"
  shows "length xs < 2 ^ 64"
proof -
  have "length xs = card (set xs)"
    using assms by (simp add: distinct_card)
  also have "\<dots> \<le> card (UNIV :: u32 set)"
    by (intro card_mono) auto
  also have "\<dots> = 2 ^ 32"
    by (simp add: card_word)
  finally show ?thesis by simp
qed

lemma unat_interleave_offset:
  assumes "0 < n" "0 < (g :: nat)" "r < 2 ^ 64"
  shows "(r div g div n * g + r mod g) mod 2 ^ 64 = r div g div n * g + r mod g"
proof -
  have "r div g div n * g \<le> r div g * g"
    by (intro mult_le_mono1 div_le_dividend)
  moreover have "r div g * g + r mod g = r" by simp
  ultimately have "r div g div n * g + r mod g \<le> r" by linarith
  then show ?thesis using assms by simp
qed

lemma decode_interleaved_hit:
  assumes "interleave_wf d" "interleave_cover d a"
  shows "dr_target_id (decode_interleaved d a) =
           il_target_ids (hdm_interleave_config d) ! interleave_index d a"
    and "unat (dr_local_offset (decode_interleaved d a)) = interleave_offset d a"
proof -
  define cfg where "cfg = hdm_interleave_config d"
  let ?n = "of_nat (length (il_target_ids cfg)) :: u64"
  let ?g = "granularity_bytes (il_granularity cfg)"
  let ?r = "a - il_base_addr cfg"
  have ne: "il_target_ids cfg \<noteq> []"
    and b: "il_base_addr cfg \<le> a" "\<not> a < il_base_addr cfg"
      "\<not> il_base_addr cfg + il_total_size cfg \<le> a"
    using assms
    by (auto simp: interleave_cover_def interleave_wf_def cfg_def Let_def word_nat_simps
        unat_add_no_wrap)
  have n: "unat ?n = length (il_target_ids cfg)"
    using assms(1) distinct_u32_length
    by (intro unat_of_nat_small) (simp add: interleave_wf_def cfg_def Let_def)
  have r: "unat ?r = unat a - unat (il_base_addr cfg)"
    using b(1) by (rule unat_sub)
  have idx: "unat (?r div ?g mod ?n) = interleave_index d a"
    unfolding interleave_index_def Let_def cfg_def [symmetric]
    by (simp add: unat_div unat_mod n r)
  have off: "unat (?r div ?g div ?n * ?g + ?r mod ?g) = interleave_offset d a"
    using unat_interleave_offset [of "unat ?n" "unat ?g" "unat ?r"] ne granularity_pos
      unat_u64_less [of ?r]
    unfolding interleave_offset_def Let_def cfg_def [symmetric]
    by (simp add: unat_word_ariths(1,2) unat_div unat_mod n r mod_simps)
  show "dr_target_id (decode_interleaved d a) =
      il_target_ids (hdm_interleave_config d) ! interleave_index d a"
    using ne b by (simp add: decode_interleaved_def Let_def flip: cfg_def) (simp add: idx)
  show "unat (dr_local_offset (decode_interleaved d a)) = interleave_offset d a"
    using ne b by (simp add: decode_interleaved_def Let_def flip: cfg_def) (simp add: off)
qed

lemma interleave_index_less:
  "interleave_cover d a \<Longrightarrow> interleave_index d a < length (il_target_ids (hdm_interleave_config d))"
  by (simp add: interleave_index_def interleave_cover_def Let_def)

lemma interleave_reconstruct:
  assumes "interleave_cover d a"
  defines "cfg \<equiv> hdm_interleave_config d"
  defines "g \<equiv> unat (granularity_bytes (il_granularity cfg))"
  shows "unat a = unat (il_base_addr cfg)
     + (interleave_offset d a div g * length (il_target_ids cfg) + interleave_index d a) * g
     + interleave_offset d a mod g"
proof -
  let ?n = "length (il_target_ids cfg)"
  define r where "r = unat a - unat (il_base_addr cfg)"
  have g: "0 < g" by (simp add: g_def granularity_pos)
  have off: "interleave_offset d a = r div g div ?n * g + r mod g"
    and idx: "interleave_index d a = r div g mod ?n"
    by (simp_all add: interleave_offset_def interleave_index_def cfg_def g_def r_def Let_def)
  have "interleave_offset d a div g = r div g div ?n" and "interleave_offset d a mod g = r mod g"
    using g by (simp_all add: off)
  moreover have "r div g div ?n * ?n + r div g mod ?n = r div g"
    by simp
  moreover have "r div g * g + r mod g = r" by simp
  ultimately have "(interleave_offset d a div g * ?n + interleave_index d a) * g
      + interleave_offset d a mod g = r"
    by (simp add: idx)
  moreover have "unat a = unat (il_base_addr cfg) + r"
    using assms(1) by (simp add: r_def cfg_def interleave_cover_def Let_def)
  ultimately show ?thesis by linarith
qed

text \<open>
  C21. Interleaving is invertible: from the target's position in the interleave set and the offset
  within the target, the physical address is recovered exactly, for every granularity and every
  number of targets.
\<close>

theorem interleave_roundtrip:
  assumes "interleave_wf d" "interleave_cover d a"
  defines "cfg \<equiv> hdm_interleave_config d"
  defines "g \<equiv> unat (granularity_bytes (il_granularity cfg))"
  defines "off \<equiv> unat (dr_local_offset (decode_interleaved d a))"
  shows "\<exists>i < length (il_target_ids cfg).
      dr_target_id (decode_interleaved d a) = il_target_ids cfg ! i
      \<and> unat a = unat (il_base_addr cfg)
          + (off div g * length (il_target_ids cfg) + i) * g + off mod g"
proof (intro exI conjI)
  show "interleave_index d a < length (il_target_ids cfg)"
    using assms(2) by (simp add: interleave_index_less cfg_def)
  show "dr_target_id (decode_interleaved d a) = il_target_ids cfg ! interleave_index d a"
    using assms(1,2) by (simp add: decode_interleaved_hit cfg_def)
  show "unat a = unat (il_base_addr cfg)
      + (off div g * length (il_target_ids cfg) + interleave_index d a) * g + off mod g"
    using interleave_reconstruct [OF assms(2)] decode_interleaved_hit(2) [OF assms(1,2)]
    by (simp add: cfg_def g_def off_def)
qed

lemma example_interleave_wf:
  "interleave_wf example_interleave" "interleave_cover example_interleave 9000"
  by (simp_all add: example_interleave_def configure_interleave_def interleave_wf_def
      interleave_cover_def)

theorem interleave_roundtrip_witness:
  "\<exists>i < length (il_target_ids (hdm_interleave_config example_interleave)).
      dr_target_id (decode_interleaved example_interleave 9000)
        = il_target_ids (hdm_interleave_config example_interleave) ! i
      \<and> unat (9000 :: u64) = unat (il_base_addr (hdm_interleave_config example_interleave))
          + (unat (dr_local_offset (decode_interleaved example_interleave 9000)) div
               unat (granularity_bytes (il_granularity (hdm_interleave_config example_interleave)))
             * length (il_target_ids (hdm_interleave_config example_interleave)) + i)
            * unat (granularity_bytes (il_granularity (hdm_interleave_config example_interleave)))
          + unat (dr_local_offset (decode_interleaved example_interleave 9000)) mod
              unat (granularity_bytes (il_granularity (hdm_interleave_config example_interleave)))"
  by (rule interleave_roundtrip [OF example_interleave_wf])

text \<open>
  No target is asked for more memory than its fair share: every offset handed to a target lies
  below the region size divided by the stripe width (granularity times number of targets), rounded
  up to a whole number of stripes, times the granularity.
\<close>

theorem interleave_offset_bound:
  assumes "interleave_wf d" "interleave_cover d a"
  defines "cfg \<equiv> hdm_interleave_config d"
  defines "g \<equiv> unat (granularity_bytes (il_granularity cfg))"
  shows "unat (dr_local_offset (decode_interleaved d a))
    < (unat (il_total_size cfg) div (g * length (il_target_ids cfg)) + 1) * g"
proof -
  let ?n = "length (il_target_ids cfg)"
  define r where "r = unat a - unat (il_base_addr cfg)"
  have "r < unat (il_total_size cfg)"
    using assms(2) by (auto simp: r_def cfg_def interleave_cover_def Let_def)
  then have "r div g div ?n \<le> unat (il_total_size cfg) div (g * ?n)"
    by (simp add: div_le_mono flip: div_mult2_eq)
  then have "r div g div ?n * g \<le> unat (il_total_size cfg) div (g * ?n) * g"
    by (rule mult_le_mono1)
  moreover have "r mod g < g" by (simp add: g_def granularity_pos)
  moreover have "unat (dr_local_offset (decode_interleaved d a)) = r div g div ?n * g + r mod g"
    using assms(1,2)
    by (simp add: decode_interleaved_hit interleave_offset_def r_def cfg_def g_def Let_def)
  ultimately show ?thesis
    unfolding add_mult_distrib mult_1 by linarith
qed

theorem interleave_offset_bound_witness:
  "unat (dr_local_offset (decode_interleaved example_interleave 9000))
    < (unat (il_total_size (hdm_interleave_config example_interleave)) div
         (unat (granularity_bytes (il_granularity (hdm_interleave_config example_interleave)))
          * length (il_target_ids (hdm_interleave_config example_interleave))) + 1)
      * unat (granularity_bytes (il_granularity (hdm_interleave_config example_interleave)))"
  by (rule interleave_offset_bound [OF example_interleave_wf])

section \<open>Routing without aliasing\<close>

text \<open>
  What the memory system relies on: an address map that answers for the addresses it owns and for
  no others, and never sends two of them to the same cell.
\<close>

locale address_router =
  fixes routes :: "'d \<Rightarrow> u64 \<Rightarrow> DecodeResult"
    and owns :: "'d \<Rightarrow> u64 \<Rightarrow> bool"
    and wf :: "'d \<Rightarrow> bool"
  assumes miss: "wf d \<Longrightarrow> \<not> owns d a \<Longrightarrow> routes d a = decode_miss"
    and hit: "wf d \<Longrightarrow> owns d a \<Longrightarrow> dr_target_id (routes d a) \<noteq> UINT32_MAX"
    and no_alias: "wf d \<Longrightarrow> owns d a \<Longrightarrow> owns d b \<Longrightarrow>
      dr_target_id (routes d a) = dr_target_id (routes d b) \<Longrightarrow>
      dr_local_offset (routes d a) = dr_local_offset (routes d b) \<Longrightarrow> a = b"
begin

lemma routed_iff: "wf d \<Longrightarrow> dr_target_id (routes d a) \<noteq> UINT32_MAX \<longleftrightarrow> owns d a"
  using miss [of d a] hit [of d a] by (cases "owns d a") (auto simp: decode_miss_def)

lemma routed_no_alias:
  assumes "wf d" "dr_target_id (routes d a) \<noteq> UINT32_MAX"
    and "dr_target_id (routes d b) = dr_target_id (routes d a)"
    and "dr_local_offset (routes d b) = dr_local_offset (routes d a)"
  shows "b = a"
proof (rule no_alias [OF assms(1)])
  show "owns d a" using assms by (simp add: routed_iff [symmetric])
  show "owns d b" using assms by (simp add: routed_iff [symmetric])
qed (use assms in simp_all)

end

text \<open>
  A map that asks a first router and falls back to a second one keeps the contract, provided the
  two never answer with the same target.
\<close>

locale fallback_router =
  first: address_router routes1 owns1 wf1 + second: address_router routes2 owns2 wf2
  for routes1 :: "'d \<Rightarrow> u64 \<Rightarrow> DecodeResult" and owns1 wf1 routes2 owns2 wf2 +
  fixes both :: "'d \<Rightarrow> bool"
  assumes both_wf: "both d \<Longrightarrow> wf1 d \<and> wf2 d"
    and separate: "both d \<Longrightarrow> owns1 d a \<Longrightarrow> owns2 d b \<Longrightarrow>
      dr_target_id (routes1 d a) \<noteq> dr_target_id (routes2 d b)"
begin

lemma fallback_contract:
  "address_router
     (\<lambda>d a. if dr_target_id (routes1 d a) \<noteq> UINT32_MAX then routes1 d a else routes2 d a)
     (\<lambda>d a. owns1 d a \<or> owns2 d a) both"
proof
  fix d a
  let ?f = "\<lambda>d a. if dr_target_id (routes1 d a) \<noteq> UINT32_MAX then routes1 d a else routes2 d a"
  assume d: "both d"
  have f: "?f d x = (if owns1 d x then routes1 d x else routes2 d x)" for x
    using first.routed_iff [of d x] both_wf [OF d] by auto
  show "\<not> (owns1 d a \<or> owns2 d a) \<Longrightarrow> ?f d a = decode_miss"
    using both_wf [OF d] by (simp add: f second.miss)
  show "owns1 d a \<or> owns2 d a \<Longrightarrow> dr_target_id (?f d a) \<noteq> UINT32_MAX"
    using both_wf [OF d] by (auto simp: f first.hit second.hit)
  fix b
  assume "owns1 d a \<or> owns2 d a" "owns1 d b \<or> owns2 d b"
    "dr_target_id (?f d a) = dr_target_id (?f d b)"
    "dr_local_offset (?f d a) = dr_local_offset (?f d b)"
  then show "a = b"
    unfolding f using both_wf [OF d] separate [OF d, of a b] separate [OF d, of b a]
      first.no_alias [of d a b] second.no_alias [of d a b]
    by (cases "owns1 d a"; cases "owns1 d b") auto
qed

end

interpretation range_router: address_router decode_range ranges_cover ranges_route_wf
proof
  fix d a b
  assume "ranges_route_wf d"
  then have w: "ranges_wf d" and dt: "distinct (map hr_target_id (hdm_ranges d))"
    by (auto simp: ranges_route_wf_def)
  show "\<not> ranges_cover d a \<Longrightarrow> decode_range d a = decode_miss"
    by (rule decode_range_miss [OF w])
  show "ranges_cover d a \<Longrightarrow> dr_target_id (decode_range d a) \<noteq> UINT32_MAX"
    using w by (auto elim!: ranges_coverE simp: decode_range_hit range_hit_def ranges_wf_def
        list_all_iff range_ok_def)
  assume "ranges_cover d a" "ranges_cover d b"
  then obtain r s where rs: "r \<in> set (hdm_ranges d)" "range_covers r a"
      "s \<in> set (hdm_ranges d)" "range_covers s b"
    by (auto elim!: ranges_coverE)
  assume "dr_target_id (decode_range d a) = dr_target_id (decode_range d b)"
    "dr_local_offset (decode_range d a) = dr_local_offset (decode_range d b)"
  then have eq: "hr_target_id r = hr_target_id s" "a - hr_base_addr r = b - hr_base_addr s"
    using rs w by (simp_all add: decode_range_hit range_hit_def)
  have "r = s"
    using dt eq(1) rs(1,3) unfolding distinct_map by (blast dest: inj_onD)
  with eq(2) show "a = b" by simp
qed

interpretation interleave_router: address_router decode_interleaved interleave_cover interleave_wf
proof
  fix d a b
  assume w: "interleave_wf d"
  show "\<not> interleave_cover d a \<Longrightarrow> decode_interleaved d a = decode_miss"
    using w by (auto simp: decode_interleaved_def interleave_cover_def interleave_wf_def Let_def
        word_nat_simps unat_add_no_wrap)
  show "interleave_cover d a \<Longrightarrow> dr_target_id (decode_interleaved d a) \<noteq> UINT32_MAX"
    using w interleave_index_less [of d a]
    by (auto simp: decode_interleaved_hit interleave_wf_def Let_def in_set_conv_nth)
  assume ab: "interleave_cover d a" "interleave_cover d b"
    and eq: "dr_target_id (decode_interleaved d a) = dr_target_id (decode_interleaved d b)"
      "dr_local_offset (decode_interleaved d a) = dr_local_offset (decode_interleaved d b)"
  have "interleave_index d a = interleave_index d b"
    using eq(1) w ab interleave_index_less
    by (simp add: decode_interleaved_hit interleave_wf_def Let_def nth_eq_iff_index_eq)
  moreover have "interleave_offset d a = interleave_offset d b"
    using eq(2) w ab by (metis decode_interleaved_hit(2))
  ultimately show "a = b"
    using interleave_reconstruct [OF ab(1)] interleave_reconstruct [OF ab(2)]
    by (simp add: word_unat_eq_iff)
qed

interpretation hybrid_router: fallback_router
  decode_range ranges_cover ranges_route_wf decode_interleaved interleave_cover interleave_wf hybrid_wf
proof
  fix d a b
  assume d: "hybrid_wf d"
  then show "ranges_route_wf d \<and> interleave_wf d" by (simp add: hybrid_wf_def)
  assume "ranges_cover d a" "interleave_cover d b"
  with d show "dr_target_id (decode_range d a) \<noteq> dr_target_id (decode_interleaved d b)"
    using interleave_index_less [of d b]
    by (auto elim!: ranges_coverE simp: hybrid_wf_def ranges_route_wf_def decode_range_hit
        range_hit_def decode_interleaved_hit)
qed

text \<open>
  C22. In hybrid mode, the mode of the distributed server with TCP transport, a decoder set up without
  conflicts never aliases memory: if two physical addresses decode to the same target and the same
  offset within it, and the target is a real one, they are the same address.  Without conflicts means
  that the ranges are not empty, end below \<open>2^64\<close>, do not overlap and have different targets, that the
  interleave region ends below \<open>2^64\<close> and its targets are distinct, that no range and the
  interleaving have a target in common, and that no target is the mark of a miss.
\<close>

theorem decode_no_alias:
  assumes "hybrid_wf d" "hdm_mode d = HYBRID"
    and "dr_target_id (decode d a) \<noteq> UINT32_MAX"
    and "dr_target_id (decode d b) = dr_target_id (decode d a)"
    and "dr_local_offset (decode d b) = dr_local_offset (decode d a)"
  shows "b = a"
  using address_router.routed_no_alias [OF hybrid_router.fallback_contract assms(1), of a b] assms(2-)
  by (simp add: decode_def Let_def)

theorem decode_no_alias_witness:
  "dr_target_id (decode example_interleave 9000) \<noteq> UINT32_MAX
   \<and> \<not> (dr_target_id (decode example_interleave 9768) = dr_target_id (decode example_interleave 9000)
        \<and> dr_local_offset (decode example_interleave 9768)
          = dr_local_offset (decode example_interleave 9000))"
proof -
  have w: "hybrid_wf example_interleave" "hdm_mode example_interleave = HYBRID"
    using example_interleave_wf
    by (simp_all add: example_interleave_def configure_interleave_def add_range_def
        new_HDMDecoder_def hybrid_wf_def ranges_route_wf_def ranges_wf_def range_ok_def)
  have t: "dr_target_id (decode example_interleave 9000) \<noteq> UINT32_MAX"
    by (simp add: example_interleave_def configure_interleave_def add_range_def new_HDMDecoder_def
        decode_def decode_range_def decode_miss_def decode_interleaved_def)
  show ?thesis
    using decode_no_alias [OF w t, of 9768] t by auto
qed

end
