(* ===== verification/Cache_State.thy ===== *)
theory Cache_State
  imports Prelude
begin

text \<open>
  What the two coherency protocols of the program share: the MOESI states and the per-head (host
  port) state of \<open>include/cxlendpoint.h\<close>, and the abstract specification both are held to.

  The specification speaks of access permissions only: at any time a node may write a line, may read
  it, or has no access.  A write gives the writer the only permission; a read gives the reader read
  permission and takes write permission from whoever held it.  The locale \<open>coherent_memory\<close> states
  that a protocol implements this, line by line, and proves once what follows for whole runs.
\<close>

section \<open>Data\<close>

datatype MHSLDCacheState = INVALID | SHARED | EXCLUSIVE | MODIFIED | OWNED

record MHSLDHeadState =
  hs_head_id :: u32
  hs_allocated_capacity :: u64
  hs_used_capacity :: u64
  hs_bandwidth_share :: real
  hs_total_reads :: u64
  hs_total_writes :: u64
  hs_coherency_stalls :: u64
  hs_back_invalidations :: u64
  hs_active :: bool

definition new_MHSLDHeadState :: MHSLDHeadState where
  "new_MHSLDHeadState =
     \<lparr>hs_head_id = 0, hs_allocated_capacity = 0, hs_used_capacity = 0, hs_bandwidth_share = 1,
      hs_total_reads = 0, hs_total_writes = 0, hs_coherency_stalls = 0, hs_back_invalidations = 0,
      hs_active = False\<rparr>"

section \<open>The abstract protocol\<close>

datatype permission = NoAccess | ReadAccess | WriteAccess

type_synonym permissions = "u32 \<Rightarrow> permission"

definition spec_read :: "u32 \<Rightarrow> permissions \<Rightarrow> permissions" where
  "spec_read n p =
     (if p n \<noteq> NoAccess then p
      else (\<lambda>m. if m = n \<or> p m = WriteAccess then ReadAccess else p m))"

definition spec_write :: "u32 \<Rightarrow> permissions \<Rightarrow> permissions" where
  "spec_write n p = (\<lambda>m. if m = n then WriteAccess else NoAccess)"

definition single_writer :: "permissions \<Rightarrow> bool" where
  "single_writer p \<longleftrightarrow> (\<forall>m n. p m = WriteAccess \<longrightarrow> p n \<noteq> NoAccess \<longrightarrow> m = n)"

text \<open>The permissions a MOESI directory entry stands for.\<close>

definition moesi_permissions :: "MHSLDCacheState \<Rightarrow> u32 \<Rightarrow> u32 set \<Rightarrow> permissions" where
  "moesi_permissions st owner sharers n =
     (if n = owner \<and> (st = EXCLUSIVE \<or> st = MODIFIED) then WriteAccess
      else if n = owner \<and> st = OWNED \<or> n \<in> sharers then ReadAccess
      else NoAccess)"

text \<open>
  The shape of an entry: an exclusive or modified line has a real owner and no sharers, an owned
  line has a real owner that is not counted among its sharers, a modified or owned line is dirty.
\<close>

definition moesi_entry_ok :: "MHSLDCacheState \<Rightarrow> u32 \<Rightarrow> u32 set \<Rightarrow> bool \<Rightarrow> bool" where
  "moesi_entry_ok st owner sharers dirty \<longleftrightarrow>
     (st = EXCLUSIVE \<or> st = MODIFIED \<longrightarrow> sharers = {} \<and> owner \<noteq> UINT32_MAX)
     \<and> (st = OWNED \<longrightarrow> owner \<notin> sharers \<and> owner \<noteq> UINT32_MAX)
     \<and> (st = MODIFIED \<or> st = OWNED \<longrightarrow> dirty)
     \<and> UINT32_MAX \<notin> sharers"

lemma single_writer_initial: "single_writer (\<lambda>_. NoAccess)"
  by (simp add: single_writer_def)

lemma single_writer_spec_read: "single_writer p \<Longrightarrow> single_writer (spec_read n p)"
  by (auto simp: single_writer_def spec_read_def)

lemma single_writer_spec_write: "single_writer (spec_write n p)"
  by (simp add: single_writer_def spec_write_def)

lemma single_writer_moesi: "moesi_entry_ok st ow sh dirty \<Longrightarrow> single_writer (moesi_permissions st ow sh)"
  by (auto simp: single_writer_def moesi_permissions_def moesi_entry_ok_def split: if_splits)

text \<open>The MOESI transitions, as steps of the abstract protocol.\<close>

named_theorems moesi_steps

lemma moesi_read_hit [moesi_steps]:
  "ow = n \<and> (st = EXCLUSIVE \<or> st = MODIFIED \<or> st = OWNED) \<or> n \<in> sh \<Longrightarrow>
     spec_read n (moesi_permissions st ow sh) = moesi_permissions st ow sh"
  by (auto simp: spec_read_def moesi_permissions_def)

lemma moesi_read_shared [moesi_steps]:
  "st = INVALID \<or> st = SHARED \<Longrightarrow> n \<notin> sh \<Longrightarrow>
     spec_read n (moesi_permissions st ow sh) = moesi_permissions SHARED ow' (insert n sh)"
  by (auto simp: spec_read_def moesi_permissions_def fun_eq_iff)

lemma moesi_read_exclusive [moesi_steps]:
  "ow \<noteq> n \<Longrightarrow> spec_read n (moesi_permissions EXCLUSIVE ow {}) = moesi_permissions SHARED ow' {n, ow}"
  by (auto simp: spec_read_def moesi_permissions_def fun_eq_iff)

lemma moesi_read_modified [moesi_steps]:
  "ow \<noteq> n \<Longrightarrow> spec_read n (moesi_permissions MODIFIED ow {}) = moesi_permissions OWNED ow {n}"
  by (auto simp: spec_read_def moesi_permissions_def fun_eq_iff)

lemma moesi_read_owned [moesi_steps]:
  "ow \<noteq> n \<Longrightarrow> n \<notin> sh \<Longrightarrow>
     spec_read n (moesi_permissions OWNED ow sh) = moesi_permissions OWNED ow (insert n sh)"
  by (auto simp: spec_read_def moesi_permissions_def fun_eq_iff)

lemma moesi_write [moesi_steps]: "spec_write n p = moesi_permissions MODIFIED n {}"
  by (auto simp: spec_write_def moesi_permissions_def fun_eq_iff)

locale coherent_memory =
  fixes perm :: "'s \<Rightarrow> u64 \<Rightarrow> permissions"
    and step :: "'s \<Rightarrow> 'op \<Rightarrow> 's"
    and line_of :: "'op \<Rightarrow> u64"
    and node_of :: "'op \<Rightarrow> u32"
    and is_write :: "'op \<Rightarrow> bool"
    and inv :: "'s \<Rightarrow> bool"
    and op_ok :: "'s \<Rightarrow> 'op \<Rightarrow> bool"
  assumes step_inv: "inv s \<Longrightarrow> op_ok s op \<Longrightarrow> inv (step s op)"
    and step_op_ok: "inv s \<Longrightarrow> op_ok s op \<Longrightarrow> op_ok (step s op) op' = op_ok s op'"
    and perm_step: "inv s \<Longrightarrow> op_ok s op \<Longrightarrow>
      perm (step s op) l =
        (if l = line_of op
         then (if is_write op then spec_write (node_of op) (perm s l)
               else spec_read (node_of op) (perm s l))
         else perm s l)"
    and perm_single: "inv s \<Longrightarrow> single_writer (perm s l)"
begin

lemma run_inv:
  "inv s \<Longrightarrow> \<forall>op \<in> set ops. op_ok s op \<Longrightarrow>
     inv (foldl step s ops) \<and> (\<forall>op. op_ok (foldl step s ops) op = op_ok s op)"
  by (induction ops arbitrary: s) (simp_all add: step_inv step_op_ok)

lemma run_single_writer:
  "inv s \<Longrightarrow> \<forall>op \<in> set ops. op_ok s op \<Longrightarrow> single_writer (perm (foldl step s ops) l)"
  using run_inv perm_single by blast

text \<open>
  After a write and any further reads, only the writer and nodes that read since have access.
\<close>

lemma access_since_write:
  assumes "inv s" and "op_ok s w" and "is_write w" and "\<forall>op \<in> set ops. op_ok s op \<and> \<not> is_write op"
    and "perm (foldl step (step s w) ops) (line_of w) n \<noteq> NoAccess"
  shows "n = node_of w \<or> (\<exists>op \<in> set ops. node_of op = n \<and> line_of op = line_of w)"
  using assms(5,4)
proof (induction ops arbitrary: n rule: rev_induct)
  case Nil
  then show ?case
    using assms(1,2,3) by (simp add: perm_step spec_write_def split: if_splits)
next
  case (snoc op ops)
  have pre: "\<forall>op \<in> set ops. op_ok (step s w) op"
    using snoc.prems(2) step_op_ok [OF assms(1,2)] by simp
  let ?s = "foldl step (step s w) ops"
  have inv: "inv ?s" and ok: "op_ok ?s op"
    using run_inv [OF step_inv [OF assms(1,2)] pre] snoc.prems(2) step_op_ok [OF assms(1,2)] by auto
  show ?case
  proof (cases "perm ?s (line_of w) n = NoAccess")
    case True
    then have "n = node_of op \<and> line_of op = line_of w"
      using snoc.prems perm_step [OF inv ok, of "line_of w"]
      by (auto simp: spec_read_def split: if_splits)
    then show ?thesis by auto
  next
    case False
    then show ?thesis using snoc.IH [of n] snoc.prems(2) by auto
  qed
qed

end

end
