(* ===== verification/LogP.thy ===== *)
theory LogP
  imports Prelude
begin

text \<open>
  The LogP queuing model of \<open>include/cxlendpoint.h\<close> (\<open>LogPConfig\<close>, \<open>LogPQueueState\<close>,
  \<open>LogPModel\<close>): the cost of a message between two nodes from the latency \<open>L\<close>, the send and receive
  overheads \<open>o_s\<close> and \<open>o_r\<close>, the gap \<open>g\<close> between consecutive sends to one node and an M/D/1 estimate
  of the time spent queueing.  The mutex around each operation makes it atomic, so an operation is
  one function on the model's state.

  The lemmas show that a message never costs less than the uncontended point-to-point time, that
  consecutive sends to a node are spaced by the gap, that the queueing estimate is bounded, and how
  the cost of a tree broadcast grows with the number of nodes.
\<close>

section \<open>Data\<close>

record LogPConfig =
  lp_L :: real
  lp_o_s :: real
  lp_o_r :: real
  lp_g :: real
  lp_P :: u32

record LogPQueueState =
  q_arrival_rate :: real
  q_service_rate :: real
  q_queue_occupancy :: real
  q_total_messages :: u64
  q_total_wait_ns :: u64
  q_last_send_time :: u64
  q_last_recv_time :: u64

record LogPModel =
  lm_config :: LogPConfig
  lm_state :: LogPQueueState
  lm_node_queues :: "u32 \<rightharpoonup> LogPQueueState"

section \<open>Operations\<close>

definition default_LogPConfig :: LogPConfig where
  "default_LogPConfig = \<lparr>lp_L = 150, lp_o_s = 20, lp_o_r = 20, lp_g = 4, lp_P = 2\<rparr>"

definition new_LogPQueueState :: LogPQueueState where
  "new_LogPQueueState =
     \<lparr>q_arrival_rate = 0, q_service_rate = 0, q_queue_occupancy = 0, q_total_messages = 0,
      q_total_wait_ns = 0, q_last_send_time = 0, q_last_recv_time = 0\<rparr>"

definition default_LogPModel :: LogPModel where
  "default_LogPModel =
     \<lparr>lm_config = default_LogPConfig, lm_state = new_LogPQueueState, lm_node_queues = Map.empty\<rparr>"

definition new_LogPModel :: "LogPConfig \<Rightarrow> LogPModel" where
  "new_LogPModel cfg =
     \<lparr>lm_config = cfg, lm_state = new_LogPQueueState\<lparr>q_service_rate := 1 / lp_g cfg\<rparr>,
      lm_node_queues = Map.empty\<rparr>"

definition reconfigure :: "LogPModel \<Rightarrow> LogPConfig \<Rightarrow> LogPModel" where
  "reconfigure m cfg =
     m\<lparr>lm_config := cfg, lm_state := (lm_state m)\<lparr>q_service_rate := 1 / lp_g cfg\<rparr>,
       lm_node_queues := Map.empty\<rparr>"

definition p2p_latency :: "LogPModel \<Rightarrow> real" where
  "p2p_latency m = lp_o_s (lm_config m) + lp_L (lm_config m) + lp_o_r (lm_config m)"

text \<open>\<open>node_queues[dst_node]\<close>: a missing entry is created with its default value.\<close>

definition node_queue :: "LogPModel \<Rightarrow> u32 \<Rightarrow> LogPQueueState" where
  "node_queue m dst = (case lm_node_queues m dst of Some q \<Rightarrow> q | None \<Rightarrow> new_LogPQueueState)"

definition gap_wait :: "LogPModel \<Rightarrow> u64 \<Rightarrow> u32 \<Rightarrow> real" where
  "gap_wait m current_time dst =
     (let q = node_queue m dst; g = lp_g (lm_config m) in
      if q_last_send_time q > 0
         \<and> double_of_u64 current_time < double_of_u64 (q_last_send_time q) + g
      then (double_of_u64 (q_last_send_time q) + g) - double_of_u64 current_time
      else 0)"

definition send_delay :: "LogPModel \<Rightarrow> u64 \<Rightarrow> u32 \<Rightarrow> real \<times> LogPModel" where
  "send_delay m current_time dst =
     (let q = node_queue m dst; w = gap_wait m current_time dst; o_s = lp_o_s (lm_config m);
          q' = q\<lparr>q_last_send_time := u64_of_double (double_of_u64 current_time + w + o_s)\<rparr>
      in (w + o_s, m\<lparr>lm_node_queues := (lm_node_queues m)(dst \<mapsto> q')\<rparr>))"

definition queue_wait_time :: "LogPModel \<Rightarrow> u32 \<Rightarrow> real" where
  "queue_wait_time m dst =
     (case lm_node_queues m dst of
        None \<Rightarrow> 0
      | Some q \<Rightarrow>
          (let rho = (if q_queue_occupancy q \<ge> 1 then 99 / 100 else q_queue_occupancy q) in
           if rho < 1 / 100 then 0
           else rho / (2 * q_service_rate (lm_state m) * (1 - rho))))"

definition message_latency :: "LogPModel \<Rightarrow> u64 \<Rightarrow> u32 \<Rightarrow> real \<times> LogPModel" where
  "message_latency m current_time dst =
     (let (s_delay, m') = send_delay m current_time dst;
          q_wait = queue_wait_time m' dst
      in (s_delay + lp_L (lm_config m') + q_wait + lp_o_r (lm_config m'), m'))"

definition update_arrival_rate :: "LogPModel \<Rightarrow> u32 \<Rightarrow> u64 \<Rightarrow> u64 \<Rightarrow> LogPModel" where
  "update_arrival_rate m dst window_ns message_count =
     (let q = node_queue m dst;
          rate = double_of_u64 message_count / double_of_u64 window_ns;
          q' = q\<lparr>q_arrival_rate := rate,
                 q_queue_occupancy := rate / q_service_rate (lm_state m),
                 q_total_messages := q_total_messages q + message_count\<rparr>
      in m\<lparr>lm_node_queues := (lm_node_queues m)(dst \<mapsto> q')\<rparr>)"

definition record_message :: "LogPModel \<Rightarrow> u32 \<Rightarrow> u64 \<Rightarrow> LogPModel" where
  "record_message m dst latency_ns =
     (let q = node_queue m dst;
          q' = q\<lparr>q_total_messages := q_total_messages q + 1,
                 q_total_wait_ns := q_total_wait_ns q + latency_ns\<rparr>
      in m\<lparr>lm_node_queues := (lm_node_queues m)(dst \<mapsto> q')\<rparr>)"

definition broadcast_latency :: "LogPModel \<Rightarrow> real" where
  "broadcast_latency m =
     (if lp_P (lm_config m) \<le> 1 then 0
      else of_int \<lceil>log 2 (real (unat (lp_P (lm_config m))))\<rceil> * p2p_latency m)"

definition barrier_latency :: "LogPModel \<Rightarrow> real" where
  "barrier_latency m = 2 * broadcast_latency m"

definition avg_latency :: "LogPModel \<Rightarrow> u32 \<Rightarrow> real" where
  "avg_latency m dst =
     (case lm_node_queues m dst of
        None \<Rightarrow> p2p_latency m
      | Some q \<Rightarrow>
          if q_total_messages q = 0 then p2p_latency m
          else double_of_u64 (q_total_wait_ns q) / double_of_u64 (q_total_messages q))"

section \<open>Well-formed models\<close>

text \<open>
  Non-negative parameters, a positive gap and the service rate that the constructor and
  \<open>reconfigure\<close> set; the arrival statistics never hold a negative occupancy.
\<close>

definition logp_config_ok :: "LogPConfig \<Rightarrow> bool" where
  "logp_config_ok c \<longleftrightarrow> 0 \<le> lp_L c \<and> 0 \<le> lp_o_s c \<and> 0 \<le> lp_o_r c \<and> 0 < lp_g c"

definition logp_ok :: "LogPModel \<Rightarrow> bool" where
  "logp_ok m \<longleftrightarrow> logp_config_ok (lm_config m)
     \<and> q_service_rate (lm_state m) = 1 / lp_g (lm_config m)"

text \<open>The instant at which a send that starts at \<open>t\<close> has left the sender.\<close>

definition departure :: "LogPModel \<Rightarrow> u64 \<Rightarrow> u32 \<Rightarrow> real" where
  "departure m t dst = double_of_u64 t + fst (send_delay m t dst)"

text \<open>Concrete models for the instances of the theorems.\<close>

definition example_logp :: LogPModel where
  "example_logp = new_LogPModel default_LogPConfig"

definition loaded_logp :: "real \<Rightarrow> LogPModel" where
  "loaded_logp rho =
     example_logp\<lparr>lm_node_queues := [1 \<mapsto> new_LogPQueueState\<lparr>q_queue_occupancy := rho\<rparr>]\<rparr>"

text \<open>The interface the coherency protocols use: a channel that charges for a message.\<close>

locale latency_channel =
  fixes transmit :: "'s \<Rightarrow> u64 \<Rightarrow> u32 \<Rightarrow> real \<times> 's"
    and ok :: "'s \<Rightarrow> bool"
  assumes transmit_nonneg: "ok s \<Longrightarrow> 0 \<le> fst (transmit s t n)"
    and transmit_ok: "ok s \<Longrightarrow> ok (snd (transmit s t n))"
begin

lemma transmit_cases:
  assumes "ok s"
  obtains l s' where "transmit s t n = (l, s')" "0 \<le> l" "ok s'"
  using transmit_nonneg [OF assms, of t n] transmit_ok [OF assms, of t n] that
  by (cases "transmit s t n") auto

end

section \<open>Basic facts\<close>

lemma send_delay_config [frame_simps]:
  "lm_config (snd (send_delay m t dst)) = lm_config m"
  "lm_state (snd (send_delay m t dst)) = lm_state m"
  by (simp_all add: send_delay_def Let_def)

lemma send_delay_other:
  "n \<noteq> dst \<Longrightarrow> lm_node_queues (snd (send_delay m t dst)) n = lm_node_queues m n"
  by (simp add: send_delay_def Let_def)

lemma message_latency_model [frame_simps]:
  "snd (message_latency m t dst) = snd (send_delay m t dst)"
  by (simp add: message_latency_def Let_def split: prod.split)

lemma record_message_config [frame_simps]:
  "lm_config (record_message m dst l) = lm_config m"
  "lm_state (record_message m dst l) = lm_state m"
  by (simp_all add: record_message_def Let_def)

lemma logp_ok_new: "logp_config_ok cfg \<Longrightarrow> logp_ok (new_LogPModel cfg)"
  by (simp add: logp_ok_def new_LogPModel_def)

lemma logp_ok_reconfigure: "logp_config_ok cfg \<Longrightarrow> logp_ok (reconfigure m cfg)"
  by (simp add: logp_ok_def reconfigure_def)

lemma logp_ok_send [intro]: "logp_ok m \<Longrightarrow> logp_ok (snd (send_delay m t dst))"
  by (simp add: logp_ok_def frame_simps)

lemma logp_ok_message [intro]: "logp_ok m \<Longrightarrow> logp_ok (snd (message_latency m t dst))"
  by (simp add: logp_ok_send frame_simps)

lemma logp_ok_record [intro]: "logp_ok m \<Longrightarrow> logp_ok (record_message m dst l)"
  by (simp add: logp_ok_def frame_simps)

lemma logp_ok_update [intro]: "logp_ok m \<Longrightarrow> logp_ok (update_arrival_rate m dst w c)"
  by (simp add: logp_ok_def update_arrival_rate_def Let_def)

lemma gap_wait_nonneg: "0 \<le> gap_wait m t dst"
  by (simp add: gap_wait_def Let_def)

lemma fst_send_delay: "fst (send_delay m t dst) = gap_wait m t dst + lp_o_s (lm_config m)"
  by (simp add: send_delay_def Let_def)

lemma last_send_send_delay:
  "q_last_send_time (node_queue (snd (send_delay m t dst)) dst) = u64_of_double (departure m t dst)"
  by (simp add: send_delay_def departure_def node_queue_def Let_def add.assoc)

lemma queue_wait_nonneg:
  assumes "logp_ok m"
  shows "0 \<le> queue_wait_time m dst"
proof (cases "lm_node_queues m dst")
  case (Some q)
  with assms show ?thesis
    by (auto simp: queue_wait_time_def logp_ok_def logp_config_ok_def Let_def)
qed (simp add: queue_wait_time_def)

lemma fst_message_latency:
  "fst (message_latency m t dst) =
     p2p_latency m + gap_wait m t dst + queue_wait_time (snd (send_delay m t dst)) dst"
proof -
  have "fst (message_latency m t dst) = fst (send_delay m t dst) + lp_L (lm_config m)
      + queue_wait_time (snd (send_delay m t dst)) dst + lp_o_r (lm_config m)"
    using send_delay_config [of m t dst]
    by (cases "send_delay m t dst") (simp add: message_latency_def)
  then show ?thesis
    by (simp add: fst_send_delay p2p_latency_def)
qed

lemma p2p_nonneg: "logp_ok m \<Longrightarrow> 0 \<le> p2p_latency m"
  by (simp add: p2p_latency_def logp_ok_def logp_config_ok_def)

interpretation logp_channel: latency_channel message_latency logp_ok
proof
  fix m :: LogPModel and t n
  assume ok: "logp_ok m"
  show "0 \<le> fst (message_latency m t n)"
    using p2p_nonneg [OF ok] gap_wait_nonneg [of m t n]
      queue_wait_nonneg [OF logp_ok_send [OF ok], of t n n]
    by (simp add: fst_message_latency)
  show "logp_ok (snd (message_latency m t n))"
    using ok by (rule logp_ok_message)
qed

lemma queue_wait_bound:
  assumes "logp_ok m"
    and "\<And>q. lm_node_queues m dst = Some q \<Longrightarrow> q_queue_occupancy q \<le> 99 / 100 \<or> 1 \<le> q_queue_occupancy q"
  shows "queue_wait_time m dst \<le> 99 / 2 * lp_g (lm_config m)"
proof (cases "lm_node_queues m dst")
  case None
  with assms show ?thesis
    by (simp add: queue_wait_time_def logp_ok_def logp_config_ok_def)
next
  case (Some q)
  define rho where "rho = (if q_queue_occupancy q \<ge> 1 then 99 / 100 else q_queue_occupancy q)"
  let ?g = "lp_g (lm_config m)"
  have g: "0 < ?g" and mu: "q_service_rate (lm_state m) = 1 / ?g"
    using assms(1) by (auto simp: logp_ok_def logp_config_ok_def)
  have rho: "rho \<le> 99 / 100"
    using assms(2) [OF Some] by (auto simp: rho_def)
  have "rho / (2 * (1 / ?g) * (1 - rho)) = ?g * (rho / (2 * (1 - rho)))"
    using g rho by (simp add: field_simps)
  also have "\<dots> \<le> ?g * (99 / 2)"
    using g rho by (intro mult_left_mono) (simp_all add: divide_le_eq)
  finally show ?thesis
    using Some g by (simp add: queue_wait_time_def Let_def mu flip: rho_def)
qed

lemma example_logp_ok: "logp_ok example_logp"
  unfolding example_logp_def
  by (rule logp_ok_new) (simp add: logp_config_ok_def default_LogPConfig_def)

section \<open>Properties of the model\<close>

text \<open>
  Contention only ever adds cost: whatever the history of sends and the recorded traffic, a
  message takes at least the uncontended point-to-point time \<open>o_s + L + o_r\<close>.
\<close>

theorem message_latency_ge_p2p:
  assumes "logp_ok m"
  shows "p2p_latency m \<le> fst (message_latency m t dst)"
  using gap_wait_nonneg [of m t dst] queue_wait_nonneg [OF logp_ok_send [OF assms], of t dst dst]
  by (simp add: fst_message_latency)

theorem message_latency_ge_p2p_witness:
  "190 = p2p_latency example_logp \<and> p2p_latency example_logp \<le> fst (message_latency example_logp 7 1)"
  using message_latency_ge_p2p [OF example_logp_ok, of 7 1]
  by (simp add: p2p_latency_def example_logp_def new_LogPModel_def default_LogPConfig_def)

text \<open>
  The cost of a message is bounded: when the clock has reached the last recorded send and the
  estimated utilisation is at most 99 percent or saturated, gap and queueing together add at most
  50.5 gaps to the point-to-point time.
\<close>

theorem message_latency_upper:
  assumes "logp_ok m" and "q_last_send_time (node_queue m dst) \<le> t"
    and "q_queue_occupancy (node_queue m dst) \<le> 99 / 100 \<or> 1 \<le> q_queue_occupancy (node_queue m dst)"
  shows "fst (message_latency m t dst) \<le> p2p_latency m + 101 / 2 * lp_g (lm_config m)"
proof -
  have "double_of_u64 (q_last_send_time (node_queue m dst)) \<le> double_of_u64 t"
    using assms(2) double_of_u64_less_iff [of t] by (metis not_less)
  then have "gap_wait m t dst \<le> lp_g (lm_config m)"
    using assms(1) by (auto simp: gap_wait_def Let_def logp_ok_def logp_config_ok_def)
  moreover have "queue_wait_time (snd (send_delay m t dst)) dst \<le> 99 / 2 * lp_g (lm_config m)"
    using queue_wait_bound [OF logp_ok_send [OF assms(1)], of t dst dst] assms(3)
    by (simp add: frame_simps) (simp add: send_delay_def Let_def)
  ultimately show ?thesis
    by (simp add: fst_message_latency)
qed

theorem message_latency_upper_witness:
  "fst (message_latency example_logp 7 1) \<le> p2p_latency example_logp + 101 / 2 * lp_g (lm_config example_logp)"
  by (rule message_latency_upper [OF example_logp_ok])
    (simp_all add: node_queue_def new_LogPQueueState_def example_logp_def new_LogPModel_def)

text \<open>
  C40. The gap is enforced: after a send to a node has left at some instant, no later send to that
  node leaves before the recorded (truncated) departure time plus the gap plus the send overhead,
  no matter when it is requested.
\<close>

theorem send_gap_enforced:
  assumes "logp_ok m" and "1 \<le> departure m t dst" and "departure m t dst < 2 ^ 64"
  shows "real_of_int \<lfloor>departure m t dst\<rfloor> + lp_g (lm_config m) + lp_o_s (lm_config m)
    \<le> departure (snd (send_delay m t dst)) t' dst"
proof -
  define m' where "m' = snd (send_delay m t dst)"
  define last where "last = q_last_send_time (node_queue m' dst)"
  have last: "double_of_u64 last = real_of_int \<lfloor>departure m t dst\<rfloor>"
    unfolding last_def m'_def last_send_send_delay double_of_u64_def
    by (rule u64_of_double_exact) (use assms(2,3) in simp_all)
  have "last \<noteq> 0"
  proof
    assume "last = 0"
    then have "real_of_int \<lfloor>departure m t dst\<rfloor> = 0" using last by simp
    with assms(2) show False by linarith
  qed
  then have "0 < last" by (simp add: word_gt_0)
  then have "double_of_u64 last + lp_g (lm_config m) \<le> double_of_u64 t' + gap_wait m' t' dst"
    by (auto simp: gap_wait_def Let_def last_def) (auto simp: m'_def frame_simps)
  then show ?thesis
    by (simp add: departure_def fst_send_delay last flip: m'_def) (simp add: m'_def frame_simps)
qed

theorem send_gap_enforced_witness:
  "real_of_int \<lfloor>departure example_logp 100 1\<rfloor> + lp_g (lm_config example_logp)
     + lp_o_s (lm_config example_logp) \<le> departure (snd (send_delay example_logp 100 1)) 101 1"
proof (rule send_gap_enforced [OF example_logp_ok])
  have "departure example_logp 100 1 = 120"
    by (simp add: departure_def send_delay_def gap_wait_def node_queue_def example_logp_def
        new_LogPModel_def new_LogPQueueState_def default_LogPConfig_def double_of_u64_def)
  then show "1 \<le> departure example_logp 100 1" "departure example_logp 100 1 < 2 ^ 64"
    by simp_all
qed

text \<open>
  A broadcast costs one point-to-point time per level of a binary tree that reaches all nodes:
  the number of levels is the least one whose tree holds \<open>P\<close> nodes, and a barrier costs twice that.
\<close>

theorem broadcast_tree_depth:
  assumes "1 < lp_P (lm_config m)"
  shows "\<exists>k. broadcast_latency m = real k * p2p_latency m
      \<and> barrier_latency m = 2 * real k * p2p_latency m
      \<and> unat (lp_P (lm_config m)) \<le> 2 ^ k \<and> (\<forall>j < k. 2 ^ j < unat (lp_P (lm_config m)))"
proof -
  define P where "P = unat (lp_P (lm_config m))"
  define k where "k = nat \<lceil>log 2 (real P)\<rceil>"
  have P: "1 < P" using assms by (simp add: P_def word_less_nat_alt)
  then have "0 < log 2 (real P)" by simp
  then have k: "real k = of_int \<lceil>log 2 (real P)\<rceil>" by (simp add: k_def)
  have "log 2 (real P) \<le> real k" using k by linarith
  then have "real P \<le> 2 ^ k"
    using P by (simp add: log_le_iff powr_realpow)
  then have le: "P \<le> 2 ^ k"
    by (metis of_nat_le_iff of_nat_numeral of_nat_power)
  have lt: "2 ^ j < P" if "j < k" for j
  proof -
    have "real j < log 2 (real P)" using that k by linarith
    then have "2 ^ j < real P" using P by (simp add: less_log_iff powr_realpow)
    then show ?thesis
      by (metis of_nat_less_iff of_nat_numeral of_nat_power)
  qed
  have b: "broadcast_latency m = real k * p2p_latency m"
    using assms k by (simp add: broadcast_latency_def P_def not_le [symmetric])
  show ?thesis
    by (rule exI [of _ k]) (use b le lt in \<open>simp add: barrier_latency_def P_def\<close>)
qed

theorem broadcast_tree_depth_witness:
  "\<exists>k. broadcast_latency example_logp = real k * p2p_latency example_logp
      \<and> barrier_latency example_logp = 2 * real k * p2p_latency example_logp
      \<and> unat (lp_P (lm_config example_logp)) \<le> 2 ^ k
      \<and> (\<forall>j < k. 2 ^ j < unat (lp_P (lm_config example_logp)))"
  by (rule broadcast_tree_depth)
    (simp add: example_logp_def new_LogPModel_def default_LogPConfig_def)

text \<open>
  The clamp of the utilisation is not monotone: just below saturation the estimate exceeds the one
  at and above saturation by an order of magnitude, because only values from 1 upwards are replaced
  by 0.99 while values between 0.99 and 1 are used as they are.
\<close>

lemma queue_wait_drops_at_saturation:
  "queue_wait_time (loaded_logp 2) 1 = 198 \<and> queue_wait_time (loaded_logp (999 / 1000)) 1 = 1998"
  by (simp add: queue_wait_time_def loaded_logp_def example_logp_def new_LogPModel_def
      new_LogPQueueState_def default_LogPConfig_def)

end
