(* ===== verification/Fabric_Link.thy ===== *)
theory Fabric_Link
  imports LogP
begin

text \<open>
  \<open>FabricLink\<close> of \<open>include/cxlendpoint.h\<close> and \<open>src/cxlendpoint.cpp\<close>: an inter-node link with a
  latency, a bandwidth and credit-based flow control.  \<open>acquire_credit\<close> retries its
  compare-and-exchange until it succeeds or no credit is left, so without interference one attempt
  decides; an interleaving of several users is a sequence of these atomic steps.

  The lemmas show that credits are conserved, that the congestion delay is bounded and grows as
  credits run out, and that a traversal takes at least the latency plus the serialisation time.
\<close>

section \<open>Data\<close>

record FabricLinkConfig =
  fl_latency_ns :: real
  fl_bandwidth_gbps :: real
  fl_max_credits :: u64

record FabricLink =
  fl_config :: FabricLinkConfig
  fl_src_node :: u32
  fl_dst_node :: u32
  fl_available_credits :: u64
  fl_in_flight_flits :: u64
  fl_last_flit_time :: u64

section \<open>Operations\<close>

definition new_FabricLink :: "u32 \<Rightarrow> u32 \<Rightarrow> FabricLinkConfig \<Rightarrow> FabricLink" where
  "new_FabricLink src dst cfg =
     \<lparr>fl_config = cfg, fl_src_node = src, fl_dst_node = dst,
      fl_available_credits = fl_max_credits cfg, fl_in_flight_flits = 0, fl_last_flit_time = 0\<rparr>"

definition link_utilization :: "FabricLink \<Rightarrow> real" where
  "link_utilization l =
     1 - double_of_u64 (fl_available_credits l) / double_of_u64 (fl_max_credits (fl_config l))"

definition get_congestion_delay :: "FabricLink \<Rightarrow> u64 \<Rightarrow> real" where
  "get_congestion_delay l timestamp =
     (let utilization = link_utilization l in
      if utilization < 1 / 2 then 0
      else if utilization < 8 / 10 then (utilization - 1 / 2) / (3 / 10) * 20
      else 20 + (utilization - 8 / 10) / (2 / 10) * 80)"

definition calculate_traversal_latency :: "FabricLink \<Rightarrow> u64 \<Rightarrow> u64 \<Rightarrow> real \<times> FabricLink" where
  "calculate_traversal_latency l timestamp data_size =
     (let serialization_ns =
            double_of_u64 data_size / (fl_bandwidth_gbps (fl_config l) * 10 ^ 9) * 10 ^ 9;
          latency = fl_latency_ns (fl_config l) + serialization_ns + get_congestion_delay l timestamp
      in (latency,
          l\<lparr>fl_last_flit_time := timestamp, fl_in_flight_flits := fl_in_flight_flits l + 1\<rparr>))"

definition acquire_credit :: "FabricLink \<Rightarrow> bool \<times> FabricLink" where
  "acquire_credit l =
     (if fl_available_credits l > 0
      then (True, l\<lparr>fl_available_credits := fl_available_credits l - 1\<rparr>)
      else (False, l))"

definition release_credit :: "FabricLink \<Rightarrow> FabricLink" where
  "release_credit l =
     (if fl_available_credits l < fl_max_credits (fl_config l)
      then l\<lparr>fl_available_credits := fl_available_credits l + 1\<rparr> else l)"

definition get_utilization :: "FabricLink \<Rightarrow> u64 \<Rightarrow> real" where
  "get_utilization l window_ns = link_utilization l"

section \<open>Well-formed links\<close>

definition link_ok :: "FabricLink \<Rightarrow> bool" where
  "link_ok l \<longleftrightarrow> 0 \<le> fl_latency_ns (fl_config l) \<and> 0 < fl_bandwidth_gbps (fl_config l)
     \<and> 0 < fl_max_credits (fl_config l)
     \<and> fl_available_credits l \<le> fl_max_credits (fl_config l)"

datatype credit_op = Acquire | Release

fun credit_step :: "FabricLink \<Rightarrow> credit_op \<Rightarrow> FabricLink" where
  "credit_step l Acquire = snd (acquire_credit l)"
| "credit_step l Release = release_credit l"

definition congestion_curve :: "real \<Rightarrow> real" where
  "congestion_curve u =
     (if u < 1 / 2 then 0 else if u < 8 / 10 then (u - 1 / 2) / (3 / 10) * 20
      else 20 + (u - 8 / 10) / (2 / 10) * 80)"

definition example_link :: FabricLink where
  "example_link =
     new_FabricLink 0 1 \<lparr>fl_latency_ns = 100, fl_bandwidth_gbps = 25, fl_max_credits = 32\<rparr>"

section \<open>Credits\<close>

text \<open>
  A pool of credits: taking one fails only when none is left, and giving one back never exceeds the
  capacity.  The link and the read and write credits of a memory expander are such pools.
\<close>

locale credit_pool =
  fixes credits :: "'p \<Rightarrow> nat"
    and capacity :: "'p \<Rightarrow> nat"
    and take_one :: "'p \<Rightarrow> 'p"
    and give_one :: "'p \<Rightarrow> 'p"
  assumes credits_take: "0 < credits p \<Longrightarrow> credits (take_one p) = credits p - 1"
    and credits_give: "credits p < capacity p \<Longrightarrow> credits (give_one p) = credits p + 1"
    and give_full: "capacity p \<le> credits p \<Longrightarrow> credits (give_one p) = credits p"
    and capacity_take: "capacity (take_one p) = capacity p"
    and capacity_give: "capacity (give_one p) = capacity p"
begin

lemma take_bounded: "credits p \<le> capacity p \<Longrightarrow> 0 < credits p \<Longrightarrow> credits (take_one p) < capacity (take_one p)"
  by (simp add: credits_take capacity_take)

lemma give_bounded: "credits p \<le> capacity p \<Longrightarrow> credits (give_one p) \<le> capacity (give_one p)"
  by (cases "credits p < capacity p") (simp_all add: credits_give give_full capacity_give)

lemma take_give:
  assumes "credits p \<le> capacity p" "0 < credits p"
  shows "credits (give_one (take_one p)) = credits p"
  using assms take_bounded [OF assms] by (simp add: credits_give credits_take)

end

interpretation link_credits: credit_pool
  "\<lambda>l. unat (fl_available_credits l)" "\<lambda>l. unat (fl_max_credits (fl_config l))"
  "\<lambda>l. snd (acquire_credit l)" release_credit
  by unfold_locales
    (auto simp: acquire_credit_def release_credit_def unat_sub_one unat_add_one word_nat_simps)

lemma credit_step_config [frame_simps]: "fl_config (credit_step l op) = fl_config l"
  by (cases op) (simp_all add: acquire_credit_def release_credit_def)

lemma credit_step_ok: "link_ok l \<Longrightarrow> link_ok (credit_step l op)"
  using link_credits.give_bounded [of l] link_credits.take_bounded [of l]
  by (cases op) (auto simp: link_ok_def word_nat_simps acquire_credit_def release_credit_def)

lemma traversal_ok: "link_ok l \<Longrightarrow> link_ok (snd (calculate_traversal_latency l t n))"
  by (simp add: link_ok_def calculate_traversal_latency_def Let_def)

text \<open>
  Flow control never loses or invents a credit: after any sequence of acquisitions and releases
  the available credits stay between zero and the configured maximum, an acquisition succeeds
  exactly if a credit is available, and a successful acquisition followed by a release restores the
  count.
\<close>

theorem link_credits_bounded:
  fixes l :: FabricLink and ops :: "credit_op list"
  assumes "link_ok l"
  defines "l' \<equiv> foldl credit_step l ops"
  shows "fl_available_credits l' \<le> fl_max_credits (fl_config l)
    \<and> fst (acquire_credit l') = (0 < fl_available_credits l')
    \<and> (fst (acquire_credit l') \<longrightarrow>
         fl_available_credits (release_credit (snd (acquire_credit l'))) = fl_available_credits l')"
proof -
  have "link_ok l' \<and> fl_config l' = fl_config l"
    unfolding l'_def
    by (rule foldl_invariant) (use assms in \<open>auto simp: credit_step_ok frame_simps\<close>)
  then have ok: "link_ok l'" and cfg: "fl_config l' = fl_config l" by auto
  have "fl_available_credits (release_credit (snd (acquire_credit l'))) = fl_available_credits l'"
    if "0 < fl_available_credits l'"
    using link_credits.take_give [of l'] ok that by (simp add: link_ok_def word_nat_simps word_unat_eq_iff)
  with ok cfg show ?thesis
    by (auto simp: link_ok_def acquire_credit_def)
qed

lemma example_link_ok: "link_ok example_link"
  by (simp add: example_link_def new_FabricLink_def link_ok_def)

theorem link_credits_bounded_witness:
  "fl_available_credits (foldl credit_step example_link [Acquire, Acquire, Release])
     \<le> fl_max_credits (fl_config example_link)
   \<and> fl_available_credits (release_credit (snd (acquire_credit
        (foldl credit_step example_link [Acquire, Acquire, Release]))))
     = fl_available_credits (foldl credit_step example_link [Acquire, Acquire, Release])"
proof -
  have "fst (acquire_credit (foldl credit_step example_link [Acquire, Acquire, Release]))"
    by (simp add: example_link_def new_FabricLink_def acquire_credit_def release_credit_def)
  with link_credits_bounded [OF example_link_ok, of "[Acquire, Acquire, Release]"]
  show ?thesis by blast
qed

section \<open>Latency\<close>

lemma link_utilization_range:
  assumes "link_ok l"
  shows "0 \<le> link_utilization l" "link_utilization l \<le> 1"
proof -
  have "0 < double_of_u64 (fl_max_credits (fl_config l))"
    using assms double_of_u64_less_iff [of 0] by (simp add: link_ok_def)
  moreover have "double_of_u64 (fl_available_credits l) \<le> double_of_u64 (fl_max_credits (fl_config l))"
    using assms by (meson double_of_u64_less_iff link_ok_def not_less)
  ultimately show "0 \<le> link_utilization l" "link_utilization l \<le> 1"
    by (simp_all add: link_utilization_def)
qed

lemma congestion_curve_mono: "u \<le> v \<Longrightarrow> congestion_curve u \<le> congestion_curve v"
  by (auto simp: congestion_curve_def)

lemma congestion_delay_curve: "get_congestion_delay l t = congestion_curve (link_utilization l)"
  by (simp add: get_congestion_delay_def congestion_curve_def Let_def)

lemma congestion_delay_range:
  assumes "link_ok l"
  shows "0 \<le> get_congestion_delay l t" "get_congestion_delay l t \<le> 100"
  using link_utilization_range [OF assms]
    congestion_curve_mono [of 0 "link_utilization l"] congestion_curve_mono [of "link_utilization l" 1]
  by (simp_all add: congestion_delay_curve) (simp_all add: congestion_curve_def)

text \<open>
  Link latency is bounded below and above: a traversal takes at least the link latency plus the
  serialisation time of the data and at most 100 ns more, and the extra congestion delay never
  decreases when credits run down.
\<close>

theorem traversal_latency_bounds:
  fixes l l' :: FabricLink and t n :: u64
  assumes "link_ok l" and "fl_config l' = fl_config l"
    and "fl_available_credits l' \<le> fl_available_credits l"
  defines "base \<equiv> fl_latency_ns (fl_config l) + double_of_u64 n / fl_bandwidth_gbps (fl_config l)"
  shows "base \<le> fst (calculate_traversal_latency l t n)
    \<and> fst (calculate_traversal_latency l t n) \<le> base + 100
    \<and> fst (calculate_traversal_latency l t n) \<le> fst (calculate_traversal_latency l' t n)"
proof -
  have f: "fst (calculate_traversal_latency k t n)
      = fl_latency_ns (fl_config k) + double_of_u64 n / fl_bandwidth_gbps (fl_config k)
        + get_congestion_delay k t" for k
    by (simp add: calculate_traversal_latency_def Let_def)
  have "double_of_u64 (fl_available_credits l') \<le> double_of_u64 (fl_available_credits l)"
    using assms(3) by (meson double_of_u64_less_iff not_less)
  then have "link_utilization l \<le> link_utilization l'"
    using assms(2) by (simp add: link_utilization_def divide_right_mono)
  then have "get_congestion_delay l t \<le> get_congestion_delay l' t"
    by (simp add: congestion_delay_curve congestion_curve_mono)
  with congestion_delay_range [OF assms(1), of t] show ?thesis
    by (simp add: f base_def assms(2))
qed

theorem traversal_latency_bounds_witness:
  "fl_latency_ns (fl_config example_link) + double_of_u64 64 / fl_bandwidth_gbps (fl_config example_link)
     \<le> fst (calculate_traversal_latency example_link 5 64)
   \<and> fst (calculate_traversal_latency example_link 5 64)
     \<le> fl_latency_ns (fl_config example_link)
        + double_of_u64 64 / fl_bandwidth_gbps (fl_config example_link) + 100
   \<and> fst (calculate_traversal_latency example_link 5 64)
     \<le> fst (calculate_traversal_latency (snd (acquire_credit example_link)) 5 64)"
  by (rule traversal_latency_bounds [OF example_link_ok])
    (simp_all add: acquire_credit_def example_link_def new_FabricLink_def)

interpretation link_channel: latency_channel "\<lambda>l t _. calculate_traversal_latency l t 64" link_ok
proof
  fix l t and n :: u32
  assume ok: "link_ok l"
  show "0 \<le> fst (calculate_traversal_latency l t 64)"
    using congestion_delay_range(1) [OF ok, of t] ok
    by (simp add: calculate_traversal_latency_def Let_def link_ok_def)
  show "link_ok (snd (calculate_traversal_latency l t 64))"
    using ok by (rule traversal_ok)
qed

end
