(* ===== verification/Coherency_Engine.thy ===== *)
theory Coherency_Engine
  imports Cache_State Fabric_Link
begin

text \<open>
  The unified MOESI coherency engine of \<open>include/coherency_engine.h\<close> and
  \<open>src/coherency_engine.cpp\<close>: a directory of cache lines, read, write and atomic requests, the
  handlers for messages of other nodes, head management and statistics.

  The engine's mutexes make every operation on a line atomic, so each operation is one function from
  state to state.  A directory entry is modified in place by the code; here it is taken out of the
  directory, transformed, and stored back under its line address.  Pointers to the transport and the
  message manager are stored by the engine but never used by it.

  The lemmas show that requests and remote messages keep every entry well-formed, that reads and
  writes implement the abstract permission protocol line by line, that a write invalidates every
  other sharer exactly once, and that all latencies are non-negative.
\<close>

section \<open>Data\<close>

record DirectoryEntry =
  de_cacheline_addr :: u64
  de_state :: MHSLDCacheState
  de_owner_node :: u32
  de_owner_head :: u32
  de_sharer_nodes :: "u32 set"
  de_version :: u32
  de_last_access_time :: u64
  de_has_dirty_data :: bool

record CoherencyRequest =
  cr_addr :: u64
  cr_requesting_node :: u32
  cr_requesting_head :: u32
  cr_is_write :: bool
  cr_timestamp :: u64

record CoherencyResponse =
  rs_latency_ns :: real
  rs_new_state :: MHSLDCacheState
  rs_success :: bool
  rs_data_source_node :: u32

record CoherencyEngine =
  ce_local_node_id :: u32
  ce_logp_model :: "LogPModel option"
  ce_tcp_transport :: "nat option"
  ce_msg_manager :: "nat option"
  ce_bandwidth_gbps :: real
  ce_directory :: "u64 \<rightharpoonup> DirectoryEntry"
  ce_fabric_links :: "u32 \<rightharpoonup> FabricLink option"
  ce_heads :: "MHSLDHeadState list"
  ce_total_coherency_messages :: u64
  ce_total_invalidations :: u64
  ce_total_downgrades :: u64
  ce_total_writebacks :: u64
  ce_total_remote_ops :: u64
  ce_total_latency_ns :: u64
  ce_total_ops :: u64

record CoherencyStats =
  st_coherency_messages :: u64
  st_invalidations :: u64
  st_downgrades :: u64
  st_writebacks :: u64
  st_remote_ops :: u64
  st_avg_coherency_latency :: real

section \<open>Construction and lookup\<close>

definition new_DirectoryEntry :: DirectoryEntry where
  "new_DirectoryEntry =
     \<lparr>de_cacheline_addr = 0, de_state = INVALID, de_owner_node = UINT32_MAX,
      de_owner_head = UINT32_MAX, de_sharer_nodes = {}, de_version = 0, de_last_access_time = 0,
      de_has_dirty_data = False\<rparr>"

definition new_CoherencyEngine :: "u32 \<Rightarrow> LogPModel option \<Rightarrow> u32 \<Rightarrow> real \<Rightarrow> CoherencyEngine" where
  "new_CoherencyEngine local_node logp max_heads bandwidth =
     \<lparr>ce_local_node_id = local_node, ce_logp_model = logp, ce_tcp_transport = None,
      ce_msg_manager = None, ce_bandwidth_gbps = bandwidth, ce_directory = Map.empty,
      ce_fabric_links = Map.empty,
      ce_heads = map (\<lambda>i. new_MHSLDHeadState
                        \<lparr>hs_head_id := of_nat i, hs_active := False, hs_bandwidth_share := 0\<rparr>)
                   [0..<unat max_heads],
      ce_total_coherency_messages = 0, ce_total_invalidations = 0, ce_total_downgrades = 0,
      ce_total_writebacks = 0, ce_total_remote_ops = 0, ce_total_latency_ns = 0,
      ce_total_ops = 0\<rparr>"

definition get_or_create_entry :: "CoherencyEngine \<Rightarrow> u64 \<Rightarrow> DirectoryEntry \<times> CoherencyEngine" where
  "get_or_create_entry e addr =
     (let cl_addr = cl_align addr in
      case ce_directory e cl_addr of
        Some d \<Rightarrow> (d, e)
      | None \<Rightarrow>
          (let d = new_DirectoryEntry\<lparr>de_cacheline_addr := cl_addr\<rparr>
           in (d, e\<lparr>ce_directory := (ce_directory e)(cl_addr \<mapsto> d)\<rparr>)))"

definition store_entry :: "CoherencyEngine \<Rightarrow> u64 \<Rightarrow> DirectoryEntry \<Rightarrow> CoherencyEngine" where
  "store_entry e addr d = e\<lparr>ce_directory := (ce_directory e)(cl_align addr \<mapsto> d)\<rparr>"

section \<open>Latencies\<close>

definition calculate_coherency_msg_latency ::
  "CoherencyEngine \<Rightarrow> u64 \<Rightarrow> u32 \<Rightarrow> real \<times> CoherencyEngine" where
  "calculate_coherency_msg_latency e ts target =
     (let (fabric, e1) =
            (case ce_fabric_links e target of
               Some (Some link) \<Rightarrow>
                 (let (l, link') = calculate_traversal_latency link ts 64
                  in (l, e\<lparr>ce_fabric_links := (ce_fabric_links e)(target \<mapsto> Some link')\<rparr>))
             | _ \<Rightarrow> (0, e));
          (network, e2) =
            (case ce_logp_model e1 of
               Some m \<Rightarrow>
                 if target \<noteq> ce_local_node_id e1
                 then (let (l, m') = message_latency m ts target
                       in (l, e1\<lparr>ce_logp_model := Some m'\<rparr>))
                 else (0, e1)
             | None \<Rightarrow> (0, e1))
      in (fabric + network, e2))"

definition calculate_contention_latency :: "CoherencyEngine \<Rightarrow> u32 \<Rightarrow> u64 \<Rightarrow> real" where
  "calculate_contention_latency e head_id ts =
     (if unat head_id \<ge> length (ce_heads e) \<or> \<not> hs_active (ce_heads e ! unat head_id) then 0
      else
        let contending_heads =
              length (filter (\<lambda>h. hs_active h \<and> hs_total_reads h + hs_total_writes h > 0)
                        (ce_heads e))
        in if contending_heads \<le> 1 then 0
           else
             let share = hs_bandwidth_share (ce_heads e ! unat head_id);
                 fair_share = (if share \<le> 0 then 1 / real contending_heads else share);
                 additional = 100 * (1 / fair_share - 1) * (3 / 10)
             in min additional (100 * 5))"

section \<open>Coherency actions\<close>

fun invalidate_loop ::
  "CoherencyEngine \<Rightarrow> u64 \<Rightarrow> u32 list \<Rightarrow> real \<Rightarrow> real \<Rightarrow> real \<times> CoherencyEngine" where
  "invalidate_loop e ts [] max_latency accumulated_gap = (max_latency, e)"
| "invalidate_loop e ts (sharer # rest) max_latency accumulated_gap =
     (let (l, e1) = calculate_coherency_msg_latency e ts sharer;
          inv_latency = accumulated_gap + l;
          gap = (case ce_logp_model e1 of Some m \<Rightarrow> lp_g (lm_config m) | None \<Rightarrow> 0);
          e2 = e1\<lparr>ce_total_invalidations := ce_total_invalidations e1 + 1,
                  ce_total_coherency_messages := ce_total_coherency_messages e1 + 1\<rparr>
      in invalidate_loop e2 ts rest (max max_latency inv_latency) (accumulated_gap + gap))"

definition invalidate_sharers ::
  "CoherencyEngine \<Rightarrow> DirectoryEntry \<Rightarrow> u32 \<Rightarrow> u64 \<Rightarrow> real \<times> DirectoryEntry \<times> CoherencyEngine" where
  "invalidate_sharers e d except_node ts =
     (let to_invalidate = sorted_list_of_set (de_sharer_nodes d - {except_node});
          (max_latency, e1) = invalidate_loop e ts to_invalidate 0 0
      in (max_latency, d\<lparr>de_sharer_nodes := {}\<rparr>, e1))"

definition downgrade_owner ::
  "CoherencyEngine \<Rightarrow> DirectoryEntry \<Rightarrow> u32 \<Rightarrow> u64 \<Rightarrow> real \<times> DirectoryEntry \<times> CoherencyEngine" where
  "downgrade_owner e d requesting_node ts =
     (if de_owner_node d = UINT32_MAX \<or> de_owner_node d = requesting_node then (0, d, e)
      else
        let (latency, e1) = calculate_coherency_msg_latency e ts (de_owner_node d);
            d1 = (if de_state d = MODIFIED
                  then d\<lparr>de_state := OWNED, de_has_dirty_data := True\<rparr>
                  else if de_state d = EXCLUSIVE
                  then d\<lparr>de_sharer_nodes := insert (de_owner_node d) (de_sharer_nodes d),
                         de_state := SHARED, de_owner_node := UINT32_MAX,
                         de_owner_head := UINT32_MAX\<rparr>
                  else d)
        in (latency, d1,
            e1\<lparr>ce_total_downgrades := ce_total_downgrades e1 + 1,
               ce_total_coherency_messages := ce_total_coherency_messages e1 + 1\<rparr>))"

definition fetch_from_owner ::
  "CoherencyEngine \<Rightarrow> DirectoryEntry \<Rightarrow> u32 \<Rightarrow> u64 \<Rightarrow> real \<times> CoherencyEngine" where
  "fetch_from_owner e d requesting_node ts =
     (if de_owner_node d = UINT32_MAX then (0, e)
      else
        let (latency, e1) = calculate_coherency_msg_latency e ts (de_owner_node d)
        in (latency,
            e1\<lparr>ce_total_coherency_messages := ce_total_coherency_messages e1 + 1\<rparr>))"

definition transition_to_shared ::
  "CoherencyEngine \<Rightarrow> DirectoryEntry \<Rightarrow> u32 \<Rightarrow> u32 \<Rightarrow> u64 \<Rightarrow> real \<times> DirectoryEntry \<times> CoherencyEngine" where
  "transition_to_shared e d node head ts =
     (let d1 = d\<lparr>de_sharer_nodes := insert node (de_sharer_nodes d)\<rparr>
      in (0, if de_state d1 = INVALID
             then d1\<lparr>de_state := SHARED, de_owner_node := node, de_owner_head := head\<rparr> else d1, e))"

definition transition_to_exclusive ::
  "CoherencyEngine \<Rightarrow> DirectoryEntry \<Rightarrow> u32 \<Rightarrow> u32 \<Rightarrow> u64 \<Rightarrow> real \<times> DirectoryEntry \<times> CoherencyEngine" where
  "transition_to_exclusive e d node head ts =
     (let (latency, d1, e1) = invalidate_sharers e d node ts
      in (latency,
          d1\<lparr>de_owner_node := node, de_owner_head := head, de_state := EXCLUSIVE,
             de_sharer_nodes := {}\<rparr>, e1))"

definition transition_to_modified ::
  "CoherencyEngine \<Rightarrow> DirectoryEntry \<Rightarrow> u32 \<Rightarrow> u32 \<Rightarrow> u64 \<Rightarrow> real \<times> DirectoryEntry \<times> CoherencyEngine" where
  "transition_to_modified e d node head ts =
     (let (latency, d1, e1) = transition_to_exclusive e d node head ts
      in (latency, d1\<lparr>de_state := MODIFIED, de_has_dirty_data := True\<rparr>, e1))"

definition send_remote_invalidate ::
  "CoherencyEngine \<Rightarrow> u32 \<Rightarrow> u64 \<Rightarrow> u64 \<Rightarrow> real \<times> CoherencyEngine" where
  "send_remote_invalidate e target addr ts = calculate_coherency_msg_latency e ts target"

definition send_remote_downgrade ::
  "CoherencyEngine \<Rightarrow> u32 \<Rightarrow> u64 \<Rightarrow> u64 \<Rightarrow> real \<times> CoherencyEngine" where
  "send_remote_downgrade e target addr ts = calculate_coherency_msg_latency e ts target"

section \<open>Requests\<close>

text \<open>
  \<open>read_transition\<close> and \<open>write_transition\<close> are the bodies of \<open>process_read\<close> and \<open>process_write\<close> up
  to the label \<open>done\<close>; \<open>finish_request\<close> is the code after it.  They return the latency, the state
  reported to the requester, the data source, the entry and the engine.
\<close>

definition read_transition ::
  "CoherencyEngine \<Rightarrow> DirectoryEntry \<Rightarrow> CoherencyRequest
     \<Rightarrow> real \<times> MHSLDCacheState \<times> u32 \<times> DirectoryEntry \<times> CoherencyEngine" where
  "read_transition e d req =
     (let n = cr_requesting_node req; ts = cr_timestamp req; src = ce_local_node_id e;
          contention = calculate_contention_latency e (cr_requesting_head req) ts;
          share = (\<lambda>d. d\<lparr>de_sharer_nodes := insert n (de_sharer_nodes d)\<rparr>)
      in
      if de_owner_node d = n
         \<and> (de_state d = EXCLUSIVE \<or> de_state d = MODIFIED \<or> de_state d = OWNED)
      then (contention, de_state d, src, d, e)
      else if n \<in> de_sharer_nodes d then (contention, SHARED, src, d, e)
      else
        case de_state d of
          INVALID \<Rightarrow>
            (0, SHARED, src,
             (share d)\<lparr>de_state := SHARED, de_owner_node := n,
                       de_owner_head := cr_requesting_head req\<rparr>, e)
        | SHARED \<Rightarrow> (0, SHARED, src, share d, e)
        | EXCLUSIVE \<Rightarrow>
            if de_owner_node d = n
            then (contention, SHARED, src, (share d)\<lparr>de_state := SHARED\<rparr>, e)
            else
              let (latency, d1, e1) = downgrade_owner e d n ts
              in (latency, SHARED, de_owner_node d1, (share d1)\<lparr>de_state := SHARED\<rparr>, e1)
        | MODIFIED \<Rightarrow>
            if de_owner_node d = n then (contention, SHARED, src, share d, e)
            else
              let (latency, e1) = fetch_from_owner e d n ts
              in (latency, SHARED, de_owner_node d, share (d\<lparr>de_state := OWNED\<rparr>), e1)
        | OWNED \<Rightarrow>
            if de_owner_node d = n then (contention, SHARED, src, share d, e)
            else
              let (latency, e1) = calculate_coherency_msg_latency e ts (de_owner_node d)
              in (latency, SHARED, de_owner_node d, share d,
                  e1\<lparr>ce_total_coherency_messages := ce_total_coherency_messages e1 + 1\<rparr>))"

definition write_transition ::
  "CoherencyEngine \<Rightarrow> DirectoryEntry \<Rightarrow> CoherencyRequest
     \<Rightarrow> real \<times> MHSLDCacheState \<times> u32 \<times> DirectoryEntry \<times> CoherencyEngine" where
  "write_transition e d req =
     (let n = cr_requesting_node req; ts = cr_timestamp req; src = ce_local_node_id e;
          contention = calculate_contention_latency e (cr_requesting_head req) ts;
          owner = de_owner_node d;
          modified = (\<lambda>d. d\<lparr>de_owner_node := n, de_owner_head := cr_requesting_head req,
                            de_state := MODIFIED, de_sharer_nodes := {},
                            de_has_dirty_data := True\<rparr>)
      in
      if owner = n \<and> (de_state d = EXCLUSIVE \<or> de_state d = MODIFIED)
      then (contention, MODIFIED, src, d\<lparr>de_state := MODIFIED, de_has_dirty_data := True\<rparr>, e)
      else if owner = n \<and> de_state d = OWNED
      then (let (latency, d1, e1) = invalidate_sharers e d n ts
            in (latency, MODIFIED, src, d1\<lparr>de_state := MODIFIED, de_has_dirty_data := True\<rparr>, e1))
      else
        case de_state d of
          INVALID \<Rightarrow> (0, MODIFIED, src, modified d, e)
        | SHARED \<Rightarrow>
            (let (latency, d1, e1) = invalidate_sharers e d n ts
             in (latency, MODIFIED, src, modified d1, e1))
        | EXCLUSIVE \<Rightarrow>
            if owner \<noteq> n
            then (let (latency, e1) = calculate_coherency_msg_latency e ts owner
                  in (latency, MODIFIED, src, modified d,
                      e1\<lparr>ce_total_invalidations := ce_total_invalidations e1 + 1,
                         ce_total_coherency_messages := ce_total_coherency_messages e1 + 1\<rparr>))
            else (0, MODIFIED, src, modified d, e)
        | MODIFIED \<Rightarrow>
            if owner \<noteq> n
            then (let (latency, e1) = calculate_coherency_msg_latency e ts owner
                  in (latency, MODIFIED, owner, modified d,
                      e1\<lparr>ce_total_writebacks := ce_total_writebacks e1 + 1,
                         ce_total_coherency_messages := ce_total_coherency_messages e1 + 1\<rparr>))
            else (0, MODIFIED, src, modified d, e)
        | OWNED \<Rightarrow>
            if owner \<noteq> n
            then (let (owner_lat, e1) = calculate_coherency_msg_latency e ts owner;
                      (sharer_lat, d1, e2) = invalidate_sharers e1 d n ts
                  in (owner_lat + sharer_lat, MODIFIED, owner, modified d1,
                      e2\<lparr>ce_total_writebacks := ce_total_writebacks e2 + 1\<rparr>))
            else (let (latency, d1, e1) = invalidate_sharers e d n ts
                  in (latency, MODIFIED, src, modified d1, e1)))"

definition finish_request :: "CoherencyEngine \<Rightarrow> CoherencyRequest \<Rightarrow> real \<Rightarrow> real \<times> CoherencyEngine" where
  "finish_request e req latency =
     (let e1 = (if cr_requesting_node req \<noteq> ce_local_node_id e
                then e\<lparr>ce_total_remote_ops := ce_total_remote_ops e + 1\<rparr> else e);
          latency' = latency
            + calculate_contention_latency e1 (cr_requesting_head req) (cr_timestamp req)
      in (latency',
          e1\<lparr>ce_total_ops := ce_total_ops e1 + 1,
             ce_total_latency_ns := ce_total_latency_ns e1 + u64_of_double latency'\<rparr>))"

definition process_read :: "CoherencyEngine \<Rightarrow> CoherencyRequest \<Rightarrow> CoherencyResponse \<times> CoherencyEngine" where
  "process_read e req =
     (let (d0, e0) = get_or_create_entry e (cr_addr req);
          d1 = d0\<lparr>de_last_access_time := cr_timestamp req\<rparr>;
          (latency, new_state, data_source, d2, e1) = read_transition e0 d1 req;
          (latency', e2) = finish_request e1 req latency
      in (\<lparr>rs_latency_ns = latency', rs_new_state = new_state, rs_success = True,
           rs_data_source_node = data_source\<rparr>,
          store_entry e2 (cr_addr req) d2))"

definition process_write :: "CoherencyEngine \<Rightarrow> CoherencyRequest \<Rightarrow> CoherencyResponse \<times> CoherencyEngine" where
  "process_write e req =
     (let (d0, e0) = get_or_create_entry e (cr_addr req);
          d1 = d0\<lparr>de_last_access_time := cr_timestamp req, de_version := de_version d0 + 1\<rparr>;
          (latency, new_state, data_source, d2, e1) = write_transition e0 d1 req;
          (latency', e2) = finish_request e1 req latency
      in (\<lparr>rs_latency_ns = latency', rs_new_state = new_state, rs_success = True,
           rs_data_source_node = data_source\<rparr>,
          store_entry e2 (cr_addr req) d2))"

definition process_atomic :: "CoherencyEngine \<Rightarrow> CoherencyRequest \<Rightarrow> CoherencyResponse \<times> CoherencyEngine" where
  "process_atomic e req =
     (let (resp, e1) = process_write e req
      in case ce_logp_model e1 of
           Some m \<Rightarrow>
             (resp\<lparr>rs_latency_ns := rs_latency_ns resp
                     + (lp_o_s (lm_config m) + lp_o_r (lm_config m))\<rparr>, e1)
         | None \<Rightarrow> (resp, e1))"

section \<open>Messages of other nodes\<close>

definition handle_remote_invalidate :: "CoherencyEngine \<Rightarrow> u64 \<Rightarrow> u32 \<Rightarrow> CoherencyEngine" where
  "handle_remote_invalidate e addr from_node =
     (case ce_directory e (cl_align addr) of
        None \<Rightarrow> e
      | Some d \<Rightarrow>
          let n = ce_local_node_id e;
              d1 = d\<lparr>de_sharer_nodes := de_sharer_nodes d - {n}\<rparr>;
              owned = de_owner_node d1 = n;
              wb = owned \<and> de_state d1 = MODIFIED;
              d2 = (if wb then d1\<lparr>de_has_dirty_data := True\<rparr> else d1);
              e1 = (if wb then e\<lparr>ce_total_writebacks := ce_total_writebacks e + 1\<rparr> else e);
              d3 = (if owned
                    then d2\<lparr>de_owner_node := UINT32_MAX, de_owner_head := UINT32_MAX,
                            de_state := INVALID\<rparr>
                    else d2)
          in store_entry (e1\<lparr>ce_total_invalidations := ce_total_invalidations e1 + 1\<rparr>) addr d3)"

definition handle_remote_downgrade :: "CoherencyEngine \<Rightarrow> u64 \<Rightarrow> u32 \<Rightarrow> CoherencyEngine" where
  "handle_remote_downgrade e addr from_node =
     (case ce_directory e (cl_align addr) of
        None \<Rightarrow> e
      | Some d \<Rightarrow>
          let n = ce_local_node_id e;
              d1 = (if de_owner_node d = n
                    then if de_state d = MODIFIED then d\<lparr>de_state := OWNED\<rparr>
                         else if de_state d = EXCLUSIVE
                         then d\<lparr>de_state := SHARED,
                                de_sharer_nodes := insert n (de_sharer_nodes d)\<rparr>
                         else d
                    else d)
          in store_entry (e\<lparr>ce_total_downgrades := ce_total_downgrades e + 1\<rparr>) addr d1)"

definition handle_remote_writeback :: "CoherencyEngine \<Rightarrow> u64 \<Rightarrow> u32 \<Rightarrow> u8 list \<Rightarrow> CoherencyEngine" where
  "handle_remote_writeback e addr from_node data =
     (case ce_directory e (cl_align addr) of
        None \<Rightarrow> e
      | Some d \<Rightarrow>
          let d1 = (if de_owner_node d = from_node
                    then d\<lparr>de_has_dirty_data := False, de_owner_node := UINT32_MAX,
                           de_owner_head := UINT32_MAX, de_state := INVALID,
                           de_sharer_nodes := de_sharer_nodes d - {from_node}\<rparr>
                    else d)
          in store_entry (e\<lparr>ce_total_writebacks := ce_total_writebacks e + 1\<rparr>) addr d1)"

section \<open>Heads, links and statistics\<close>

definition activate_head :: "CoherencyEngine \<Rightarrow> u32 \<Rightarrow> u64 \<Rightarrow> CoherencyEngine" where
  "activate_head e head_id capacity =
     (if unat head_id \<ge> length (ce_heads e) then e
      else
        let hs = (ce_heads e)[unat head_id := (ce_heads e ! unat head_id)
                    \<lparr>hs_active := True, hs_allocated_capacity := capacity, hs_used_capacity := 0\<rparr>];
            active_count = length (filter hs_active hs)
        in e\<lparr>ce_heads := map (\<lambda>h. if hs_active h
                               then h\<lparr>hs_bandwidth_share := 1 / real active_count\<rparr> else h) hs\<rparr>)"

definition deactivate_head :: "CoherencyEngine \<Rightarrow> u32 \<Rightarrow> CoherencyEngine" where
  "deactivate_head e head_id =
     (if unat head_id \<ge> length (ce_heads e) then e
      else e\<lparr>ce_heads := (ce_heads e)[unat head_id := (ce_heads e ! unat head_id)
                \<lparr>hs_active := False, hs_bandwidth_share := 0\<rparr>]\<rparr>)"

definition register_fabric_link :: "CoherencyEngine \<Rightarrow> u32 \<Rightarrow> FabricLink option \<Rightarrow> CoherencyEngine" where
  "register_fabric_link e node_id link =
     e\<lparr>ce_fabric_links := (ce_fabric_links e)(node_id \<mapsto> link)\<rparr>"

definition set_tcp_transport :: "CoherencyEngine \<Rightarrow> nat option \<Rightarrow> CoherencyEngine" where
  "set_tcp_transport e tcp = e\<lparr>ce_tcp_transport := tcp\<rparr>"

definition set_msg_manager :: "CoherencyEngine \<Rightarrow> nat option \<Rightarrow> CoherencyEngine" where
  "set_msg_manager e msg = e\<lparr>ce_msg_manager := msg\<rparr>"

definition get_stats :: "CoherencyEngine \<Rightarrow> CoherencyStats" where
  "get_stats e =
     \<lparr>st_coherency_messages = ce_total_coherency_messages e,
      st_invalidations = ce_total_invalidations e, st_downgrades = ce_total_downgrades e,
      st_writebacks = ce_total_writebacks e, st_remote_ops = ce_total_remote_ops e,
      st_avg_coherency_latency =
        (if ce_total_ops e > 0
         then double_of_u64 (ce_total_latency_ns e) / double_of_u64 (ce_total_ops e) else 0)\<rparr>"

section \<open>Specification\<close>

text \<open>
  The calls the engine answers, and the engines a sequence of calls can reach.  The value
  \<open>UINT32_MAX\<close> marks an entry without owner, so it is no node's number.
\<close>

datatype engine_op =
    Process_read CoherencyRequest
  | Process_write CoherencyRequest
  | Process_atomic CoherencyRequest
  | Remote_invalidate u64 u32
  | Remote_downgrade u64 u32
  | Remote_writeback u64 u32 "u8 list"
  | Activate_head u32 u64
  | Deactivate_head u32
  | Register_fabric_link u32 "FabricLink option"
  | Set_tcp_transport "nat option"
  | Set_msg_manager "nat option"

fun engine_step :: "CoherencyEngine \<Rightarrow> engine_op \<Rightarrow> CoherencyEngine" where
  "engine_step e (Process_read req) = snd (process_read e req)"
| "engine_step e (Process_write req) = snd (process_write e req)"
| "engine_step e (Process_atomic req) = snd (process_atomic e req)"
| "engine_step e (Remote_invalidate addr from_node) = handle_remote_invalidate e addr from_node"
| "engine_step e (Remote_downgrade addr from_node) = handle_remote_downgrade e addr from_node"
| "engine_step e (Remote_writeback addr from_node data) =
     handle_remote_writeback e addr from_node data"
| "engine_step e (Activate_head head capacity) = activate_head e head capacity"
| "engine_step e (Deactivate_head head) = deactivate_head e head"
| "engine_step e (Register_fabric_link node link) = register_fabric_link e node link"
| "engine_step e (Set_tcp_transport tcp) = set_tcp_transport e tcp"
| "engine_step e (Set_msg_manager msg) = set_msg_manager e msg"

fun engine_op_ok :: "engine_op \<Rightarrow> bool" where
  "engine_op_ok (Process_read req) \<longleftrightarrow> cr_requesting_node req \<noteq> UINT32_MAX"
| "engine_op_ok (Process_write req) \<longleftrightarrow> cr_requesting_node req \<noteq> UINT32_MAX"
| "engine_op_ok (Process_atomic req) \<longleftrightarrow> cr_requesting_node req \<noteq> UINT32_MAX"
| "engine_op_ok (Register_fabric_link node link) \<longleftrightarrow> pred_option link_ok link"
| "engine_op_ok _ \<longleftrightarrow> True"

inductive engine_reachable :: "CoherencyEngine \<Rightarrow> bool" where
  engine_start:
    "local_node \<noteq> UINT32_MAX \<Longrightarrow> pred_option logp_ok logp \<Longrightarrow>
     engine_reachable (new_CoherencyEngine local_node logp max_heads bandwidth)"
| engine_call:
    "engine_reachable e \<Longrightarrow> engine_op_ok op \<Longrightarrow> engine_reachable (engine_step e op)"

definition entry_ok :: "DirectoryEntry \<Rightarrow> bool" where
  "entry_ok d \<longleftrightarrow>
     moesi_entry_ok (de_state d) (de_owner_node d) (de_sharer_nodes d) (de_has_dirty_data d)
     \<and> de_state d \<noteq> EXCLUSIVE"

definition network_ok :: "CoherencyEngine \<Rightarrow> bool" where
  "network_ok e \<longleftrightarrow>
     pred_option logp_ok (ce_logp_model e)
     \<and> (\<forall>n link. ce_fabric_links e n = Some (Some link) \<longrightarrow> link_ok link)"

definition idle_heads :: "CoherencyEngine \<Rightarrow> bool" where
  "idle_heads e \<longleftrightarrow> (\<forall>h \<in> set (ce_heads e). hs_total_reads h = 0 \<and> hs_total_writes h = 0)"

definition engine_inv :: "CoherencyEngine \<Rightarrow> bool" where
  "engine_inv e \<longleftrightarrow>
     ce_local_node_id e \<noteq> UINT32_MAX
     \<and> (\<forall>l d. ce_directory e l = Some d \<longrightarrow> entry_ok d \<and> cl_align l = l \<and> de_cacheline_addr d = l)
     \<and> network_ok e \<and> idle_heads e"

text \<open>What coherency actions keep of an engine: they touch the network models and the counters only.\<close>

definition engine_frame :: "CoherencyEngine \<Rightarrow> CoherencyEngine \<Rightarrow> bool" where
  "engine_frame e e' \<longleftrightarrow>
     ce_local_node_id e' = ce_local_node_id e \<and> ce_directory e' = ce_directory e
     \<and> ce_heads e' = ce_heads e
     \<and> map_option lm_config (ce_logp_model e') = map_option lm_config (ce_logp_model e)
     \<and> (network_ok e \<longrightarrow> network_ok e')"

text \<open>The access permissions of a line, and the nodes that hold one.\<close>

definition entry_at :: "CoherencyEngine \<Rightarrow> u64 \<Rightarrow> DirectoryEntry" where
  "entry_at e l = (case ce_directory e l of Some d \<Rightarrow> d
                   | None \<Rightarrow> new_DirectoryEntry\<lparr>de_cacheline_addr := l\<rparr>)"

definition entry_perm :: "DirectoryEntry \<Rightarrow> permissions" where
  "entry_perm d = moesi_permissions (de_state d) (de_owner_node d) (de_sharer_nodes d)"

definition line_perm :: "CoherencyEngine \<Rightarrow> u64 \<Rightarrow> permissions" where
  "line_perm e l = entry_perm (entry_at e l)"

definition holders :: "DirectoryEntry \<Rightarrow> u32 set" where
  "holders d = {m. entry_perm d m \<noteq> NoAccess}"

definition engine_access :: "CoherencyEngine \<Rightarrow> CoherencyRequest \<Rightarrow> CoherencyEngine" where
  "engine_access e req = snd ((if cr_is_write req then process_write else process_read) e req)"

definition example_request :: "u64 \<Rightarrow> u32 \<Rightarrow> bool \<Rightarrow> CoherencyRequest" where
  "example_request addr n w =
     \<lparr>cr_addr = addr, cr_requesting_node = n, cr_requesting_head = 0, cr_is_write = w,
      cr_timestamp = 1000\<rparr>"

definition example_engine :: CoherencyEngine where
  "example_engine = new_CoherencyEngine 0 (Some example_logp) 2 25"

section \<open>Frame properties\<close>

lemma get_or_create_fst: "fst (get_or_create_entry e addr) = entry_at e (cl_align addr)"
  by (simp add: get_or_create_entry_def entry_at_def Let_def split: option.splits)

lemma get_or_create_snd:
  "snd (get_or_create_entry e addr) = store_entry e addr (entry_at e (cl_align addr))"
  by (auto simp: get_or_create_entry_def entry_at_def store_entry_def Let_def fun_upd_idem
      split: option.splits)

lemma store_entry_frame [frame_simps]:
  "ce_local_node_id (store_entry e addr d) = ce_local_node_id e"
  "ce_heads (store_entry e addr d) = ce_heads e"
  "ce_logp_model (store_entry e addr d) = ce_logp_model e"
  "ce_fabric_links (store_entry e addr d) = ce_fabric_links e"
  "ce_total_invalidations (store_entry e addr d) = ce_total_invalidations e"
  "ce_total_coherency_messages (store_entry e addr d) = ce_total_coherency_messages e"
  "ce_total_writebacks (store_entry e addr d) = ce_total_writebacks e"
  "ce_directory (store_entry e addr d) = (ce_directory e)(cl_align addr \<mapsto> d)"
  by (simp_all add: store_entry_def)

text \<open>Two engines differ at most in the state of the network models and in the counters.\<close>

lemma msg_latency_frame:
  obtains m f where "snd (calculate_coherency_msg_latency e ts t) =
      e\<lparr>ce_logp_model := m, ce_fabric_links := f\<rparr>"
    "map_option lm_config m = map_option lm_config (ce_logp_model e)"
proof -
  let ?r = "snd (calculate_coherency_msg_latency e ts t)"
  have "?r = e\<lparr>ce_logp_model := ce_logp_model ?r, ce_fabric_links := ce_fabric_links ?r\<rparr>
      \<and> map_option lm_config (ce_logp_model ?r) = map_option lm_config (ce_logp_model e)"
    by (auto simp: calculate_coherency_msg_latency_def Let_def split_beta frame_simps
        split: option.splits)
  then show thesis using that by blast
qed

lemma msg_latency_fields [frame_simps]:
  "ce_local_node_id (snd (calculate_coherency_msg_latency e ts t)) = ce_local_node_id e"
  "ce_directory (snd (calculate_coherency_msg_latency e ts t)) = ce_directory e"
  "ce_heads (snd (calculate_coherency_msg_latency e ts t)) = ce_heads e"
  "ce_total_invalidations (snd (calculate_coherency_msg_latency e ts t)) = ce_total_invalidations e"
  "ce_total_coherency_messages (snd (calculate_coherency_msg_latency e ts t)) =
     ce_total_coherency_messages e"
  "ce_total_writebacks (snd (calculate_coherency_msg_latency e ts t)) = ce_total_writebacks e"
  "map_option lm_config (ce_logp_model (snd (calculate_coherency_msg_latency e ts t))) =
     map_option lm_config (ce_logp_model e)"
  by (rule msg_latency_frame [of e ts t]; simp)+

interpretation engine_channel: latency_channel calculate_coherency_msg_latency network_ok
proof
  fix e t n
  assume ok: "network_ok e"
  have link: "0 \<le> fst (calculate_traversal_latency l t 64)"
    "link_ok (snd (calculate_traversal_latency l t 64))"
    if "ce_fabric_links e n = Some (Some l)" for l
    using that ok link_channel.transmit_nonneg [of l t] link_channel.transmit_ok [of l t]
    by (auto simp: network_ok_def)
  have logp: "0 \<le> fst (message_latency m t n)" "logp_ok (snd (message_latency m t n))"
    if "ce_logp_model e = Some m" for m
    using that ok logp_channel.transmit_nonneg [of m t n] logp_channel.transmit_ok [of m t n]
    by (auto simp: network_ok_def)
  show "0 \<le> fst (calculate_coherency_msg_latency e t n)"
    using link logp
    by (auto simp: calculate_coherency_msg_latency_def Let_def split_beta split: option.splits)
  show "network_ok (snd (calculate_coherency_msg_latency e t n))"
    using link logp ok
    by (auto simp: calculate_coherency_msg_latency_def Let_def split_beta network_ok_def
        split: option.splits)
qed

lemma contention_zero: "idle_heads e \<Longrightarrow> calculate_contention_latency e h ts = 0"
proof -
  assume "idle_heads e"
  then have "filter (\<lambda>h. hs_active h \<and> hs_total_reads h + hs_total_writes h > 0) (ce_heads e) = []"
    by (auto simp: idle_heads_def filter_empty_conv)
  then show ?thesis by (simp add: calculate_contention_latency_def)
qed

lemma network_ok_counters [simp]:
  "network_ok (e\<lparr>ce_total_invalidations := i\<rparr>) = network_ok e"
  "network_ok (e\<lparr>ce_total_coherency_messages := i\<rparr>) = network_ok e"
  "network_ok (e\<lparr>ce_total_writebacks := i\<rparr>) = network_ok e"
  "network_ok (e\<lparr>ce_total_downgrades := i\<rparr>) = network_ok e"
  "network_ok (e\<lparr>ce_total_remote_ops := i\<rparr>) = network_ok e"
  "network_ok (e\<lparr>ce_total_ops := i\<rparr>) = network_ok e"
  "network_ok (e\<lparr>ce_total_latency_ns := i\<rparr>) = network_ok e"
  "network_ok (e\<lparr>ce_directory := dir\<rparr>) = network_ok e"
  "network_ok (e\<lparr>ce_heads := hs\<rparr>) = network_ok e"
  "network_ok (e\<lparr>ce_tcp_transport := tcp\<rparr>) = network_ok e"
  "network_ok (e\<lparr>ce_msg_manager := msg\<rparr>) = network_ok e"
  "network_ok (store_entry e addr d) = network_ok e"
  by (simp_all add: network_ok_def store_entry_def)

lemma engine_frame_refl [simp, intro]: "engine_frame e e"
  by (simp add: engine_frame_def)

lemma engine_frame_trans [trans]: "engine_frame a b \<Longrightarrow> engine_frame b c \<Longrightarrow> engine_frame a c"
  by (simp add: engine_frame_def)

lemma engine_frame_counters [simp]:
  "engine_frame a (e\<lparr>ce_total_invalidations := i\<rparr>) = engine_frame a e"
  "engine_frame a (e\<lparr>ce_total_coherency_messages := i\<rparr>) = engine_frame a e"
  "engine_frame a (e\<lparr>ce_total_writebacks := i\<rparr>) = engine_frame a e"
  "engine_frame a (e\<lparr>ce_total_downgrades := i\<rparr>) = engine_frame a e"
  by (simp_all add: engine_frame_def)

lemma engine_frame_msg [simp]: "engine_frame e (snd (calculate_coherency_msg_latency e ts t))"
  by (simp add: engine_frame_def frame_simps engine_channel.transmit_ok)

lemma engine_frame_loop: "engine_frame e (snd (invalidate_loop e ts ns mx gap))"
proof (induction ns arbitrary: e mx gap)
  case (Cons n ns)
  let ?e1 = "snd (calculate_coherency_msg_latency e ts n)"
  let ?e2 = "?e1\<lparr>ce_total_invalidations := ce_total_invalidations ?e1 + 1,
    ce_total_coherency_messages := ce_total_coherency_messages ?e1 + 1\<rparr>"
  have "engine_frame e ?e2" by simp
  from engine_frame_trans [OF this Cons.IH] show ?case by (simp add: Let_def split_beta)
qed simp

lemma invalidate_loop_counters:
  fixes e ts ns mx gap
  defines "e' \<equiv> snd (invalidate_loop e ts ns mx gap)"
  shows "ce_total_writebacks e' = ce_total_writebacks e"
    "ce_total_invalidations e' = ce_total_invalidations e + of_nat (length ns)"
    "ce_total_coherency_messages e' = ce_total_coherency_messages e + of_nat (length ns)"
  unfolding e'_def
  by (induction ns arbitrary: e mx gap) (simp_all add: Let_def split_beta frame_simps)

lemma invalidate_loop_ge: "mx \<le> fst (invalidate_loop e ts ns mx gap)"
proof (induction ns arbitrary: e mx gap)
  case (Cons n ns)
  show ?case
    using order_trans [OF max.cobounded1 Cons.IH] by (simp add: Let_def split_beta)
qed simp

lemma invalidate_sharers_split:
  obtains lat e' where "invalidate_sharers e d n ts = (lat, d\<lparr>de_sharer_nodes := {}\<rparr>, e')"
    "engine_frame e e'" "0 \<le> lat" "ce_total_writebacks e' = ce_total_writebacks e"
    "ce_total_invalidations e' = ce_total_invalidations e + of_nat (card (de_sharer_nodes d - {n}))"
    "ce_total_coherency_messages e' =
       ce_total_coherency_messages e + of_nat (card (de_sharer_nodes d - {n}))"
proof -
  let ?ns = "sorted_list_of_set (de_sharer_nodes d - {n})"
  let ?r = "invalidate_loop e ts ?ns 0 0"
  show thesis
    by (rule that [of "fst ?r" "snd ?r"])
      (simp_all add: invalidate_sharers_def Let_def split_beta engine_frame_loop invalidate_loop_ge
        invalidate_loop_counters)
qed

lemma msg_latency_split:
  obtains lat e' where "calculate_coherency_msg_latency e ts t = (lat, e')" "engine_frame e e'"
    "network_ok e \<Longrightarrow> 0 \<le> lat" "ce_total_invalidations e' = ce_total_invalidations e"
    "ce_total_coherency_messages e' = ce_total_coherency_messages e"
    "ce_total_writebacks e' = ce_total_writebacks e"
  using that [of "fst (calculate_coherency_msg_latency e ts t)"
      "snd (calculate_coherency_msg_latency e ts t)"] engine_channel.transmit_nonneg [of e ts t]
  by (simp add: frame_simps)

section \<open>Transitions\<close>

lemma read_transition_frame:
  assumes "read_transition e d req = (lat, st, src, d', e')"
  shows "engine_frame e e'" "de_cacheline_addr d' = de_cacheline_addr d"
    "de_version d' = de_version d"
  using assms
  by (auto simp: read_transition_def downgrade_owner_def fetch_from_owner_def Let_def split_beta
      split: if_splits MHSLDCacheState.splits)

lemma read_transition_entry:
  assumes tr: "read_transition e d req = (lat, st, src, d', e')" and ok: "entry_ok d"
    and n: "cr_requesting_node req \<noteq> UINT32_MAX"
  shows "entry_ok d' \<and> entry_perm d' = spec_read (cr_requesting_node req) (entry_perm d)"
proof -
  let ?n = "cr_requesting_node req"
  let ?share = "d\<lparr>de_sharer_nodes := insert ?n (de_sharer_nodes d)\<rparr>"
  consider (hit) "de_owner_node d = ?n
      \<and> (de_state d = EXCLUSIVE \<or> de_state d = MODIFIED \<or> de_state d = OWNED) \<or> ?n \<in> de_sharer_nodes d"
    | (invalid) "?n \<notin> de_sharer_nodes d" "de_state d = INVALID"
    | (shared) "?n \<notin> de_sharer_nodes d" "de_state d = SHARED"
    | (modified) "?n \<notin> de_sharer_nodes d" "de_owner_node d \<noteq> ?n" "de_state d = MODIFIED"
    | (owned) "?n \<notin> de_sharer_nodes d" "de_owner_node d \<noteq> ?n" "de_state d = OWNED"
    using ok by (cases "de_state d") (auto simp: entry_ok_def)
  then show ?thesis
  proof cases
    case hit
    then have "d' = d" using tr by (auto simp: read_transition_def Let_def split: if_splits)
    with hit ok show ?thesis by (simp add: entry_perm_def moesi_read_hit)
  next
    case invalid
    then have "d' = ?share\<lparr>de_state := SHARED, de_owner_node := ?n,
        de_owner_head := cr_requesting_head req\<rparr>"
      using tr by (simp add: read_transition_def Let_def)
    with invalid ok n show ?thesis
      by (simp add: entry_ok_def moesi_entry_ok_def entry_perm_def moesi_read_shared [of _ _ _ _ ?n])
  next
    case shared
    then have "d' = ?share" using tr by (simp add: read_transition_def Let_def)
    with shared ok n show ?thesis
      by (simp add: entry_ok_def moesi_entry_ok_def entry_perm_def
          moesi_read_shared [of _ _ _ _ "de_owner_node d"])
  next
    case modified
    then have "d' = d\<lparr>de_state := OWNED, de_sharer_nodes := insert ?n (de_sharer_nodes d)\<rparr>"
      using tr by (auto simp: read_transition_def Let_def split_beta)
    with modified ok n show ?thesis
      by (simp add: entry_ok_def moesi_entry_ok_def entry_perm_def moesi_read_modified)
  next
    case owned
    then have "d' = ?share" using tr by (simp add: read_transition_def Let_def split_beta)
    with owned ok n show ?thesis
      by (simp add: entry_ok_def moesi_entry_ok_def entry_perm_def moesi_read_owned)
  qed
qed

lemma read_transition_latency:
  assumes "read_transition e d req = (lat, st, src, d', e')" "network_ok e" "idle_heads e"
  shows "0 \<le> lat"
  using assms engine_channel.transmit_nonneg [OF assms(2)]
  by (auto simp: read_transition_def downgrade_owner_def fetch_from_owner_def Let_def split_beta
      contention_zero split: if_splits MHSLDCacheState.splits)

text \<open>
  Every write ends with the requester as the only holder; what differs is who has to be told.
\<close>

lemma holders_eq:
  "holders d = (if de_state d = EXCLUSIVE \<or> de_state d = MODIFIED \<or> de_state d = OWNED
                then insert (de_owner_node d) (de_sharer_nodes d) else de_sharer_nodes d)"
  by (auto simp: holders_def entry_perm_def moesi_permissions_def)

lemma write_transition_spec:
  assumes tr: "write_transition e d req = (lat, st, src, d', e')" and ok: "entry_ok d"
  shows "engine_frame e e' \<and> st = MODIFIED \<and> (network_ok e \<longrightarrow> idle_heads e \<longrightarrow> 0 \<le> lat)
    \<and> (\<exists>h. d' = d\<lparr>de_owner_node := cr_requesting_node req, de_owner_head := h,
             de_state := MODIFIED, de_sharer_nodes := {}, de_has_dirty_data := True\<rparr>)"
proof -
  let ?n = "cr_requesting_node req" and ?ts = "cr_timestamp req"
  obtain l1 e1 where inv: "invalidate_sharers e d ?n ?ts = (l1, d\<lparr>de_sharer_nodes := {}\<rparr>, e1)"
    and inv': "engine_frame e e1" "0 \<le> l1" by (rule invalidate_sharers_split [of e d ?n ?ts])
  obtain l2 e2 where msg: "calculate_coherency_msg_latency e ?ts (de_owner_node d) = (l2, e2)"
    and msg': "engine_frame e e2" "network_ok e \<longrightarrow> 0 \<le> l2"
    using msg_latency_split [of e ?ts "de_owner_node d"] by blast
  obtain l3 e3 where inv2: "invalidate_sharers e2 d ?n ?ts = (l3, d\<lparr>de_sharer_nodes := {}\<rparr>, e3)"
    and inv2': "engine_frame e2 e3" "0 \<le> l3" by (rule invalidate_sharers_split [of e2 d ?n ?ts])
  have fr3: "engine_frame e e3" using msg'(1) inv2'(1) by (rule engine_frame_trans)
  show ?thesis
    by (cases "de_state d"; cases "de_owner_node d = ?n")
      (use tr ok inv' msg' inv2'(2) fr3 in \<open>auto simp: write_transition_def Let_def inv msg inv2
         entry_ok_def moesi_entry_ok_def contention_zero
         intro: exI [of _ "de_owner_head d"] exI [of _ "cr_requesting_head req"]\<close>)
qed

lemma write_transition_entry:
  assumes "write_transition e d req = (lat, st, src, d', e')" "entry_ok d"
    and "cr_requesting_node req \<noteq> UINT32_MAX"
  shows "entry_ok d' \<and> entry_perm d' = spec_write (cr_requesting_node req) (entry_perm d)"
  using write_transition_spec [OF assms(1,2)] assms(3)
  by (auto simp: entry_ok_def moesi_entry_ok_def entry_perm_def moesi_write)

lemma write_transition_messages:
  assumes tr: "write_transition e d req = (lat, st, src, d', e')" and ok: "entry_ok d"
    and inval: "de_state d = INVALID \<longrightarrow> de_sharer_nodes d = {}"
  shows "ce_total_coherency_messages e' + (if de_state d = OWNED \<and> de_owner_node d \<noteq> cr_requesting_node req
           then 1 else 0)
    = ce_total_coherency_messages e + of_nat (card (holders d - {cr_requesting_node req}))"
proof -
  let ?n = "cr_requesting_node req" and ?ts = "cr_timestamp req"
  obtain l1 e1 where inv: "invalidate_sharers e d ?n ?ts = (l1, d\<lparr>de_sharer_nodes := {}\<rparr>, e1)"
    and inv': "ce_total_coherency_messages e1 =
       ce_total_coherency_messages e + of_nat (card (de_sharer_nodes d - {?n}))"
    by (rule invalidate_sharers_split [of e d ?n ?ts])
  obtain l2 e2 where msg: "calculate_coherency_msg_latency e ?ts (de_owner_node d) = (l2, e2)"
    and msg': "ce_total_coherency_messages e2 = ce_total_coherency_messages e"
    by (rule msg_latency_split [of e ?ts "de_owner_node d"])
  obtain l3 e3 where inv2: "invalidate_sharers e2 d ?n ?ts = (l3, d\<lparr>de_sharer_nodes := {}\<rparr>, e3)"
    and inv2': "ce_total_coherency_messages e3 =
       ce_total_coherency_messages e2 + of_nat (card (de_sharer_nodes d - {?n}))"
    by (rule invalidate_sharers_split [of e2 d ?n ?ts])
  let ?msgs = ce_total_coherency_messages
  consider (mine) "?msgs e' = ?msgs e" "holders d - {?n} = {}"
      "\<not> (de_state d = OWNED \<and> de_owner_node d \<noteq> ?n)"
    | (sharers) "?msgs e' = ?msgs e1" "holders d - {?n} = de_sharer_nodes d - {?n}"
      "\<not> (de_state d = OWNED \<and> de_owner_node d \<noteq> ?n)"
    | (owner) "?msgs e' = ?msgs e2 + 1" "holders d - {?n} = {de_owner_node d}"
      "\<not> (de_state d = OWNED \<and> de_owner_node d \<noteq> ?n)"
    | (both) "?msgs e' = ?msgs e3" "de_state d = OWNED \<and> de_owner_node d \<noteq> ?n"
      "holders d - {?n} = insert (de_owner_node d) (de_sharer_nodes d - {?n})"
      "de_owner_node d \<notin> de_sharer_nodes d - {?n}"
    by (cases "de_state d"; cases "de_owner_node d = ?n")
      (use tr ok inval in \<open>auto simp: write_transition_def Let_def inv msg inv2
         holders_eq entry_ok_def moesi_entry_ok_def insert_Diff_if\<close>)
  then show ?thesis
    by cases (simp_all only: inv' msg' inv2', auto)
qed

section \<open>Requests\<close>

lemma entry_at_ok:
  assumes "engine_inv e" "cl_align l = l"
  shows "entry_ok (entry_at e l)" "de_cacheline_addr (entry_at e l) = l"
  using assms
  by (auto simp: entry_at_def engine_inv_def entry_ok_def moesi_entry_ok_def new_DirectoryEntry_def
      split: option.splits)

lemma entry_at_update [simp]:
  "ce_directory e' = (ce_directory e)(l \<mapsto> d) \<Longrightarrow> entry_at e' k = (if k = l then d else entry_at e k)"
  by (simp add: entry_at_def)

lemma entry_time [simp]:
  "entry_ok (d\<lparr>de_last_access_time := t\<rparr>) = entry_ok d"
  "entry_ok (d\<lparr>de_version := v\<rparr>) = entry_ok d"
  "entry_perm (d\<lparr>de_last_access_time := t\<rparr>) = entry_perm d"
  "entry_perm (d\<lparr>de_version := v\<rparr>) = entry_perm d"
  "holders (d\<lparr>de_last_access_time := t\<rparr>) = holders d"
  "holders (d\<lparr>de_version := v\<rparr>) = holders d"
  by (simp_all add: entry_ok_def entry_perm_def holders_def)

lemma finish_request_frame:
  "ce_directory (snd (finish_request e req lat)) = ce_directory e"
  "ce_local_node_id (snd (finish_request e req lat)) = ce_local_node_id e"
  "ce_heads (snd (finish_request e req lat)) = ce_heads e"
  "ce_logp_model (snd (finish_request e req lat)) = ce_logp_model e"
  "network_ok (snd (finish_request e req lat)) = network_ok e"
  "ce_total_coherency_messages (snd (finish_request e req lat)) = ce_total_coherency_messages e"
  "idle_heads e \<Longrightarrow> fst (finish_request e req lat) = lat"
  by (simp_all add: finish_request_def Let_def contention_zero idle_heads_def)

text \<open>
  A request takes the entry of its line (a fresh one for a line not seen before), runs the
  transition on it, and stores the result under the line's address.
\<close>

lemma process_read_split:
  fixes e req
  defines "l \<equiv> cl_align (cr_addr req)" and "e' \<equiv> snd (process_read e req)"
  obtains lat st src d e1 where
    "read_transition (store_entry e l (entry_at e l))
       ((entry_at e l)\<lparr>de_last_access_time := cr_timestamp req\<rparr>) req = (lat, st, src, d, e1)"
    "ce_directory e' = (ce_directory e)(l \<mapsto> d)" "ce_local_node_id e' = ce_local_node_id e"
    "ce_heads e' = ce_heads e" "network_ok e \<Longrightarrow> network_ok e'"
    "idle_heads e \<Longrightarrow> rs_latency_ns (fst (process_read e req)) = lat"
    "rs_new_state (fst (process_read e req)) = st"
    "rs_data_source_node (fst (process_read e req)) = src"
proof -
  let ?e0 = "store_entry e l (entry_at e l)"
  let ?d0 = "(entry_at e l)\<lparr>de_last_access_time := cr_timestamp req\<rparr>"
  obtain lat st src d e1 where tr: "read_transition ?e0 ?d0 req = (lat, st, src, d, e1)"
    by (metis prod_cases5)
  have goc: "get_or_create_entry e (cr_addr req) = (entry_at e l, ?e0)"
    using get_or_create_fst [of e "cr_addr req"] get_or_create_snd [of e "cr_addr req"]
    by (simp add: l_def prod_eq_iff store_entry_def)
  have pr: "process_read e req =
      (\<lparr>rs_latency_ns = fst (finish_request e1 req lat), rs_new_state = st, rs_success = True,
        rs_data_source_node = src\<rparr>, store_entry (snd (finish_request e1 req lat)) (cr_addr req) d)"
    by (simp add: process_read_def goc tr Let_def split_beta)
  have fr: "engine_frame ?e0 e1" using read_transition_frame(1) [OF tr] .
  show thesis
  proof (rule that [OF tr])
    show "ce_directory e' = (ce_directory e)(l \<mapsto> d)" "ce_local_node_id e' = ce_local_node_id e"
      "ce_heads e' = ce_heads e" "network_ok e \<Longrightarrow> network_ok e'"
      using fr by (simp_all add: e'_def pr engine_frame_def frame_simps finish_request_frame)
        (simp_all add: l_def)
    show "idle_heads e \<Longrightarrow> rs_latency_ns (fst (process_read e req)) = lat"
      using fr by (simp add: pr finish_request_frame engine_frame_def idle_heads_def frame_simps)
  qed (simp_all add: pr)
qed

lemma process_write_split:
  fixes e req
  defines "l \<equiv> cl_align (cr_addr req)" and "e' \<equiv> snd (process_write e req)"
  assumes inv: "engine_inv e"
  obtains lat src d e1 where
    "write_transition (store_entry e l (entry_at e l))
       ((entry_at e l)\<lparr>de_last_access_time := cr_timestamp req,
          de_version := de_version (entry_at e l) + 1\<rparr>) req = (lat, MODIFIED, src, d, e1)"
    "ce_directory e' = (ce_directory e)(l \<mapsto> d)" "ce_local_node_id e' = ce_local_node_id e"
    "ce_heads e' = ce_heads e" "network_ok e'"
    "rs_latency_ns (fst (process_write e req)) = lat"
    "rs_new_state (fst (process_write e req)) = MODIFIED"
    "ce_total_coherency_messages e' = ce_total_coherency_messages e1"
    "map_option lm_config (ce_logp_model e') = map_option lm_config (ce_logp_model e)"
proof -
  let ?e0 = "store_entry e l (entry_at e l)"
  let ?d0 = "(entry_at e l)\<lparr>de_last_access_time := cr_timestamp req,
    de_version := de_version (entry_at e l) + 1\<rparr>"
  obtain lat st src d e1 where tr: "write_transition ?e0 ?d0 req = (lat, st, src, d, e1)"
    by (metis prod_cases5)
  have goc: "get_or_create_entry e (cr_addr req) = (entry_at e l, ?e0)"
    using get_or_create_fst [of e "cr_addr req"] get_or_create_snd [of e "cr_addr req"]
    by (simp add: l_def prod_eq_iff store_entry_def)
  have pr: "process_write e req =
      (\<lparr>rs_latency_ns = fst (finish_request e1 req lat), rs_new_state = st, rs_success = True,
        rs_data_source_node = src\<rparr>, store_entry (snd (finish_request e1 req lat)) (cr_addr req) d)"
    by (simp add: process_write_def goc tr Let_def split_beta)
  have "entry_ok ?d0" using entry_at_ok(1) [OF inv, of l] by (simp add: l_def)
  then have fr: "engine_frame ?e0 e1" and st: "st = MODIFIED"
    using write_transition_spec [OF tr] by simp_all
  have idle: "idle_heads e1" and net: "network_ok e1"
    using fr inv by (simp_all add: engine_frame_def idle_heads_def frame_simps engine_inv_def)
  show thesis
  proof (rule that [OF tr [unfolded st]])
    show "ce_directory e' = (ce_directory e)(l \<mapsto> d)" "ce_local_node_id e' = ce_local_node_id e"
      "ce_heads e' = ce_heads e" "network_ok e'"
      "map_option lm_config (ce_logp_model e') = map_option lm_config (ce_logp_model e)"
      using fr net by (simp_all add: e'_def pr engine_frame_def frame_simps finish_request_frame)
        (simp add: l_def)
  qed (simp_all add: pr st idle finish_request_frame e'_def frame_simps)
qed

lemma engine_inv_store:
  assumes "engine_inv e" "entry_ok d" "de_cacheline_addr d = l" "cl_align l = l"
    and "ce_directory e' = (ce_directory e)(l \<mapsto> d)" "ce_local_node_id e' = ce_local_node_id e"
    and "network_ok e'" "ce_heads e' = ce_heads e"
  shows "engine_inv e'"
  using assms by (auto simp: engine_inv_def idle_heads_def split: if_splits)

lemma process_read_inv:
  assumes inv: "engine_inv e" and n: "cr_requesting_node req \<noteq> UINT32_MAX"
  shows "engine_inv (snd (process_read e req))"
    and "line_perm (snd (process_read e req)) k =
      (if k = cl_align (cr_addr req) then spec_read (cr_requesting_node req) (line_perm e k)
       else line_perm e k)"
    and "0 \<le> rs_latency_ns (fst (process_read e req))"
    and "de_version (entry_at (snd (process_read e req)) k) = de_version (entry_at e k)"
proof -
  let ?l = "cl_align (cr_addr req)"
  have l: "cl_align ?l = ?l" and net: "network_ok e" and idle: "idle_heads e"
    using inv by (simp_all add: engine_inv_def)
  let ?e0 = "store_entry e ?l (entry_at e ?l)"
  have ok: "entry_ok ((entry_at e ?l)\<lparr>de_last_access_time := cr_timestamp req\<rparr>)"
    using entry_at_ok(1) [OF inv l] by simp
  have net0: "network_ok ?e0" "idle_heads ?e0"
    using net idle by (simp_all add: idle_heads_def frame_simps)
  show "engine_inv (snd (process_read e req))"
    and "line_perm (snd (process_read e req)) k =
      (if k = ?l then spec_read (cr_requesting_node req) (line_perm e k) else line_perm e k)"
    and "0 \<le> rs_latency_ns (fst (process_read e req))"
    and "de_version (entry_at (snd (process_read e req)) k) = de_version (entry_at e k)"
    by (rule process_read_split [of e req];
        use read_transition_entry [OF _ ok n] read_transition_frame read_transition_latency [OF _ net0]
          entry_at_ok(2) [OF inv l] inv l net idle
        in \<open>fastforce intro: engine_inv_store simp: line_perm_def\<close>)+
qed

lemma process_write_inv:
  assumes inv: "engine_inv e" and n: "cr_requesting_node req \<noteq> UINT32_MAX"
  shows "engine_inv (snd (process_write e req))"
    and "line_perm (snd (process_write e req)) k =
      (if k = cl_align (cr_addr req) then spec_write (cr_requesting_node req) (line_perm e k)
       else line_perm e k)"
    and "0 \<le> rs_latency_ns (fst (process_write e req))"
    and "de_version (entry_at (snd (process_write e req)) k) =
      de_version (entry_at e k) + (if k = cl_align (cr_addr req) then 1 else 0)"
proof -
  let ?l = "cl_align (cr_addr req)"
  let ?d = "(entry_at e ?l)\<lparr>de_last_access_time := cr_timestamp req,
    de_version := de_version (entry_at e ?l) + 1\<rparr>"
  have l: "cl_align ?l = ?l" by simp
  have ok: "entry_ok ?d" using entry_at_ok(1) [OF inv l] by simp
  have "network_ok (store_entry e ?l (entry_at e ?l))" "idle_heads (store_entry e ?l (entry_at e ?l))"
    using inv by (simp_all add: engine_inv_def idle_heads_def frame_simps)
  then have tr: "entry_ok d \<and> de_version d = de_version (entry_at e ?l) + 1
      \<and> de_cacheline_addr d = ?l \<and> 0 \<le> lat
      \<and> entry_perm d = spec_write (cr_requesting_node req) (entry_perm (entry_at e ?l))"
    if "write_transition (store_entry e ?l (entry_at e ?l)) ?d req = (lat, MODIFIED, src, d, e1)"
    for lat src d e1
    using write_transition_spec [OF that ok] write_transition_entry [OF that ok n]
      entry_at_ok(2) [OF inv l] by auto
  show "engine_inv (snd (process_write e req))"
    and "line_perm (snd (process_write e req)) k =
      (if k = ?l then spec_write (cr_requesting_node req) (line_perm e k) else line_perm e k)"
    and "0 \<le> rs_latency_ns (fst (process_write e req))"
    and "de_version (entry_at (snd (process_write e req)) k) =
      de_version (entry_at e k) + (if k = ?l then 1 else 0)"
    by (rule process_write_split [OF inv, of req];
        use tr inv l in \<open>fastforce intro: engine_inv_store simp: line_perm_def\<close>)+
qed

lemma process_atomic_state: "snd (process_atomic e req) = snd (process_write e req)"
  by (simp add: process_atomic_def split_beta split: option.splits)

section \<open>Messages of other nodes\<close>

lemma engine_inv_counters [simp]:
  "engine_inv (e\<lparr>ce_total_invalidations := i\<rparr>) = engine_inv e"
  "engine_inv (e\<lparr>ce_total_downgrades := i\<rparr>) = engine_inv e"
  "engine_inv (e\<lparr>ce_total_writebacks := i\<rparr>) = engine_inv e"
  by (simp_all add: engine_inv_def idle_heads_def)

lemma engine_inv_store_entry:
  "engine_inv e \<Longrightarrow> entry_ok d \<Longrightarrow> de_cacheline_addr d = cl_align addr \<Longrightarrow>
     engine_inv (store_entry e addr d)"
  by (auto simp: engine_inv_def idle_heads_def frame_simps split: if_splits)

lemma remote_handlers_inv:
  assumes inv: "engine_inv e"
  shows "engine_inv (handle_remote_invalidate e addr from)"
    and "engine_inv (handle_remote_downgrade e addr from)"
    and "engine_inv (handle_remote_writeback e addr from data)"
proof -
  have d: "entry_ok d" "de_cacheline_addr d = cl_align addr"
    if "ce_directory e (cl_align addr) = Some d" for d
    using inv that by (auto simp: engine_inv_def)
  have "ce_local_node_id e \<noteq> UINT32_MAX" using inv by (simp add: engine_inv_def)
  with inv d show "engine_inv (handle_remote_invalidate e addr from)"
    and "engine_inv (handle_remote_downgrade e addr from)"
    and "engine_inv (handle_remote_writeback e addr from data)"
    unfolding handle_remote_invalidate_def handle_remote_downgrade_def handle_remote_writeback_def
    by (auto simp: Let_def entry_ok_def moesi_entry_ok_def split: option.splits
        intro!: engine_inv_store_entry)
qed

lemma idle_heads_activate: "idle_heads e \<Longrightarrow> idle_heads (activate_head e head capacity)"
  by (auto simp: idle_heads_def activate_head_def Let_def dest!: set_update_subset_insert [THEN subsetD])

lemma idle_heads_deactivate: "idle_heads e \<Longrightarrow> idle_heads (deactivate_head e head)"
  by (auto simp: idle_heads_def deactivate_head_def dest!: set_update_subset_insert [THEN subsetD])

lemma engine_inv_transports [simp]:
  "engine_inv (set_tcp_transport e tcp) = engine_inv e"
  "engine_inv (set_msg_manager e msg) = engine_inv e"
  by (simp_all add: engine_inv_def set_tcp_transport_def set_msg_manager_def idle_heads_def)

lemma engine_inv_step: "engine_inv e \<Longrightarrow> engine_op_ok op \<Longrightarrow> engine_inv (engine_step e op)"
proof (cases op)
  case (Activate_head head capacity)
  assume "engine_inv e"
  then show ?thesis
    using idle_heads_activate [of e head capacity] Activate_head
    by (simp add: engine_inv_def) (simp add: activate_head_def Let_def)
next
  case (Deactivate_head head)
  assume "engine_inv e"
  then show ?thesis
    using idle_heads_deactivate [of e head] Deactivate_head
    by (simp add: engine_inv_def) (simp add: deactivate_head_def)
next
  case (Register_fabric_link node link)
  assume "engine_inv e" "engine_op_ok op"
  then show ?thesis using Register_fabric_link
    by (auto simp: engine_inv_def register_fabric_link_def idle_heads_def network_ok_def
        split: if_splits)
qed (simp_all add: process_read_inv process_write_inv process_atomic_state remote_handlers_inv)

lemma engine_inv_new:
  "local_node \<noteq> UINT32_MAX \<Longrightarrow> pred_option logp_ok logp \<Longrightarrow>
     engine_inv (new_CoherencyEngine local_node logp max_heads bandwidth)"
  by (auto simp: engine_inv_def new_CoherencyEngine_def network_ok_def idle_heads_def
      new_MHSLDHeadState_def)

lemma engine_reachable_inv: "engine_reachable e \<Longrightarrow> engine_inv e"
  by (induction rule: engine_reachable.induct) (simp_all add: engine_inv_new engine_inv_step)

lemma engine_perm_single: "engine_inv e \<Longrightarrow> single_writer (line_perm e l)"
proof -
  assume "engine_inv e"
  then have "entry_ok (entry_at e l)"
    by (auto simp: entry_at_def engine_inv_def entry_ok_def moesi_entry_ok_def
        new_DirectoryEntry_def split: option.splits)
  then show ?thesis
    unfolding line_perm_def entry_perm_def entry_ok_def using single_writer_moesi by blast
qed

interpretation engine_memory: coherent_memory line_perm engine_access
  "\<lambda>req. cl_align (cr_addr req)" cr_requesting_node cr_is_write engine_inv
  "\<lambda>e req. cr_requesting_node req \<noteq> UINT32_MAX"
proof
  fix e :: CoherencyEngine and req :: CoherencyRequest and l
  assume "engine_inv e" "cr_requesting_node req \<noteq> UINT32_MAX"
  note * = process_read_inv [OF this] process_write_inv [OF this]
  show "engine_inv (engine_access e req)" using * by (simp add: engine_access_def)
  show "line_perm (engine_access e req) l =
     (if l = cl_align (cr_addr req)
      then if cr_is_write req then spec_write (cr_requesting_node req) (line_perm e l)
           else spec_read (cr_requesting_node req) (line_perm e l)
      else line_perm e l)"
    using * by (simp add: engine_access_def)
qed (simp_all add: engine_perm_single)

lemma msg_latency_ge_p2p:
  assumes net: "network_ok e" and m: "ce_logp_model e = Some m" and t: "t \<noteq> ce_local_node_id e"
  shows "p2p_latency m \<le> fst (calculate_coherency_msg_latency e ts t)"
proof -
  have ok: "logp_ok m" using net m by (simp add: network_ok_def)
  have "p2p_latency m \<le> fst (message_latency m ts t)"
    using gap_wait_nonneg [of m ts t] queue_wait_nonneg [OF logp_ok_send [OF ok], of ts t t]
    by (simp add: fst_message_latency)
  moreover have "0 \<le> fst (calculate_traversal_latency k ts 64)"
    if "ce_fabric_links e t = Some (Some k)" for k
    using that net link_channel.transmit_nonneg [of k ts] by (auto simp: network_ok_def)
  ultimately show ?thesis using m t
    by (fastforce simp: calculate_coherency_msg_latency_def Let_def split_beta split: option.splits)
qed

lemma invalidate_loop_lower:
  assumes "network_ok e" "map_option lm_config (ce_logp_model e) = Some c"
    and "\<forall>n \<in> set ns. n \<noteq> ce_local_node_id e" and "ns \<noteq> []"
  shows "gap + real (length ns - 1) * lp_g c + (lp_L c + lp_o_s c + lp_o_r c)
    \<le> fst (invalidate_loop e ts ns mx gap)"
  using assms
proof (induction ns arbitrary: e mx gap)
  case (Cons n ns)
  obtain m where m: "ce_logp_model e = Some m" "lm_config m = c" using Cons.prems(2) by auto
  obtain l e1 where msg: "calculate_coherency_msg_latency e ts n = (l, e1)" by fastforce
  have fr: "engine_frame e e1" using engine_frame_msg [of e ts n] msg by simp
  obtain m1 where m1: "ce_logp_model e1 = Some m1" "lm_config m1 = c"
    using fr m by (auto simp: engine_frame_def)
  have p2p: "lp_L c + lp_o_s c + lp_o_r c \<le> l"
    using msg_latency_ge_p2p [OF Cons.prems(1) m(1), of n ts] Cons.prems(3) msg m(2)
    by (simp add: p2p_latency_def)
  let ?e2 = "e1\<lparr>ce_total_invalidations := ce_total_invalidations e1 + 1,
    ce_total_coherency_messages := ce_total_coherency_messages e1 + 1\<rparr>"
  have step: "invalidate_loop e ts (n # ns) mx gap =
      invalidate_loop ?e2 ts ns (max mx (gap + l)) (gap + lp_g c)"
    by (simp add: msg m1 Let_def)
  show ?case
  proof (cases "ns = []")
    case True
    then show ?thesis using p2p unfolding step by simp
  next
    case False
    have "gap + lp_g c + real (length ns - 1) * lp_g c + (lp_L c + lp_o_s c + lp_o_r c)
        \<le> fst (invalidate_loop ?e2 ts ns (max mx (gap + l)) (gap + lp_g c))"
      by (rule Cons.IH) (use Cons.prems(1,3) fr m1 False in \<open>auto simp: engine_frame_def\<close>)
    moreover obtain k where "length ns = Suc k" using False by (cases ns) auto
    ultimately show ?thesis unfolding step by (simp add: ring_distribs)
  qed
qed simp

lemma engine_access_version:
  "engine_inv e \<Longrightarrow> cr_requesting_node r \<noteq> UINT32_MAX \<Longrightarrow>
     de_version (entry_at (engine_access e r) l) = de_version (entry_at e l)
       + (if cr_is_write r \<and> cl_align (cr_addr r) = l then 1 else 0)"
  by (simp add: engine_access_def process_read_inv(4) process_write_inv(4))

text \<open>The entries the handlers store; a message about an unknown line is ignored.\<close>

lemma line_perm_unknown: "ce_directory e l = None \<Longrightarrow> line_perm e l n = NoAccess"
  by (simp add: line_perm_def entry_at_def entry_perm_def moesi_permissions_def
      new_DirectoryEntry_def)

lemma line_perm_known:
  "ce_directory e l = Some d \<Longrightarrow>
     line_perm e l = moesi_permissions (de_state d) (de_owner_node d) (de_sharer_nodes d)"
  by (simp add: line_perm_def entry_at_def entry_perm_def)

lemma line_perm_store:
  "line_perm (store_entry e addr d) l =
     (if l = cl_align addr then moesi_permissions (de_state d) (de_owner_node d) (de_sharer_nodes d)
      else line_perm e l)"
  by (simp add: line_perm_def entry_at_def entry_perm_def frame_simps)

lemma line_perm_counters [simp]:
  "line_perm (e\<lparr>ce_total_invalidations := i\<rparr>) = line_perm e"
  "line_perm (e\<lparr>ce_total_downgrades := i\<rparr>) = line_perm e"
  "line_perm (e\<lparr>ce_total_writebacks := i\<rparr>) = line_perm e"
  by (simp_all add: line_perm_def entry_at_def fun_eq_iff)

lemma remote_invalidate_perm:
  "line_perm (handle_remote_invalidate e addr from) l n =
     (if l = cl_align addr \<and> n = ce_local_node_id e then NoAccess else line_perm e l n)"
proof (cases "ce_directory e (cl_align addr)")
  case (Some d)
  then show ?thesis
    by (simp add: handle_remote_invalidate_def Let_def line_perm_store line_perm_known [OF Some])
      (auto simp: moesi_permissions_def line_perm_known)
qed (simp add: handle_remote_invalidate_def line_perm_unknown)

lemma remote_downgrade_perm:
  "line_perm (handle_remote_downgrade e addr from) l n =
     (if l = cl_align addr \<and> n = ce_local_node_id e \<and> line_perm e l n = WriteAccess
      then ReadAccess else line_perm e l n)"
proof (cases "ce_directory e (cl_align addr)")
  case (Some d)
  then show ?thesis
    by (simp add: handle_remote_downgrade_def Let_def line_perm_store line_perm_known [OF Some])
      (auto simp: moesi_permissions_def line_perm_known)
qed (simp add: handle_remote_downgrade_def line_perm_unknown)

lemma remote_writeback_perm:
  "line_perm (handle_remote_writeback e addr from data) l n =
     (if l = cl_align addr \<and> n = from \<and> de_owner_node (entry_at e l) = from
      then NoAccess else line_perm e l n)"
proof (cases "ce_directory e (cl_align addr)")
  case (Some d)
  then have "entry_at e (cl_align addr) = d" by (simp add: entry_at_def)
  then show ?thesis
    by (simp add: handle_remote_writeback_def Let_def Some line_perm_store line_perm_known [OF Some])
      (auto simp: moesi_permissions_def line_perm_known Some)
qed (simp add: handle_remote_writeback_def line_perm_unknown)

section \<open>Properties of the engine\<close>

text \<open>
  C4. In every state a sequence of calls can reach (requests of any nodes, messages of other nodes,
  head and link management, in any order) no line has a writer beside another node with access.
\<close>

theorem engine_single_writer:
  "engine_reachable e \<Longrightarrow> single_writer (line_perm e l)"
  using engine_reachable_inv engine_perm_single by blast

lemma example_engine_reachable:
  "\<forall>op \<in> set ops. engine_op_ok op \<Longrightarrow> engine_reachable (foldl engine_step example_engine ops)"
proof (induction ops rule: rev_induct)
  case Nil
  show ?case
    by (simp add: example_engine_def engine_start example_logp_ok)
qed (simp add: engine_call)

lemma engine_single_writer_witness:
  "single_writer (line_perm (foldl engine_step example_engine
     [Process_read (example_request 64 1 False), Process_write (example_request 70 2 True),
      Remote_invalidate 64 1]) 64)"
  by (rule engine_single_writer, rule example_engine_reachable) (simp add: example_request_def)

text \<open>
  C5. Requests implement the abstract protocol: a read gives the reader read access and takes write
  access from whoever held it, a write or an atomic leaves the requester as the only holder, and no
  request touches the permissions of another line.
\<close>

theorem engine_refines_protocol:
  assumes "engine_reachable e" and "cr_requesting_node req \<noteq> UINT32_MAX"
  shows "line_perm (snd (process_read e req)) l =
      (if l = cl_align (cr_addr req) then spec_read (cr_requesting_node req) (line_perm e l)
       else line_perm e l)
    \<and> line_perm (snd (process_write e req)) l =
      (if l = cl_align (cr_addr req) then spec_write (cr_requesting_node req) (line_perm e l)
       else line_perm e l)
    \<and> line_perm (snd (process_atomic e req)) l = line_perm (snd (process_write e req)) l"
  using process_read_inv(2) [OF engine_reachable_inv [OF assms(1)] assms(2)]
    process_write_inv(2) [OF engine_reachable_inv [OF assms(1)] assms(2)]
  by (simp add: process_atomic_state)

lemma engine_refines_protocol_witness:
  "line_perm (snd (process_write example_engine (example_request 70 2 True))) 64 =
     spec_write 2 (line_perm example_engine 64)"
  using engine_refines_protocol [of example_engine "example_request 70 2 True" 64]
    example_engine_reachable [of "[]"]
  by (simp add: example_request_def cl_align_def)

text \<open>
  C26. Nobody reads stale data: after a write to a line and any number of further reads of any lines,
  a node with access to the line is the writer or has read the line since the write.
\<close>

theorem engine_access_since_write:
  assumes "engine_reachable e" and "cr_requesting_node w \<noteq> UINT32_MAX" and "cr_is_write w"
    and "\<forall>r \<in> set reqs. cr_requesting_node r \<noteq> UINT32_MAX \<and> \<not> cr_is_write r"
    and "line_perm (foldl engine_access (engine_access e w) reqs) (cl_align (cr_addr w)) n \<noteq> NoAccess"
  shows "n = cr_requesting_node w
    \<or> (\<exists>r \<in> set reqs. cr_requesting_node r = n \<and> cl_align (cr_addr r) = cl_align (cr_addr w))"
  using engine_memory.access_since_write [OF engine_reachable_inv [OF assms(1)] assms(2-5)] .

text \<open>
  The version of a line counts the writes to it (modulo the width of the counter), whoever made
  them and whatever was read in between.
\<close>

theorem engine_version_counts_writes:
  assumes "engine_reachable e" and "\<forall>r \<in> set reqs. cr_requesting_node r \<noteq> UINT32_MAX"
  shows "de_version (entry_at (foldl engine_access e reqs) l) = de_version (entry_at e l)
    + of_nat (length (filter (\<lambda>r. cr_is_write r \<and> cl_align (cr_addr r) = l) reqs))"
  using assms(2)
proof (induction reqs rule: rev_induct)
  case (snoc r reqs)
  have "engine_inv (foldl engine_access e reqs)"
    using engine_memory.run_inv [OF engine_reachable_inv [OF assms(1)], of reqs] snoc.prems by simp
  then show ?case using snoc.IH snoc.prems by (simp add: engine_access_version)
qed simp

text \<open>
  A write is announced to every other node with access to the line exactly once: the message
  counter grows by the number of those nodes, except that the message to the owner of an owned line
  is not counted.  The line must not be one that a message of another node left invalid with sharers.
\<close>

theorem engine_write_messages:
  fixes e req
  defines "d \<equiv> entry_at e (cl_align (cr_addr req))"
  assumes "engine_reachable e" and "de_state d = INVALID \<longrightarrow> de_sharer_nodes d = {}"
  shows "ce_total_coherency_messages (snd (process_write e req))
      + (if de_state d = OWNED \<and> de_owner_node d \<noteq> cr_requesting_node req then 1 else 0)
    = ce_total_coherency_messages e + of_nat (card (holders d - {cr_requesting_node req}))"
proof -
  have inv: "engine_inv e" using assms(2) by (rule engine_reachable_inv)
  have ok: "entry_ok d" using entry_at_ok(1) [OF inv] by (simp add: d_def)
  show ?thesis
    by (rule process_write_split [OF inv, of req])
      (use write_transition_messages assms(3) ok in \<open>fastforce simp: d_def frame_simps\<close>)
qed

text \<open>
  Invalidating \<open>k\<close> remote sharers over a LogP network is serialised by the send gap: it takes at
  least \<open>(k - 1) g\<close> plus one uncontended message time.
\<close>

theorem engine_invalidation_latency:
  assumes "engine_reachable e" and "ce_logp_model e = Some m"
    and "ce_local_node_id e \<notin> de_sharer_nodes d" and "de_sharer_nodes d - {n} \<noteq> {}"
  shows "real (card (de_sharer_nodes d - {n}) - 1) * lp_g (lm_config m) + p2p_latency m
    \<le> fst (invalidate_sharers e d n ts)"
proof -
  have "network_ok e" using engine_reachable_inv [OF assms(1)] by (simp add: engine_inv_def)
  from invalidate_loop_lower [OF this, of "lm_config m" "sorted_list_of_set (de_sharer_nodes d - {n})"
      0 ts 0] assms(2-4)
  show ?thesis
    by (simp add: invalidate_sharers_def Let_def split_beta p2p_latency_def)
      (fastforce simp: algebra_simps)
qed

text \<open>
  C27. Messages of other nodes change exactly the permissions they are about: an invalidation takes
  the local node's access, a downgrade turns the local node's write access into read access, a
  write-back of the owner takes the owner's access; other nodes and other lines keep theirs.
\<close>

theorem engine_remote_messages:
  "line_perm (handle_remote_invalidate e addr from) l n =
      (if l = cl_align addr \<and> n = ce_local_node_id e then NoAccess else line_perm e l n)
    \<and> line_perm (handle_remote_downgrade e addr from) l n =
      (if l = cl_align addr \<and> n = ce_local_node_id e \<and> line_perm e l n = WriteAccess
       then ReadAccess else line_perm e l n)
    \<and> line_perm (handle_remote_writeback e addr from data) l n =
      (if l = cl_align addr \<and> n = from \<and> de_owner_node (entry_at e l) = from
       then NoAccess else line_perm e l n)"
  by (simp add: remote_invalidate_perm remote_downgrade_perm remote_writeback_perm)

lemma engine_access_since_write_witness:
  "(1::u32) = 2 \<or> (\<exists>r \<in> set [example_request 70 1 False]. cr_requesting_node r = 1
       \<and> cl_align (cr_addr r) = cl_align (cr_addr (example_request 64 2 True)))"
proof -
  let ?w = "example_request 64 2 True" and ?r = "example_request 70 1 False"
  have re: "engine_reachable example_engine" using example_engine_reachable [of "[]"] by simp
  have inv: "engine_inv example_engine" "engine_inv (engine_access example_engine ?w)"
    using engine_reachable_inv [OF re] engine_memory.step_inv [of example_engine ?w]
    by (simp_all add: example_request_def)
  have "line_perm (foldl engine_access (engine_access example_engine ?w) [?r])
      (cl_align (cr_addr ?w)) 1 \<noteq> NoAccess"
    using inv by (simp add: engine_memory.perm_step example_request_def cl_align_def spec_read_def)
  with engine_access_since_write [OF re, of ?w "[?r]" 1] show ?thesis
    by (simp add: example_request_def)
qed

lemma engine_version_counts_writes_witness:
  "de_version (entry_at (foldl engine_access example_engine
     [example_request 64 2 True, example_request 70 1 False, example_request 127 3 True]) 64) = 2"
  using engine_version_counts_writes [of example_engine "[example_request 64 2 True,
      example_request 70 1 False, example_request 127 3 True]" 64]
    example_engine_reachable [of "[]"]
  by (simp add: example_request_def cl_align_def entry_at_def example_engine_def
      new_CoherencyEngine_def new_DirectoryEntry_def)

lemma two_readers:
  "entry_at (foldl engine_step example_engine [Process_read (example_request 64 1 False),
      Process_read (example_request 64 2 False)]) 64 =
   \<lparr>de_cacheline_addr = 64, de_state = SHARED, de_owner_node = 1, de_owner_head = 0,
      de_sharer_nodes = {1, 2}, de_version = 0, de_last_access_time = 1000,
      de_has_dirty_data = False\<rparr>"
  by (simp add: example_engine_def new_CoherencyEngine_def process_read_def get_or_create_entry_def
      read_transition_def finish_request_def store_entry_def entry_at_def new_DirectoryEntry_def
      example_request_def cl_align_def Let_def insert_commute)

lemma engine_write_messages_witness:
  "ce_total_coherency_messages (snd (process_write (foldl engine_step example_engine
      [Process_read (example_request 64 1 False), Process_read (example_request 64 2 False)])
      (example_request 64 3 True))) = 2"
proof -
  let ?ops = "[Process_read (example_request 64 1 False), Process_read (example_request 64 2 False)]"
  let ?e = "foldl engine_step example_engine ?ops" and ?w = "example_request 64 3 True"
  have al: "cl_align (cr_addr ?w) = 64" by (simp add: example_request_def cl_align_def)
  have re: "engine_reachable ?e"
    by (rule example_engine_reachable) (simp add: example_request_def)
  have h: "holders (entry_at ?e 64) - {3} = {1, 2}"
    unfolding two_readers by (auto simp: holders_def entry_perm_def moesi_permissions_def)
  have m: "ce_total_coherency_messages ?e = 0"
    by (simp add: example_engine_def new_CoherencyEngine_def process_read_def
        get_or_create_entry_def read_transition_def finish_request_def store_entry_def
        new_DirectoryEntry_def example_request_def cl_align_def Let_def)
  have "de_state (entry_at ?e 64) = SHARED" unfolding two_readers by simp
  with engine_write_messages [OF re, of ?w] h m show ?thesis
    unfolding al by (simp add: example_request_def)
qed

lemma engine_invalidation_latency_witness:
  "real (card ({1, 2, 5} - {5::u32}) - 1) * lp_g (lm_config example_logp) + p2p_latency example_logp
     \<le> fst (invalidate_sharers example_engine
          (new_DirectoryEntry\<lparr>de_sharer_nodes := {1, 2, 5}\<rparr>) 5 1000)"
  using engine_invalidation_latency [of example_engine example_logp
      "new_DirectoryEntry\<lparr>de_sharer_nodes := {1, 2, 5}\<rparr>" 5 1000] example_engine_reachable [of "[]"]
  by (simp add: example_engine_def new_CoherencyEngine_def)

text \<open>
  The engine never enters the exclusive state: a first read takes a line to shared, so the first
  write of its only reader still goes through the invalidation of sharers, and the branches for
  exclusive lines are never taken.
\<close>

theorem engine_never_exclusive:
  "engine_reachable e \<Longrightarrow> ce_directory e l = Some d \<Longrightarrow> de_state d \<noteq> EXCLUSIVE"
  using engine_reachable_inv by (auto simp: engine_inv_def entry_ok_def)

lemma engine_never_exclusive_witness:
  "de_state (entry_at (snd (process_read example_engine (example_request 64 1 False))) 64) \<noteq> EXCLUSIVE"
proof -
  let ?e = "foldl engine_step example_engine [Process_read (example_request 64 1 False)]"
  have re: "engine_reachable ?e"
    by (rule example_engine_reachable) (simp add: example_request_def)
  have "ce_directory ?e 64 = Some (entry_at ?e 64)"
    by (simp add: process_read_def store_entry_def example_request_def cl_align_def Let_def
        split_beta entry_at_def)
  from engine_never_exclusive [OF re this] show ?thesis by simp
qed

text \<open>
  The heads' request counters are never advanced by the engine, so its contention term is always
  zero in a reachable state, however many heads are active.
\<close>

lemma engine_no_contention: "engine_reachable e \<Longrightarrow> calculate_contention_latency e head ts = 0"
  using engine_reachable_inv contention_zero by (auto simp: engine_inv_def)

text \<open>
  An invalidation of another node makes a line that the local node read first invalid, but leaves
  the other sharers in the entry; a later write then counts and sends no message although node 1
  still holds a copy.
\<close>

lemma remote_invalidate_orphans_sharers:
  fixes e
  defines "e \<equiv> foldl engine_step example_engine
    [Process_read (example_request 64 0 False), Process_read (example_request 64 1 False),
     Remote_invalidate 64 2]"
  shows "de_state (entry_at e 64) = INVALID \<and> line_perm e 64 1 = ReadAccess
    \<and> ce_total_coherency_messages (snd (process_write e (example_request 64 2 True)))
       = ce_total_coherency_messages e"
  by (simp add: e_def example_engine_def new_CoherencyEngine_def process_read_def
      process_write_def get_or_create_entry_def read_transition_def write_transition_def
      handle_remote_invalidate_def finish_request_def store_entry_def entry_at_def
      new_DirectoryEntry_def line_perm_def entry_perm_def moesi_permissions_def example_request_def
      cl_align_def Let_def)

text \<open>
  The read of an exclusive line reports its data source after the downgrade has erased the owner.
\<close>

lemma read_exclusive_source_lost:
  assumes "de_state d = EXCLUSIVE" "de_owner_node d \<noteq> cr_requesting_node req"
    "de_owner_node d \<noteq> UINT32_MAX" "cr_requesting_node req \<notin> de_sharer_nodes d"
  shows "fst (snd (snd (read_transition e d req))) = UINT32_MAX"
  using assms by (simp add: read_transition_def downgrade_owner_def Let_def split_beta)

end
