(* ===== verification/MHSLD_Device.thy ===== *)
theory MHSLD_Device
  imports Cache_State LogP "HOL-Library.Monad_Syntax"
begin

text \<open>
  The multi-headed single logical device of \<open>include/cxlendpoint.h\<close> and \<open>src/cxlendpoint.cpp\<close>:
  sixteen heads (host ports) that share one device, a directory of cache lines with a MOESI protocol
  between the heads, bandwidth shares, and capacity pools.

  Some accesses of the code are not guarded: the vector \<open>heads\<close> is indexed by an owner or a sharer
  read from the directory, and a directory lookup is used without a test.  Operations that do this
  return \<open>None\<close> where the access would be out of bounds or the pointer null; the loop of
  \<open>release_pool\<close> can also run forever, which is \<open>None\<close> as well.

  The lemmas show that no reachable state makes an operation fail, that reads and writes implement
  the abstract permission protocol, what latency a write is charged, that bandwidth shares add up to
  the whole, when pool allocations are disjoint and when releasing a pool terminates.
\<close>

section \<open>Data\<close>

abbreviation MAX_HEADS :: nat where "MAX_HEADS \<equiv> 16"

record MHSLDCachelineInfo =
  ci_address :: u64
  ci_sharers :: "u32 set"
  ci_owner_head :: u32
  ci_owner_state :: MHSLDCacheState
  ci_version :: u32
  ci_last_access_time :: u64
  ci_access_count :: u64
  ci_has_dirty_data :: bool

record MHSLDDevice =
  md_total_capacity :: u64
  md_num_heads :: u32
  md_base_read_latency :: real
  md_base_write_latency :: real
  md_max_bandwidth :: real
  md_heads :: "MHSLDHeadState list"
  md_directory :: "u64 \<rightharpoonup> MHSLDCachelineInfo"
  md_logp_model :: LogPModel
  md_total_coherency_messages :: u64
  md_total_invalidations :: u64
  md_total_downgrades :: u64
  md_total_writebacks :: u64

record MHSLDStats =
  ms_coherency_messages :: u64
  ms_invalidations :: u64
  ms_downgrades :: u64
  ms_writebacks :: u64
  ms_avg_read_latency :: real
  ms_avg_write_latency :: real
  ms_pool_utilization :: real

definition new_MHSLDCachelineInfo :: MHSLDCachelineInfo where
  "new_MHSLDCachelineInfo =
     \<lparr>ci_address = 0, ci_sharers = {}, ci_owner_head = UINT32_MAX, ci_owner_state = INVALID,
      ci_version = 0, ci_last_access_time = 0, ci_access_count = 0, ci_has_dirty_data = False\<rparr>"

definition new_MHSLDDevice ::
  "u64 \<Rightarrow> u32 \<Rightarrow> real \<Rightarrow> real \<Rightarrow> real \<Rightarrow> LogPConfig \<Rightarrow> MHSLDDevice" where
  "new_MHSLDDevice capacity num_heads read_lat write_lat bandwidth logp_cfg =
     \<lparr>md_total_capacity = capacity, md_num_heads = num_heads, md_base_read_latency = read_lat,
      md_base_write_latency = write_lat, md_max_bandwidth = bandwidth,
      md_heads = map (\<lambda>i. new_MHSLDHeadState
                        \<lparr>hs_head_id := of_nat i, hs_active := False, hs_bandwidth_share := 0\<rparr>)
                   [0..<MAX_HEADS],
      md_directory = Map.empty, md_logp_model = new_LogPModel logp_cfg,
      md_total_coherency_messages = 0, md_total_invalidations = 0, md_total_downgrades = 0,
      md_total_writebacks = 0\<rparr>"

section \<open>Heads\<close>

definition head_at :: "MHSLDDevice \<Rightarrow> u32 \<Rightarrow> MHSLDHeadState option" where
  "head_at dev i = (if unat i < length (md_heads dev) then Some (md_heads dev ! unat i) else None)"

definition update_head ::
  "MHSLDDevice \<Rightarrow> u32 \<Rightarrow> (MHSLDHeadState \<Rightarrow> MHSLDHeadState) \<Rightarrow> MHSLDDevice" where
  "update_head dev i f = dev\<lparr>md_heads := (md_heads dev)[unat i := f (md_heads dev ! unat i)]\<rparr>"

definition head_active :: "MHSLDDevice \<Rightarrow> u32 \<Rightarrow> bool" where
  "head_active dev i \<longleftrightarrow> unat i < MAX_HEADS \<and> hs_active (md_heads dev ! unat i)"

definition rebalance_bandwidth :: "MHSLDDevice \<Rightarrow> MHSLDDevice" where
  "rebalance_bandwidth dev =
     (let active = filter hs_active (md_heads dev); active_count = length active in
      if active_count = 0 then dev
      else
        let total_alloc = sum_list (map hs_allocated_capacity active)
        in dev\<lparr>md_heads := map (\<lambda>h.
             if hs_active h \<and> total_alloc > 0
             then h\<lparr>hs_bandwidth_share :=
                      double_of_u64 (hs_allocated_capacity h) / double_of_u64 total_alloc\<rparr>
             else if hs_active h then h\<lparr>hs_bandwidth_share := 1 / real active_count\<rparr>
             else h\<lparr>hs_bandwidth_share := 0\<rparr>) (md_heads dev)\<rparr>)"

definition activate_head :: "MHSLDDevice \<Rightarrow> u32 \<Rightarrow> u64 \<Rightarrow> bool \<times> MHSLDDevice" where
  "activate_head dev head_id capacity_alloc =
     (if unat head_id \<ge> MAX_HEADS then (False, dev)
      else (True, rebalance_bandwidth
              (update_head dev head_id (\<lambda>h. h\<lparr>hs_active := True,
                 hs_allocated_capacity := capacity_alloc, hs_used_capacity := 0\<rparr>))))"

definition drop_head :: "u32 \<Rightarrow> MHSLDCachelineInfo \<Rightarrow> MHSLDCachelineInfo" where
  "drop_head head_id info =
     (let i1 = (if ci_owner_head info = head_id
                then (if ci_owner_state info = MODIFIED then info\<lparr>ci_has_dirty_data := True\<rparr> else info)
                       \<lparr>ci_owner_head := UINT32_MAX, ci_owner_state := INVALID\<rparr>
                else info)
      in i1\<lparr>ci_sharers := ci_sharers i1 - {head_id}\<rparr>)"

definition deactivate_head :: "MHSLDDevice \<Rightarrow> u32 \<Rightarrow> MHSLDDevice" where
  "deactivate_head dev head_id =
     (if unat head_id \<ge> MAX_HEADS then dev
      else
        let dev1 = update_head dev head_id (\<lambda>h. h\<lparr>hs_active := False, hs_bandwidth_share := 0\<rparr>);
            dev2 = dev1\<lparr>md_directory := map_option (drop_head head_id) \<circ> md_directory dev1\<rparr>
        in rebalance_bandwidth dev2)"

section \<open>Directory\<close>

definition get_entry :: "MHSLDDevice \<Rightarrow> u64 \<Rightarrow> MHSLDCachelineInfo option" where
  "get_entry dev addr = md_directory dev (cl_align addr)"

definition store_entry :: "MHSLDDevice \<Rightarrow> u64 \<Rightarrow> MHSLDCachelineInfo \<Rightarrow> MHSLDDevice" where
  "store_entry dev addr info = dev\<lparr>md_directory := (md_directory dev)(cl_align addr \<mapsto> info)\<rparr>"

definition get_or_create_entry :: "MHSLDDevice \<Rightarrow> u64 \<Rightarrow> MHSLDCachelineInfo \<times> MHSLDDevice" where
  "get_or_create_entry dev addr =
     (let cl_addr = cl_align addr in
      case md_directory dev cl_addr of
        Some info \<Rightarrow> (info, dev)
      | None \<Rightarrow>
          (let info = new_MHSLDCachelineInfo\<lparr>ci_address := cl_addr\<rparr>
           in (info, dev\<lparr>md_directory := (md_directory dev)(cl_addr \<mapsto> info)\<rparr>)))"

section \<open>Pools\<close>

definition allocate_pool :: "MHSLDDevice \<Rightarrow> u32 \<Rightarrow> u64 \<Rightarrow> u64 \<times> MHSLDDevice" where
  "allocate_pool dev head_id sz =
     (if \<not> head_active dev head_id then (0, dev)
      else
        let h = md_heads dev ! unat head_id in
        if hs_used_capacity h + sz > hs_allocated_capacity h then (0, dev)
        else
          let base = ucast head_id * (md_total_capacity dev div of_nat MAX_HEADS);
              addr = base + hs_used_capacity h
          in (addr, update_head dev head_id
                (\<lambda>h. h\<lparr>hs_used_capacity := hs_used_capacity h + sz\<rparr>)))"

definition release_line :: "u32 \<Rightarrow> u64 \<Rightarrow> MHSLDDevice \<Rightarrow> MHSLDDevice" where
  "release_line head_id cl_addr dev =
     (case get_entry dev cl_addr of
        None \<Rightarrow> dev
      | Some info \<Rightarrow>
          let i1 = info\<lparr>ci_sharers := ci_sharers info - {head_id}\<rparr>;
              i2 = (if ci_owner_head i1 = head_id
                    then i1\<lparr>ci_owner_head := UINT32_MAX, ci_owner_state := INVALID\<rparr> else i1)
          in store_entry dev cl_addr i2)"

partial_function (option) release_loop ::
  "u32 \<Rightarrow> u64 \<Rightarrow> u64 \<Rightarrow> MHSLDDevice \<Rightarrow> MHSLDDevice option" where
  "release_loop head_id cl_addr end_addr dev =
     (if cl_addr < end_addr
      then release_loop head_id (cl_addr + 64) end_addr (release_line head_id cl_addr dev)
      else Some dev)"

definition release_pool :: "MHSLDDevice \<Rightarrow> u32 \<Rightarrow> u64 \<Rightarrow> u64 \<Rightarrow> MHSLDDevice option" where
  "release_pool dev head_id addr sz =
     (if \<not> head_active dev head_id then Some dev
      else do {
        dev1 \<leftarrow> release_loop head_id (cl_align addr) (addr + sz) dev;
        Some (if hs_used_capacity (md_heads dev1 ! unat head_id) \<ge> sz
              then update_head dev1 head_id
                     (\<lambda>h. h\<lparr>hs_used_capacity := hs_used_capacity h - sz\<rparr>)
              else dev1)
      })"

definition get_pool_utilization :: "MHSLDDevice \<Rightarrow> real" where
  "get_pool_utilization dev =
     (let total_used = sum_list (map hs_used_capacity (filter hs_active (md_heads dev)))
      in if md_total_capacity dev > 0
         then double_of_u64 total_used / double_of_u64 (md_total_capacity dev) else 0)"

section \<open>Latencies\<close>

definition calculate_contention_latency :: "MHSLDDevice \<Rightarrow> u32 \<Rightarrow> u64 \<Rightarrow> real" where
  "calculate_contention_latency dev head_id ts =
     (if \<not> head_active dev head_id then 0
      else
        let contending_heads =
              length (filter (\<lambda>h. hs_active h \<and> hs_total_reads h + hs_total_writes h > 0)
                        (md_heads dev))
        in if contending_heads \<le> 1 then 0
           else
             let share = hs_bandwidth_share (md_heads dev ! unat head_id);
                 fair_share = (if share \<le> 0 then 1 / real contending_heads else share);
                 additional = md_base_read_latency dev * (1 / fair_share - 1) * (3 / 10)
             in min additional (md_base_read_latency dev * 5))"

definition calculate_fair_share_bandwidth :: "MHSLDDevice \<Rightarrow> u32 \<Rightarrow> real" where
  "calculate_fair_share_bandwidth dev head_id =
     (if \<not> head_active dev head_id then 0
      else md_max_bandwidth dev * hs_bandwidth_share (md_heads dev ! unat head_id))"

section \<open>Coherency protocol\<close>

text \<open>
  The sharers to invalidate are collected in ascending order; every sharer other than the requester
  is looked up in \<open>heads\<close>.
\<close>

fun collect_active :: "MHSLDDevice \<Rightarrow> u32 \<Rightarrow> u32 list \<Rightarrow> u32 list option" where
  "collect_active dev except_head [] = Some []"
| "collect_active dev except_head (sharer # rest) =
     (if sharer = except_head then collect_active dev except_head rest
      else do {
        h \<leftarrow> head_at dev sharer;
        ns \<leftarrow> collect_active dev except_head rest;
        Some (if hs_active h then sharer # ns else ns)
      })"

fun invalidate_loop :: "MHSLDDevice \<Rightarrow> u32 list \<Rightarrow> real \<Rightarrow> real \<Rightarrow> real \<times> MHSLDDevice" where
  "invalidate_loop dev [] max_inv_latency accumulated_gap = (max_inv_latency, dev)"
| "invalidate_loop dev (sharer # rest) max_inv_latency accumulated_gap =
     (let cfg = lm_config (md_logp_model dev);
          inv_latency = accumulated_gap + lp_L cfg + lp_o_r cfg;
          dev1 = update_head dev sharer
                   (\<lambda>h. h\<lparr>hs_back_invalidations := hs_back_invalidations h + 1\<rparr>);
          dev2 = dev1\<lparr>md_total_invalidations := md_total_invalidations dev1 + 1,
                      md_total_coherency_messages := md_total_coherency_messages dev1 + 1\<rparr>
      in invalidate_loop dev2 rest (max max_inv_latency inv_latency) (accumulated_gap + lp_g cfg))"

definition invalidate_sharers ::
  "MHSLDDevice \<Rightarrow> u64 \<Rightarrow> u32 \<Rightarrow> u64 \<Rightarrow> (real \<times> MHSLDDevice) option" where
  "invalidate_sharers dev addr except_head ts =
     (case get_entry dev addr of
        None \<Rightarrow> Some (0, dev)
      | Some info \<Rightarrow> do {
          to_invalidate \<leftarrow> collect_active dev except_head (sorted_list_of_set (ci_sharers info));
          let (lat, dev1) = invalidate_loop dev to_invalidate 0 0;
          let lat' = (if to_invalidate \<noteq> [] then lat + lp_o_s (lm_config (md_logp_model dev1))
                      else lat);
          Some (lat', store_entry dev1 addr (info\<lparr>ci_sharers := {}\<rparr>))
        })"

definition downgrade_owner :: "MHSLDDevice \<Rightarrow> u64 \<Rightarrow> u32 \<Rightarrow> u64 \<Rightarrow> real \<times> MHSLDDevice" where
  "downgrade_owner dev addr requesting_head ts =
     (case get_entry dev addr of
        None \<Rightarrow> (0, dev)
      | Some info \<Rightarrow>
          if ci_owner_head info = UINT32_MAX then (0, dev)
          else
            let owner = ci_owner_head info in
            if owner = requesting_head then (0, dev)
            else
              let (down_latency, m) = message_latency (md_logp_model dev) ts owner;
                  info' =
                    (if ci_owner_state info = MODIFIED
                     then info\<lparr>ci_owner_state := OWNED, ci_has_dirty_data := True\<rparr>
                     else if ci_owner_state info = EXCLUSIVE
                     then info\<lparr>ci_sharers := insert owner (ci_sharers info),
                               ci_owner_state := SHARED, ci_owner_head := UINT32_MAX\<rparr>
                     else info)
              in (down_latency,
                  store_entry
                    (dev\<lparr>md_logp_model := m, md_total_downgrades := md_total_downgrades dev + 1,
                         md_total_coherency_messages := md_total_coherency_messages dev + 1\<rparr>)
                    addr info'))"

definition writeback :: "MHSLDDevice \<Rightarrow> u64 \<Rightarrow> u32 \<Rightarrow> u64 \<Rightarrow> real \<times> MHSLDDevice" where
  "writeback dev addr head_id ts =
     (case get_entry dev addr of
        None \<Rightarrow> (0, dev)
      | Some info \<Rightarrow>
          if ci_owner_head info \<noteq> head_id then (0, dev)
          else
            let cfg = lm_config (md_logp_model dev);
                dirty = ci_owner_state info = MODIFIED \<or> ci_owner_state info = OWNED;
                wb_latency = md_base_write_latency dev
                  + (if dirty then lp_o_s cfg + lp_L cfg else 0);
                i1 = (if dirty then info\<lparr>ci_has_dirty_data := False\<rparr> else info);
                i2 = i1\<lparr>ci_owner_state := INVALID, ci_owner_head := UINT32_MAX,
                        ci_sharers := ci_sharers i1 - {head_id}\<rparr>
            in (wb_latency,
                store_entry (dev\<lparr>md_total_writebacks := md_total_writebacks dev + 1\<rparr>) addr i2))"

definition read_miss ::
  "MHSLDDevice \<Rightarrow> MHSLDCachelineInfo \<Rightarrow> u32 \<Rightarrow> u64 \<Rightarrow> real \<times> MHSLDCachelineInfo \<times> MHSLDDevice" where
  "read_miss dev info head_id ts =
     (let share = (\<lambda>i. i\<lparr>ci_sharers := insert head_id (ci_sharers i)\<rparr>);
          snoop =
            (let (snoop_latency, m) = message_latency (md_logp_model dev) ts (ci_owner_head info);
                 modified = ci_owner_state info = MODIFIED;
                 i1 = (if modified then info\<lparr>ci_owner_state := OWNED\<rparr>
                       else info\<lparr>ci_sharers := insert (ci_owner_head info) (ci_sharers info),
                                 ci_owner_state := SHARED\<rparr>);
                 dev1 = update_head (dev\<lparr>md_logp_model := m\<rparr>) head_id
                          (\<lambda>h. h\<lparr>hs_coherency_stalls := hs_coherency_stalls h + 1\<rparr>)
             in (snoop_latency, share i1,
                 dev1\<lparr>md_total_downgrades := md_total_downgrades dev1 + (if modified then 1 else 0),
                      md_total_coherency_messages := md_total_coherency_messages dev1 + 1\<rparr>))
      in case ci_owner_state info of
           INVALID \<Rightarrow> (0, (share info)\<lparr>ci_owner_state := SHARED, ci_owner_head := head_id\<rparr>, dev)
         | SHARED \<Rightarrow> (0, share info, dev)
         | EXCLUSIVE \<Rightarrow> snoop
         | MODIFIED \<Rightarrow> snoop
         | OWNED \<Rightarrow>
             (let (l, m) = message_latency (md_logp_model dev) ts (ci_owner_head info)
              in (l, share info,
                  dev\<lparr>md_logp_model := m,
                      md_total_coherency_messages := md_total_coherency_messages dev + 1\<rparr>)))"

definition record_access :: "MHSLDDevice \<Rightarrow> u32 \<Rightarrow> real \<Rightarrow> MHSLDDevice" where
  "record_access dev head_id latency =
     dev\<lparr>md_logp_model := record_message (md_logp_model dev) head_id (u64_of_double latency)\<rparr>"

definition read_with_coherency :: "MHSLDDevice \<Rightarrow> u32 \<Rightarrow> u64 \<Rightarrow> u64 \<Rightarrow> real \<times> MHSLDDevice" where
  "read_with_coherency dev head_id addr ts =
     (if \<not> head_active dev head_id then (0, dev)
      else
        let (info0, dev0) = get_or_create_entry dev addr;
            info = info0\<lparr>ci_access_count := ci_access_count info0 + 1, ci_last_access_time := ts\<rparr>;
            dev1 = update_head dev0 head_id (\<lambda>h. h\<lparr>hs_total_reads := hs_total_reads h + 1\<rparr>);
            latency = md_base_read_latency dev
        in if ci_owner_head info = head_id
              \<and> (ci_owner_state info = EXCLUSIVE \<or> ci_owner_state info = MODIFIED
                 \<or> ci_owner_state info = OWNED)
           then (latency + calculate_contention_latency dev1 head_id ts, store_entry dev1 addr info)
           else if head_id \<in> ci_sharers info
           then (latency + calculate_contention_latency dev1 head_id ts, store_entry dev1 addr info)
           else
             let (coherency, info', dev2) = read_miss dev1 info head_id ts;
                 latency' = latency + coherency + calculate_contention_latency dev2 head_id ts
             in (latency', store_entry (record_access dev2 head_id latency') addr info'))"

definition write_acquire ::
  "MHSLDDevice \<Rightarrow> MHSLDCachelineInfo \<Rightarrow> u64 \<Rightarrow> u32 \<Rightarrow> u64 \<Rightarrow> (real \<times> MHSLDDevice) option" where
  "write_acquire dev info addr head_id ts =
     (let owner = ci_owner_head info; st = ci_owner_state info in
      if st = INVALID then Some (0, dev)
      else if st = SHARED then invalidate_sharers dev addr head_id ts
      else do {
        (snoop, dev1) \<leftarrow>
          (if owner \<noteq> head_id
           then do {
             let (snoop_latency, m) = message_latency (md_logp_model dev) ts owner;
             _ \<leftarrow> head_at dev owner;
             let dev1 = update_head (dev\<lparr>md_logp_model := m\<rparr>) owner
                          (\<lambda>h. h\<lparr>hs_back_invalidations := hs_back_invalidations h + 1\<rparr>);
             Some (snoop_latency,
               dev1\<lparr>md_total_writebacks := md_total_writebacks dev1
                        + (if st = MODIFIED \<or> st = OWNED then 1 else 0),
                    md_total_coherency_messages := md_total_coherency_messages dev1 + 1\<rparr>)
           }
           else Some (0, dev));
        (inv_latency, dev2) \<leftarrow> invalidate_sharers dev1 addr head_id ts;
        Some (snoop + inv_latency, dev2)
      })"

definition write_with_coherency ::
  "MHSLDDevice \<Rightarrow> u32 \<Rightarrow> u64 \<Rightarrow> u64 \<Rightarrow> (real \<times> MHSLDDevice) option" where
  "write_with_coherency dev head_id addr ts =
     (if \<not> head_active dev head_id then Some (0, dev)
      else
        let (info0, dev0) = get_or_create_entry dev addr;
            info = info0\<lparr>ci_access_count := ci_access_count info0 + 1, ci_last_access_time := ts,
                         ci_version := ci_version info0 + 1\<rparr>;
            dev1 = store_entry
                     (update_head dev0 head_id (\<lambda>h. h\<lparr>hs_total_writes := hs_total_writes h + 1\<rparr>))
                     addr info;
            latency = md_base_write_latency dev;
            contention = (\<lambda>d. calculate_contention_latency d head_id ts)
        in if ci_owner_head info = head_id
              \<and> (ci_owner_state info = EXCLUSIVE \<or> ci_owner_state info = MODIFIED)
           then Some (latency + contention dev1,
                  store_entry dev1 addr (info\<lparr>ci_owner_state := MODIFIED, ci_has_dirty_data := True\<rparr>))
           else if ci_owner_head info = head_id \<and> ci_owner_state info = OWNED
           then do {
             (inv_latency, dev2) \<leftarrow> invalidate_sharers dev1 addr head_id ts;
             info2 \<leftarrow> get_entry dev2 addr;
             Some (latency + inv_latency + contention dev2,
               store_entry dev2 addr (info2\<lparr>ci_owner_state := MODIFIED, ci_has_dirty_data := True\<rparr>))
           }
           else do {
             (coherency_latency, dev2) \<leftarrow> write_acquire dev1 info addr head_id ts;
             info2 \<leftarrow> get_entry dev2 addr;
             let info3 = info2\<lparr>ci_owner_head := head_id, ci_owner_state := MODIFIED,
                                ci_sharers := {}, ci_has_dirty_data := True\<rparr>;
             let dev3 = update_head dev2 head_id (\<lambda>h. h\<lparr>hs_coherency_stalls :=
                          hs_coherency_stalls h + (if coherency_latency > 0 then 1 else 0)\<rparr>);
             let latency' = latency + coherency_latency + contention dev3;
             Some (latency', store_entry (record_access dev3 head_id latency') addr info3)
           })"

definition atomic_with_coherency ::
  "MHSLDDevice \<Rightarrow> u32 \<Rightarrow> u64 \<Rightarrow> u64 \<Rightarrow> (real \<times> MHSLDDevice) option" where
  "atomic_with_coherency dev head_id addr ts = do {
     (latency, dev1) \<leftarrow> write_with_coherency dev head_id addr ts;
     let cfg = lm_config (md_logp_model dev1);
     Some (latency + (lp_o_s cfg + lp_o_r cfg), dev1)
   }"

definition get_stats :: "MHSLDDevice \<Rightarrow> MHSLDStats" where
  "get_stats dev =
     \<lparr>ms_coherency_messages = md_total_coherency_messages dev,
      ms_invalidations = md_total_invalidations dev, ms_downgrades = md_total_downgrades dev,
      ms_writebacks = md_total_writebacks dev, ms_avg_read_latency = md_base_read_latency dev,
      ms_avg_write_latency = md_base_write_latency dev,
      ms_pool_utilization = get_pool_utilization dev\<rparr>"

section \<open>Specification\<close>

datatype mhsld_op =
    Activate_head u32 u64
  | Deactivate_head u32
  | Rebalance_bandwidth
  | Allocate_pool u32 u64
  | Release_pool u32 u64 u64
  | Read_with_coherency u32 u64 u64
  | Write_with_coherency u32 u64 u64
  | Atomic_with_coherency u32 u64 u64
  | Invalidate_sharers u64 u32 u64
  | Downgrade_owner u64 u32 u64
  | Writeback u64 u32 u64

fun mhsld_step :: "MHSLDDevice \<Rightarrow> mhsld_op \<Rightarrow> MHSLDDevice option" where
  "mhsld_step dev (Activate_head h c) = Some (snd (activate_head dev h c))"
| "mhsld_step dev (Deactivate_head h) = Some (deactivate_head dev h)"
| "mhsld_step dev Rebalance_bandwidth = Some (rebalance_bandwidth dev)"
| "mhsld_step dev (Allocate_pool h sz) = Some (snd (allocate_pool dev h sz))"
| "mhsld_step dev (Release_pool h addr sz) = release_pool dev h addr sz"
| "mhsld_step dev (Read_with_coherency h addr ts) = Some (snd (read_with_coherency dev h addr ts))"
| "mhsld_step dev (Write_with_coherency h addr ts) =
     map_option snd (write_with_coherency dev h addr ts)"
| "mhsld_step dev (Atomic_with_coherency h addr ts) =
     map_option snd (atomic_with_coherency dev h addr ts)"
| "mhsld_step dev (Invalidate_sharers addr h ts) =
     map_option snd (invalidate_sharers dev addr h ts)"
| "mhsld_step dev (Downgrade_owner addr h ts) = Some (snd (downgrade_owner dev addr h ts))"
| "mhsld_step dev (Writeback addr h ts) = Some (snd (writeback dev addr h ts))"

text \<open>
  A release terminates when the region ends at or below the last cache line of the address space; a
  head is never given more than \<open>2 ^ 60\<close> bytes, so sixteen capacities add up without wrapping.
\<close>

fun mhsld_op_ok :: "mhsld_op \<Rightarrow> bool" where
  "mhsld_op_ok (Activate_head h c) \<longleftrightarrow> c < 2 ^ 60"
| "mhsld_op_ok (Release_pool h addr sz) \<longleftrightarrow> addr + sz \<le> - 64"
| "mhsld_op_ok _ \<longleftrightarrow> True"

inductive mhsld_reachable :: "MHSLDDevice \<Rightarrow> bool" where
  mhsld_start:
    "0 \<le> read_lat \<Longrightarrow> 0 \<le> write_lat \<Longrightarrow> logp_config_ok cfg \<Longrightarrow>
     mhsld_reachable (new_MHSLDDevice capacity num_heads read_lat write_lat bandwidth cfg)"
| mhsld_call:
    "mhsld_reachable dev \<Longrightarrow> mhsld_op_ok op \<Longrightarrow> mhsld_step dev op = Some dev' \<Longrightarrow>
     mhsld_reachable dev'"

definition info_ok :: "(u32 \<Rightarrow> bool) \<Rightarrow> MHSLDCachelineInfo \<Rightarrow> bool" where
  "info_ok active info \<longleftrightarrow>
     moesi_entry_ok (ci_owner_state info) (ci_owner_head info) (ci_sharers info)
       (ci_has_dirty_data info)
     \<and> ci_owner_state info \<noteq> EXCLUSIVE
     \<and> (\<forall>n \<in> ci_sharers info. active n)
     \<and> (ci_owner_head info \<noteq> UINT32_MAX \<longrightarrow> active (ci_owner_head info))"

definition heads_ok :: "MHSLDDevice \<Rightarrow> bool" where
  "heads_ok dev \<longleftrightarrow> length (md_heads dev) = MAX_HEADS
     \<and> (\<forall>h \<in> set (md_heads dev). hs_allocated_capacity h < 2 ^ 60
          \<and> 0 \<le> hs_bandwidth_share h \<and> hs_bandwidth_share h \<le> 1)"

definition mhsld_inv :: "MHSLDDevice \<Rightarrow> bool" where
  "mhsld_inv dev \<longleftrightarrow>
     (\<forall>l info. md_directory dev l = Some info \<longrightarrow>
        info_ok (head_active dev) info \<and> cl_align l = l \<and> ci_address info = l)
     \<and> heads_ok dev \<and> logp_ok (md_logp_model dev)
     \<and> 0 \<le> md_base_read_latency dev \<and> 0 \<le> md_base_write_latency dev"

definition info_at :: "MHSLDDevice \<Rightarrow> u64 \<Rightarrow> MHSLDCachelineInfo" where
  "info_at dev l = (case md_directory dev l of Some info \<Rightarrow> info
                    | None \<Rightarrow> new_MHSLDCachelineInfo\<lparr>ci_address := l\<rparr>)"

definition info_perm :: "MHSLDCachelineInfo \<Rightarrow> permissions" where
  "info_perm info =
     moesi_permissions (ci_owner_state info) (ci_owner_head info) (ci_sharers info)"

definition head_perm :: "MHSLDDevice \<Rightarrow> u64 \<Rightarrow> permissions" where
  "head_perm dev l = info_perm (info_at dev l)"

text \<open>
  The parts of a head and of the device, beside its directory, that coherency actions leave alone;
  what an access does: the line's entry is replaced, and the latency is the base latency, a
  coherency cost and a contention term; the cost of invalidating \<open>k\<close> sharers.
\<close>

definition head_core :: "MHSLDHeadState \<Rightarrow> bool \<times> u64 \<times> u64 \<times> real" where
  "head_core h =
     (hs_active h, hs_allocated_capacity h, hs_used_capacity h, hs_bandwidth_share h)"

definition mhsld_frame :: "MHSLDDevice \<Rightarrow> MHSLDDevice \<Rightarrow> bool" where
  "mhsld_frame dev dev' \<longleftrightarrow>
     map head_core (md_heads dev') = map head_core (md_heads dev)
     \<and> md_base_read_latency dev' = md_base_read_latency dev
     \<and> md_base_write_latency dev' = md_base_write_latency dev
     \<and> lm_config (md_logp_model dev') = lm_config (md_logp_model dev)
     \<and> (logp_ok (md_logp_model dev) \<longrightarrow> logp_ok (md_logp_model dev'))"

definition access_result ::
  "MHSLDDevice \<Rightarrow> u64 \<Rightarrow> real \<Rightarrow> MHSLDCachelineInfo \<Rightarrow> real \<Rightarrow> real \<Rightarrow> MHSLDDevice \<Rightarrow> bool" where
  "access_result dev addr base info cost lat dev' \<longleftrightarrow>
     mhsld_frame dev dev' \<and> md_directory dev' = (md_directory dev)(cl_align addr \<mapsto> info)
     \<and> 0 \<le> cost \<and> base + cost \<le> lat \<and> lat \<le> base + cost + 5 * md_base_read_latency dev"

definition invalidation_cost :: "LogPConfig \<Rightarrow> nat \<Rightarrow> real" where
  "invalidation_cost cfg k =
     (if k = 0 then 0 else real (k - 1) * lp_g cfg + lp_L cfg + lp_o_r cfg + lp_o_s cfg)"

record head_access =
  ha_head :: u32
  ha_addr :: u64
  ha_is_write :: bool
  ha_timestamp :: u64

definition mhsld_access :: "MHSLDDevice \<Rightarrow> head_access \<Rightarrow> MHSLDDevice" where
  "mhsld_access dev a =
     (if ha_is_write a
      then case write_with_coherency dev (ha_head a) (ha_addr a) (ha_timestamp a) of
             Some (_, dev') \<Rightarrow> dev' | None \<Rightarrow> dev
      else snd (read_with_coherency dev (ha_head a) (ha_addr a) (ha_timestamp a)))"

text \<open>Head \<open>h\<close>'s slice of the device, and the bytes of an allocated block.\<close>

definition slice :: "MHSLDDevice \<Rightarrow> u32 \<Rightarrow> nat set" where
  "slice dev h = {unat h * (unat (md_total_capacity dev) div MAX_HEADS)
                  ..< (unat h + 1) * (unat (md_total_capacity dev) div MAX_HEADS)}"

definition block :: "u64 \<Rightarrow> u64 \<Rightarrow> nat set" where
  "block addr sz = {unat addr ..< unat addr + unat sz}"

text \<open>
  The blocks a sequence of allocations hands out (an allocation that fails, or is empty, leaves the
  device unchanged), and the part of a head's pool that is still free.
\<close>

fun alloc_run :: "MHSLDDevice \<Rightarrow> (u32 \<times> u64) list \<Rightarrow> (u32 \<times> u64 \<times> u64) list" where
  "alloc_run dev [] = []"
| "alloc_run dev ((h, sz) # reqs) =
     (let (addr, dev') = allocate_pool dev h sz
      in (if dev' = dev then [] else [(h, addr, sz)]) @ alloc_run dev' reqs)"

definition pools_fit :: "MHSLDDevice \<Rightarrow> bool" where
  "pools_fit dev \<longleftrightarrow> length (md_heads dev) = MAX_HEADS
     \<and> (\<forall>h \<in> set (md_heads dev). hs_used_capacity h \<le> hs_allocated_capacity h
          \<and> unat (hs_allocated_capacity h) \<le> unat (md_total_capacity dev) div MAX_HEADS)"

definition free_space :: "MHSLDDevice \<Rightarrow> u32 \<Rightarrow> nat set" where
  "free_space dev h =
     (let base = unat h * (unat (md_total_capacity dev) div MAX_HEADS); hd = md_heads dev ! unat h
      in {base + unat (hs_used_capacity hd) ..< base + unat (hs_allocated_capacity hd)})"

definition example_device :: MHSLDDevice where
  "example_device =
     snd (activate_head (snd (activate_head
       (new_MHSLDDevice 16384 2 100 120 32 default_LogPConfig) 0 512)) 1 512)"

section \<open>Frame properties\<close>

lemma mhsld_frame_refl [simp, intro]: "mhsld_frame dev dev"
  by (simp add: mhsld_frame_def)

lemma mhsld_frame_trans [trans]: "mhsld_frame a b \<Longrightarrow> mhsld_frame b c \<Longrightarrow> mhsld_frame a c"
  by (simp add: mhsld_frame_def)

lemma mhsld_frame_counters [simp]:
  "mhsld_frame a (dev\<lparr>md_total_coherency_messages := i\<rparr>) = mhsld_frame a dev"
  "mhsld_frame a (dev\<lparr>md_total_invalidations := i\<rparr>) = mhsld_frame a dev"
  "mhsld_frame a (dev\<lparr>md_total_downgrades := i\<rparr>) = mhsld_frame a dev"
  "mhsld_frame a (dev\<lparr>md_total_writebacks := i\<rparr>) = mhsld_frame a dev"
  by (simp_all add: mhsld_frame_def)

lemma update_head_core:
  assumes "\<And>h. head_core (f h) = head_core h"
  shows "map head_core (md_heads (update_head dev i f)) = map head_core (md_heads dev)"
proof (cases "unat i < length (md_heads dev)")
  case True
  then have "(map head_core (md_heads dev))[unat i := head_core (md_heads dev ! unat i)]
      = map head_core (md_heads dev)"
    by (metis list_update_id nth_map)
  then show ?thesis by (simp add: update_head_def map_update assms)
qed (simp add: update_head_def list_update_beyond)

lemma mhsld_frame_head [simp]:
  assumes "\<And>h. head_core (f h) = head_core h"
  shows "mhsld_frame a (update_head dev i f) = mhsld_frame a dev"
  using update_head_core [OF assms, of dev i]
  by (simp add: mhsld_frame_def) (simp add: update_head_def)

lemma head_core_counters [simp]:
  "head_core (h\<lparr>hs_total_reads := r\<rparr>) = head_core h"
  "head_core (h\<lparr>hs_total_writes := r\<rparr>) = head_core h"
  "head_core (h\<lparr>hs_coherency_stalls := r\<rparr>) = head_core h"
  "head_core (h\<lparr>hs_back_invalidations := r\<rparr>) = head_core h"
  by (simp_all add: head_core_def)

lemma mhsld_frame_logp [simp]:
  "mhsld_frame dev (dev\<lparr>md_logp_model := snd (message_latency (md_logp_model dev) ts n)\<rparr>)"
  by (auto simp: mhsld_frame_def frame_simps)

lemma mhsld_frame_record: "mhsld_frame a dev \<Longrightarrow> mhsld_frame a (record_access dev n l)"
  by (auto simp: mhsld_frame_def record_access_def frame_simps)

lemma heads_ok_core:
  "heads_ok dev \<longleftrightarrow> length (map head_core (md_heads dev)) = MAX_HEADS
     \<and> (\<forall>(act, cap, used, share) \<in> set (map head_core (md_heads dev)).
          cap < 2 ^ 60 \<and> 0 \<le> share \<and> share \<le> 1)"
  by (auto simp: heads_ok_def head_core_def)

lemma mhsld_frame_heads_ok: "mhsld_frame dev dev' \<Longrightarrow> heads_ok dev \<Longrightarrow> heads_ok dev'"
  unfolding heads_ok_core by (elim conjE, intro conjI) (simp_all only: mhsld_frame_def)

lemma head_active_core:
  assumes "length (md_heads dev) = MAX_HEADS" "map head_core (md_heads dev') = map head_core (md_heads dev)"
  shows "head_active dev' = head_active dev"
proof
  fix i :: u32
  have "length (md_heads dev') = MAX_HEADS" using assms by (metis length_map)
  moreover have "head_core (md_heads dev' ! unat i) = head_core (md_heads dev ! unat i)"
    if "unat i < MAX_HEADS" using that assms calculation by (metis nth_map)
  ultimately show "head_active dev' i = head_active dev i"
    by (auto simp: head_active_def head_core_def)
qed

lemma mhsld_frame_active:
  "mhsld_frame dev dev' \<Longrightarrow> heads_ok dev \<Longrightarrow> head_active dev' = head_active dev"
  by (rule head_active_core) (simp_all add: heads_ok_def mhsld_frame_def)

lemma head_active_small: "head_active dev n \<Longrightarrow> n \<noteq> UINT32_MAX"
  using unat_UINT32_MAX by (auto simp: head_active_def)

lemma head_at_active: "heads_ok dev \<Longrightarrow> head_active dev n \<Longrightarrow> head_at dev n = Some (md_heads dev ! unat n)"
  by (simp add: head_at_def head_active_def heads_ok_def)

lemma collect_active_all:
  assumes "heads_ok dev"
  shows "\<forall>n \<in> set ns. head_active dev n \<Longrightarrow>
     collect_active dev ex ns = Some (filter (\<lambda>n. n \<noteq> ex) ns)"
  by (induction ns) (auto simp: head_at_active [OF assms] head_active_def)

lemma invalidate_loop_frame: "mhsld_frame dev (snd (invalidate_loop dev ns mx gap))"
proof (induction ns arbitrary: dev mx gap)
  case (Cons n ns)
  let ?d = "update_head dev n (\<lambda>h. h\<lparr>hs_back_invalidations := hs_back_invalidations h + 1\<rparr>)"
  let ?d2 = "?d\<lparr>md_total_invalidations := md_total_invalidations ?d + 1,
    md_total_coherency_messages := md_total_coherency_messages ?d + 1\<rparr>"
  have "mhsld_frame dev ?d2" by simp
  from mhsld_frame_trans [OF this Cons.IH] show ?case by (simp add: Let_def)
qed simp

lemma update_head_fields [simp]:
  "md_directory (update_head dev i f) = md_directory dev"
  "md_logp_model (update_head dev i f) = md_logp_model dev"
  "md_base_read_latency (update_head dev i f) = md_base_read_latency dev"
  "md_base_write_latency (update_head dev i f) = md_base_write_latency dev"
  by (simp_all add: update_head_def)

lemma record_access_directory [simp]: "md_directory (record_access dev n l) = md_directory dev"
  by (simp add: record_access_def)

lemma invalidate_loop_directory [simp]:
  "md_directory (snd (invalidate_loop dev ns mx gap)) = md_directory dev"
  by (induction ns arbitrary: dev mx gap) (simp_all add: Let_def)

lemma invalidate_loop_latency:
  assumes "ns \<noteq> []" "lm_config (md_logp_model dev) = cfg" "0 \<le> lp_g cfg"
  shows "fst (invalidate_loop dev ns mx gap) =
    max mx (gap + real (length ns - 1) * lp_g cfg + lp_L cfg + lp_o_r cfg)"
  using assms
proof (induction ns arbitrary: dev mx gap)
  case (Cons n ns)
  let ?d = "update_head dev n (\<lambda>h. h\<lparr>hs_back_invalidations := hs_back_invalidations h + 1\<rparr>)"
  let ?d2 = "?d\<lparr>md_total_invalidations := md_total_invalidations ?d + 1,
    md_total_coherency_messages := md_total_coherency_messages ?d + 1\<rparr>"
  have m: "lm_config (md_logp_model ?d2) = cfg" using Cons.prems by (simp add: update_head_def)
  have step: "invalidate_loop dev (n # ns) mx gap =
      invalidate_loop ?d2 ns (max mx (gap + lp_L cfg + lp_o_r cfg)) (gap + lp_g cfg)"
    using Cons.prems by (simp add: Let_def)
  show ?case
  proof (cases "ns = []")
    case True
    then show ?thesis unfolding step by simp
  next
    case False
    then obtain k where k: "length ns = Suc k" by (cases ns) auto
    have kg: "0 \<le> real k * lp_g cfg" using Cons.prems(3) by simp
    show ?thesis
      unfolding step Cons.IH [OF False m Cons.prems(3)] k list.size
      by (simp add: ring_distribs) (use kg Cons.prems(3) in linarith)
  qed
qed simp

lemma store_entry_fields [frame_simps]:
  "md_directory (store_entry dev addr info) = (md_directory dev)(cl_align addr \<mapsto> info)"
  "md_heads (store_entry dev addr info) = md_heads dev"
  "md_logp_model (store_entry dev addr info) = md_logp_model dev"
  "md_base_read_latency (store_entry dev addr info) = md_base_read_latency dev"
  "md_base_write_latency (store_entry dev addr info) = md_base_write_latency dev"
  "md_total_coherency_messages (store_entry dev addr info) = md_total_coherency_messages dev"
  "heads_ok (store_entry dev addr info) = heads_ok dev"
  "head_active (store_entry dev addr info) = head_active dev"
  by (simp_all add: store_entry_def heads_ok_def head_active_def fun_eq_iff)

lemma mhsld_frame_store [simp]:
  "mhsld_frame a (store_entry dev addr info) = mhsld_frame a dev"
  "mhsld_frame (store_entry dev addr info) b = mhsld_frame dev b"
  by (simp_all add: mhsld_frame_def frame_simps)

text \<open>
  Where every sharer is an active head, invalidating sharers does not fail: it empties the entry's
  sharers and charges one message time plus a gap for every further sharer.
\<close>

lemma invalidation_cost_nonneg: "logp_config_ok cfg \<Longrightarrow> 0 \<le> invalidation_cost cfg k"
  by (simp add: invalidation_cost_def logp_config_ok_def)

lemma mhsld_invalidate_split:
  assumes hd: "heads_ok dev" and lp: "logp_ok (md_logp_model dev)"
    and e: "get_entry dev addr = Some info" and act: "\<forall>n \<in> ci_sharers info. head_active dev n"
  obtains dev1 where "mhsld_frame dev dev1" "md_directory dev1 = md_directory dev"
    "invalidate_sharers dev addr n ts =
       Some (invalidation_cost (lm_config (md_logp_model dev)) (card (ci_sharers info - {n})),
         store_entry dev1 addr (info\<lparr>ci_sharers := {}\<rparr>))"
proof -
  let ?ns = "filter (\<lambda>m. m \<noteq> n) (sorted_list_of_set (ci_sharers info))"
  let ?r = "invalidate_loop dev ?ns 0 0"
  have fin: "finite (ci_sharers info)" by simp
  have len: "length ?ns = card (ci_sharers info - {n})"
  proof -
    have "set ?ns = ci_sharers info - {n}" by auto
    moreover have "distinct ?ns" by simp
    ultimately show ?thesis by (metis distinct_card)
  qed
  have coll: "collect_active dev n (sorted_list_of_set (ci_sharers info)) = Some ?ns"
    using collect_active_all [OF hd] act by simp
  have fr: "mhsld_frame dev (snd ?r)" by (rule invalidate_loop_frame)
  have cfg: "logp_config_ok (lm_config (md_logp_model dev))" using lp by (simp add: logp_ok_def)
  have "fst ?r + (if ?ns \<noteq> [] then lp_o_s (lm_config (md_logp_model (snd ?r))) else 0) =
      invalidation_cost (lm_config (md_logp_model dev)) (card (ci_sharers info - {n}))"
  proof (cases "?ns = []")
    case True
    then have "card (ci_sharers info - {n}) = 0" using len by simp
    with True show ?thesis by (simp only: invalidation_cost_def) simp
  next
    case False
    then have "card (ci_sharers info - {n}) \<noteq> 0" using len by (metis length_0_conv)
    moreover have "fst ?r = real (length ?ns - 1) * lp_g (lm_config (md_logp_model dev))
        + lp_L (lm_config (md_logp_model dev)) + lp_o_r (lm_config (md_logp_model dev))"
      using invalidate_loop_latency [of ?ns dev _ 0 0] False cfg by (simp add: logp_config_ok_def)
    ultimately show ?thesis
      using False fr len by (simp add: invalidation_cost_def mhsld_frame_def)
  qed
  then have "invalidate_sharers dev addr n ts =
     Some (invalidation_cost (lm_config (md_logp_model dev)) (card (ci_sharers info - {n})),
       store_entry (snd ?r) addr (info\<lparr>ci_sharers := {}\<rparr>))"
    using e coll by (simp add: invalidate_sharers_def Let_def split_beta split: if_splits)
  with fr show thesis by (intro that) simp_all
qed

lemma share_delay_nonneg: "0 \<le> b \<Longrightarrow> 0 < f \<Longrightarrow> f \<le> 1 \<Longrightarrow> 0 \<le> b * (1 / f - 1) * (3 / 10 :: real)"
  by simp

lemma contention_range:
  assumes "heads_ok dev" "0 \<le> md_base_read_latency dev"
  shows "0 \<le> calculate_contention_latency dev h ts"
    and "calculate_contention_latency dev h ts \<le> 5 * md_base_read_latency dev"
proof -
  have share: "0 \<le> hs_bandwidth_share (md_heads dev ! unat h)" "hs_bandwidth_share (md_heads dev ! unat h) \<le> 1"
    if "head_active dev h"
    using that assms(1) by (auto simp: heads_ok_def head_active_def)
  show "0 \<le> calculate_contention_latency dev h ts"
    using share assms(2)
    by (auto simp: calculate_contention_latency_def Let_def min_le_iff_disj not_le
        intro!: min.boundedI share_delay_nonneg)
  show "calculate_contention_latency dev h ts \<le> 5 * md_base_read_latency dev"
    using assms(2) by (auto simp: calculate_contention_latency_def Let_def min_le_iff_disj)
qed

section \<open>Reads\<close>

lemma read_miss_frame:
  assumes "read_miss dev info h ts = (lat, info', dev')"
  shows "mhsld_frame dev dev'" "ci_address info' = ci_address info"
    "md_directory dev' = md_directory dev" "ci_version info' = ci_version info"
    "logp_ok (md_logp_model dev) \<Longrightarrow> 0 \<le> lat"
  using assms logp_channel.transmit_nonneg [of "md_logp_model dev" ts "ci_owner_head info"]
  by (auto simp: read_miss_def Let_def split_beta split: MHSLDCacheState.splits if_splits)

lemma read_miss_entry:
  assumes tr: "read_miss dev info h ts = (lat, info', dev')" and ok: "info_ok act info"
    and h: "act h" "h \<noteq> UINT32_MAX" "h \<notin> ci_sharers info"
    and own: "\<not> (ci_owner_head info = h \<and> (ci_owner_state info = EXCLUSIVE
      \<or> ci_owner_state info = MODIFIED \<or> ci_owner_state info = OWNED))"
  shows "info_ok act info' \<and> info_perm info' = spec_read h (info_perm info)"
proof -
  let ?share = "info\<lparr>ci_sharers := insert h (ci_sharers info)\<rparr>"
  note defs = info_ok_def moesi_entry_ok_def info_perm_def
  consider (invalid) "ci_owner_state info = INVALID"
    "info' = ?share\<lparr>ci_owner_state := SHARED, ci_owner_head := h\<rparr>"
    | (shared) "ci_owner_state info = SHARED" "info' = ?share"
    | (modified) "ci_owner_state info = MODIFIED" "ci_owner_head info \<noteq> h"
      "info' = info\<lparr>ci_owner_state := OWNED, ci_sharers := insert h (ci_sharers info)\<rparr>"
    | (owned) "ci_owner_state info = OWNED" "ci_owner_head info \<noteq> h" "info' = ?share"
    using tr own ok
    by (cases "ci_owner_state info") (auto simp: read_miss_def Let_def split_beta info_ok_def)
  then show ?thesis
  proof cases
    case invalid
    with ok h show ?thesis by (simp add: defs moesi_read_shared [of _ _ _ _ h])
  next
    case shared
    with ok h show ?thesis by (simp add: defs moesi_read_shared [of _ _ _ _ "ci_owner_head info"])
  next
    case modified
    with ok h show ?thesis by (simp add: defs moesi_read_modified)
  next
    case owned
    with ok h show ?thesis by (simp add: defs moesi_read_owned)
  qed
qed

lemma get_or_create_eq:
  "get_or_create_entry dev addr =
     (info_at dev (cl_align addr), store_entry dev addr (info_at dev (cl_align addr)))"
  by (auto simp: get_or_create_entry_def info_at_def store_entry_def Let_def fun_upd_idem
      split: option.splits)

lemma info_at_ok:
  assumes "mhsld_inv dev" "cl_align l = l"
  shows "info_ok (head_active dev) (info_at dev l)" "ci_address (info_at dev l) = l"
  using assms
  by (auto simp: info_at_def mhsld_inv_def info_ok_def moesi_entry_ok_def
      new_MHSLDCachelineInfo_def split: option.splits)

lemma info_counters [simp]:
  "info_ok act (info\<lparr>ci_access_count := c\<rparr>) = info_ok act info"
  "info_ok act (info\<lparr>ci_last_access_time := t\<rparr>) = info_ok act info"
  "info_ok act (info\<lparr>ci_version := v\<rparr>) = info_ok act info"
  "info_perm (info\<lparr>ci_access_count := c\<rparr>) = info_perm info"
  "info_perm (info\<lparr>ci_last_access_time := t\<rparr>) = info_perm info"
  "info_perm (info\<lparr>ci_version := v\<rparr>) = info_perm info"
  by (simp_all add: info_ok_def info_perm_def)

lemma access_result_inv:
  assumes inv: "mhsld_inv dev" and r: "access_result dev addr base info cost lat dev'"
    and ok: "info_ok (head_active dev) info" "ci_address info = cl_align addr"
  shows "mhsld_inv dev'" "head_active dev' = head_active dev"
    "head_perm dev' l = (if l = cl_align addr then info_perm info else head_perm dev l)"
proof -
  have fr: "mhsld_frame dev dev'" and dir: "md_directory dev' = (md_directory dev)(cl_align addr \<mapsto> info)"
    using r by (auto simp: access_result_def)
  have hok: "heads_ok dev" using inv by (simp add: mhsld_inv_def)
  show act: "head_active dev' = head_active dev"
    using fr hok by (rule mhsld_frame_active)
  show "head_perm dev' l = (if l = cl_align addr then info_perm info else head_perm dev l)"
    by (simp add: head_perm_def info_at_def dir)
  show "mhsld_inv dev'"
    using inv ok fr mhsld_frame_heads_ok [OF fr hok]
    by (simp add: mhsld_inv_def act dir mhsld_frame_def)
qed

lemma read_active:
  assumes inv: "mhsld_inv dev" and h: "head_active dev h"
  obtains info cost lat dev' where "read_with_coherency dev h addr ts = (lat, dev')"
    "access_result dev addr (md_base_read_latency dev) info cost lat dev'"
    "info_ok (head_active dev) info" "ci_address info = cl_align addr"
    "info_perm info = spec_read h (head_perm dev (cl_align addr))"
    "ci_version info = ci_version (info_at dev (cl_align addr))"
proof -
  let ?l = "cl_align addr"
  let ?old = "info_at dev ?l" and ?base = "md_base_read_latency dev"
  let ?i = "?old\<lparr>ci_access_count := ci_access_count ?old + 1, ci_last_access_time := ts\<rparr>"
  let ?d0 = "store_entry dev addr ?old"
  let ?d1 = "update_head ?d0 h (\<lambda>h. h\<lparr>hs_total_reads := hs_total_reads h + 1\<rparr>)"
  let ?hit = "ci_owner_head ?i = h \<and> (ci_owner_state ?i = EXCLUSIVE \<or> ci_owner_state ?i = MODIFIED
      \<or> ci_owner_state ?i = OWNED) \<or> h \<in> ci_sharers ?i"
  have ok: "info_ok (head_active dev) ?i" "ci_address ?i = ?l"
    using info_at_ok [OF inv, of ?l] by simp_all
  have h': "h \<noteq> UINT32_MAX" using h by (rule head_active_small)
  have hok: "heads_ok ?d0" and lp: "logp_ok (md_logp_model ?d0)" and b: "0 \<le> ?base"
    using inv by (simp_all add: mhsld_inv_def frame_simps)
  have fr1: "mhsld_frame ?d0 ?d1" by simp
  have cont: "0 \<le> calculate_contention_latency d h ts \<and> calculate_contention_latency d h ts \<le> 5 * ?base"
    if "mhsld_frame ?d0 d" for d
    using contention_range [OF mhsld_frame_heads_ok [OF that hok], of h ts] that b
    by (simp add: mhsld_frame_def frame_simps)
  show thesis
  proof (cases ?hit)
    case True
    have eq: "read_with_coherency dev h addr ts =
        (?base + calculate_contention_latency ?d1 h ts, store_entry ?d1 addr ?i)"
      using True h by (auto simp: read_with_coherency_def get_or_create_eq Let_def)
    show thesis
    proof (rule that [OF eq _ ok])
      show "access_result dev addr ?base ?i 0 (?base + calculate_contention_latency ?d1 h ts)
          (store_entry ?d1 addr ?i)"
        using cont [OF fr1] by (simp add: access_result_def frame_simps)
      show "info_perm ?i = spec_read h (head_perm dev ?l)"
        using True by (simp add: head_perm_def info_perm_def moesi_read_hit)
    qed simp
  next
    case False
    obtain cost info dev2 where miss: "read_miss ?d1 ?i h ts = (cost, info, dev2)"
      by (cases "read_miss ?d1 ?i h ts")
    let ?lat = "?base + cost + calculate_contention_latency dev2 h ts"
    let ?d3 = "record_access dev2 h ?lat"
    note fr = mhsld_frame_trans [OF fr1 read_miss_frame(1) [OF miss]]
    have cost: "0 \<le> cost"
      using read_miss_frame(5) [OF miss] lp fr1 by (simp add: mhsld_frame_def)
    have eq: "read_with_coherency dev h addr ts = (?lat, store_entry ?d3 addr info)"
      using False h miss by (auto simp: read_with_coherency_def get_or_create_eq Let_def)
    have res: "info_ok (head_active dev) info \<and> info_perm info = spec_read h (info_perm ?i)"
      by (rule read_miss_entry [OF miss ok(1) h h']) (use False in blast)+
    show thesis
    proof (rule that [OF eq])
      show "access_result dev addr ?base info cost ?lat (store_entry ?d3 addr info)"
        using mhsld_frame_record [OF fr] cont [OF fr] cost read_miss_frame(3) [OF miss]
        by (simp add: access_result_def frame_simps)
    qed (use res ok(2) read_miss_frame(2,4) [OF miss] in \<open>simp_all add: head_perm_def\<close>)
  qed
qed

section \<open>Writes\<close>

lemma info_ok_sharers: "info_ok act info \<Longrightarrow> \<forall>n \<in> ci_sharers info. act n"
  by (simp add: info_ok_def)

lemma write_acquire_split:
  assumes hok: "heads_ok dev" and lp: "logp_ok (md_logp_model dev)"
    and e: "get_entry dev addr = Some info" and ok: "info_ok (head_active dev) info"
  obtains cost dev2 sh where "write_acquire dev info addr h ts = Some (cost, dev2)"
    "mhsld_frame dev dev2" "0 \<le> cost"
    "md_directory dev2 = (md_directory dev)(cl_align addr \<mapsto> info\<lparr>ci_sharers := sh\<rparr>)"
    "ci_owner_state info = SHARED \<longrightarrow>
       cost = invalidation_cost (lm_config (md_logp_model dev)) (card (ci_sharers info - {h}))"
proof -
  let ?own = "ci_owner_head info" and ?cfg = "lm_config (md_logp_model dev)"
  have nonneg: "0 \<le> invalidation_cost ?cfg k" for k
    using lp by (simp add: invalidation_cost_nonneg logp_ok_def)
  consider (invalid) "ci_owner_state info = INVALID" | (shared) "ci_owner_state info = SHARED"
    | (mine) "ci_owner_state info \<noteq> INVALID" "ci_owner_state info \<noteq> SHARED" "?own = h"
    | (other) "ci_owner_state info \<noteq> INVALID" "ci_owner_state info \<noteq> SHARED" "?own \<noteq> h"
    by blast
  then show thesis
  proof cases
    case invalid
    with e show thesis
      by (intro that [of 0 dev "ci_sharers info"])
        (simp_all add: write_acquire_def get_entry_def fun_upd_idem)
  next
    case shared
    obtain dev1 where "mhsld_frame dev dev1" "md_directory dev1 = md_directory dev"
      "invalidate_sharers dev addr h ts = Some (invalidation_cost ?cfg (card (ci_sharers info - {h})),
         store_entry dev1 addr (info\<lparr>ci_sharers := {}\<rparr>))"
      by (rule mhsld_invalidate_split [OF hok lp e info_ok_sharers [OF ok]])
    with shared nonneg show thesis
      by (intro that [of _ "store_entry dev1 addr (info\<lparr>ci_sharers := {}\<rparr>)" "{}"])
        (simp_all add: write_acquire_def frame_simps)
  next
    case mine
    obtain dev1 where "mhsld_frame dev dev1" "md_directory dev1 = md_directory dev"
      "invalidate_sharers dev addr h ts = Some (invalidation_cost ?cfg (card (ci_sharers info - {h})),
         store_entry dev1 addr (info\<lparr>ci_sharers := {}\<rparr>))"
      by (rule mhsld_invalidate_split [OF hok lp e info_ok_sharers [OF ok]])
    with mine nonneg show thesis
      by (intro that [of _ "store_entry dev1 addr (info\<lparr>ci_sharers := {}\<rparr>)" "{}"])
        (simp_all add: write_acquire_def frame_simps)
  next
    case other
    let ?m = "message_latency (md_logp_model dev) ts ?own"
    let ?b = "update_head (dev\<lparr>md_logp_model := snd ?m\<rparr>) ?own
      (\<lambda>h. h\<lparr>hs_back_invalidations := hs_back_invalidations h + 1\<rparr>)"
    let ?c = "?b\<lparr>md_total_writebacks := md_total_writebacks ?b
        + (if ci_owner_state info = MODIFIED \<or> ci_owner_state info = OWNED then 1 else 0),
      md_total_coherency_messages := md_total_coherency_messages ?b + 1\<rparr>"
    have fr: "mhsld_frame dev ?c" by simp
    have own: "head_active dev ?own"
      using ok other by (cases "ci_owner_state info") (auto simp: info_ok_def moesi_entry_ok_def)
    have hok1: "heads_ok ?c" using fr hok by (rule mhsld_frame_heads_ok)
    have act1: "head_active ?c = head_active dev" using fr hok by (rule mhsld_frame_active)
    have lp1: "logp_ok (md_logp_model ?c)" and cfg1: "lm_config (md_logp_model ?c) = ?cfg"
      using fr lp by (simp_all add: mhsld_frame_def)
    have e1: "get_entry ?c addr = Some info" using e by (simp add: get_entry_def)
    have sh1: "\<forall>n \<in> ci_sharers info. head_active ?c n"
      using info_ok_sharers [OF ok] unfolding act1 .
    obtain dev1 where inv: "mhsld_frame ?c dev1" "md_directory dev1 = md_directory ?c"
      "invalidate_sharers ?c addr h ts = Some (invalidation_cost ?cfg (card (ci_sharers info - {h})),
         store_entry dev1 addr (info\<lparr>ci_sharers := {}\<rparr>))"
      by (rule mhsld_invalidate_split [OF hok1 lp1 e1 sh1, of h ts, unfolded cfg1])
    have snoop: "0 \<le> fst ?m" using lp by (rule logp_channel.transmit_nonneg)
    have eq: "write_acquire dev info addr h ts = Some (fst ?m + invalidation_cost ?cfg
        (card (ci_sharers info - {h})), store_entry dev1 addr (info\<lparr>ci_sharers := {}\<rparr>))"
      using other inv(3) head_at_active [OF hok own]
      by (simp add: write_acquire_def Let_def split_beta)
    show thesis
      by (rule that [OF eq, of "{}"])
        (use mhsld_frame_trans [OF fr inv(1)] inv(2) nonneg snoop other in \<open>simp_all add: frame_simps\<close>)
  qed
qed

lemma write_active:
  assumes inv: "mhsld_inv dev" and h: "head_active dev h"
  obtains info cost lat dev' where "write_with_coherency dev h addr ts = Some (lat, dev')"
    "access_result dev addr (md_base_write_latency dev) info cost lat dev'"
    "info_ok (head_active dev) info" "ci_address info = cl_align addr"
    "info_perm info = spec_write h (head_perm dev (cl_align addr))"
    "ci_version info = ci_version (info_at dev (cl_align addr)) + 1"
    "ci_owner_state (info_at dev (cl_align addr)) = SHARED \<longrightarrow>
       cost = invalidation_cost (lm_config (md_logp_model dev))
         (card (ci_sharers (info_at dev (cl_align addr)) - {h}))"
proof -
  let ?l = "cl_align addr"
  let ?old = "info_at dev ?l" and ?base = "md_base_write_latency dev"
  let ?i = "?old\<lparr>ci_access_count := ci_access_count ?old + 1, ci_last_access_time := ts,
    ci_version := ci_version ?old + 1\<rparr>"
  let ?d = "store_entry (update_head (store_entry dev addr ?old) h
      (\<lambda>h. h\<lparr>hs_total_writes := hs_total_writes h + 1\<rparr>)) addr ?i"
  let ?cfg = "lm_config (md_logp_model dev)"
  have fr: "mhsld_frame dev ?d" by simp
  have dir: "md_directory ?d = (md_directory dev)(?l \<mapsto> ?i)" by (simp add: frame_simps)
  have ok: "info_ok (head_active dev) ?i" "ci_address ?i = ?l"
    using info_at_ok [OF inv, of ?l] by simp_all
  have h': "h \<noteq> UINT32_MAX" using h by (rule head_active_small)
  have hok0: "heads_ok dev" and b: "0 \<le> md_base_read_latency dev" and lp0: "logp_ok (md_logp_model dev)"
    using inv by (simp_all add: mhsld_inv_def)
  have hok: "heads_ok ?d" using fr hok0 by (rule mhsld_frame_heads_ok)
  have act: "head_active ?d = head_active dev" using fr hok0 by (rule mhsld_frame_active)
  have lp: "logp_ok (md_logp_model ?d)" and cfg: "lm_config (md_logp_model ?d) = ?cfg"
    using fr lp0 by (simp_all add: mhsld_frame_def)
  have e: "get_entry ?d addr = Some ?i" by (simp add: get_entry_def dir)
  have sh: "\<forall>n \<in> ci_sharers ?i. head_active ?d n"
    using info_ok_sharers [OF ok(1)] unfolding act .
  have cont: "0 \<le> calculate_contention_latency d h ts
      \<and> calculate_contention_latency d h ts \<le> 5 * md_base_read_latency dev"
    if "mhsld_frame dev d" for d
    using contention_range [OF mhsld_frame_heads_ok [OF that hok0], of h ts] that b
    by (simp add: mhsld_frame_def)
  have final: "info_ok (head_active dev) j \<and> ci_address j = ?l \<and> info_perm j = spec_write h p
      \<and> ci_version j = ci_version ?old + 1"
    if "j = ?i\<lparr>ci_owner_head := h, ci_owner_state := MODIFIED, ci_sharers := {}, ci_has_dirty_data := True\<rparr>"
    for j p
    using that h h' ok(2) by (simp add: info_ok_def moesi_entry_ok_def info_perm_def moesi_write)
  consider (hit) "ci_owner_head ?i = h" "ci_owner_state ?i = EXCLUSIVE \<or> ci_owner_state ?i = MODIFIED"
    | (owned) "ci_owner_head ?i = h" "ci_owner_state ?i = OWNED"
    | (miss) "\<not> (ci_owner_head ?i = h
        \<and> (ci_owner_state ?i = EXCLUSIVE \<or> ci_owner_state ?i = MODIFIED \<or> ci_owner_state ?i = OWNED))"
    by blast
  then show thesis
  proof cases
    case hit
    let ?j = "?i\<lparr>ci_owner_state := MODIFIED, ci_has_dirty_data := True\<rparr>"
    have j: "?j = ?i\<lparr>ci_owner_head := h, ci_owner_state := MODIFIED, ci_sharers := {},
        ci_has_dirty_data := True\<rparr>"
      using hit ok(1) by (auto simp: info_ok_def moesi_entry_ok_def)
    have "write_with_coherency dev h addr ts =
        Some (?base + calculate_contention_latency ?d h ts, store_entry ?d addr ?j)"
      using hit h by (auto simp: write_with_coherency_def get_or_create_eq Let_def)
    then show thesis
      using final [OF j] cont [OF fr] hit
      by (intro that [of _ _ ?j 0]) (auto simp: access_result_def frame_simps)
  next
    case owned
    let ?j = "?i\<lparr>ci_sharers := {}, ci_owner_state := MODIFIED, ci_has_dirty_data := True\<rparr>"
    have j: "?j = ?i\<lparr>ci_owner_head := h, ci_owner_state := MODIFIED, ci_sharers := {},
        ci_has_dirty_data := True\<rparr>"
      using owned by simp
    let ?cost = "invalidation_cost ?cfg (card (ci_sharers ?i - {h}))"
    obtain dev1 where s: "mhsld_frame ?d dev1" "md_directory dev1 = md_directory ?d"
      "invalidate_sharers ?d addr h ts =
         Some (?cost, store_entry dev1 addr (?i\<lparr>ci_sharers := {}\<rparr>))"
      by (rule mhsld_invalidate_split [OF hok lp e sh, of h ts, unfolded cfg])
    let ?e = "store_entry dev1 addr (?i\<lparr>ci_sharers := {}\<rparr>)"
    have fr1: "mhsld_frame dev ?e" using mhsld_frame_trans [OF fr s(1)] by simp
    have eq: "write_with_coherency dev h addr ts =
        Some (?base + ?cost + calculate_contention_latency ?e h ts, store_entry ?e addr ?j)"
      using owned h s(3) by (simp add: write_with_coherency_def get_or_create_eq Let_def get_entry_def
          frame_simps)
    have "0 \<le> ?cost" using lp0 by (simp add: invalidation_cost_nonneg logp_ok_def)
    then have "access_result dev addr ?base ?j ?cost
        (?base + ?cost + calculate_contention_latency ?e h ts) (store_entry ?e addr ?j)"
      using cont [OF fr1] s(2) fr1 by (simp add: access_result_def frame_simps)
    then show thesis
      by (rule that [OF eq]) (use final [OF j] owned in simp_all)
  next
    case miss
    obtain cost dev2 sh where a: "write_acquire ?d ?i addr h ts = Some (cost, dev2)"
      "mhsld_frame ?d dev2" "0 \<le> cost"
      "md_directory dev2 = (md_directory ?d)(?l \<mapsto> ?i\<lparr>ci_sharers := sh\<rparr>)"
      "ci_owner_state ?i = SHARED \<longrightarrow>
         cost = invalidation_cost (lm_config (md_logp_model ?d)) (card (ci_sharers ?i - {h}))"
      by (rule write_acquire_split [OF hok lp e ok(1) [folded act], of h ts])
    let ?j = "?i\<lparr>ci_sharers := sh, ci_owner_head := h, ci_owner_state := MODIFIED, ci_sharers := {},
      ci_has_dirty_data := True\<rparr>"
    have j: "?j = ?i\<lparr>ci_owner_head := h, ci_owner_state := MODIFIED, ci_sharers := {},
        ci_has_dirty_data := True\<rparr>" by simp
    let ?e = "update_head dev2 h (\<lambda>h. h\<lparr>hs_coherency_stalls :=
      hs_coherency_stalls h + (if cost > 0 then 1 else 0)\<rparr>)"
    let ?lat = "?base + cost + calculate_contention_latency ?e h ts"
    have fr2: "mhsld_frame dev ?e" using mhsld_frame_trans [OF fr a(2)] by simp
    have eq: "write_with_coherency dev h addr ts =
        Some (?lat, store_entry (record_access ?e h ?lat) addr ?j)"
      using miss h a(1,4) by (auto simp: write_with_coherency_def get_or_create_eq Let_def get_entry_def)
    have "access_result dev addr ?base ?j cost ?lat (store_entry (record_access ?e h ?lat) addr ?j)"
      using mhsld_frame_record [OF fr2] cont [OF fr2] a(3,4) by (simp add: access_result_def frame_simps)
    then show thesis
      by (rule that [OF eq]) (use final [OF j] a(5) cfg in simp_all)
  qed
qed

section \<open>Heads\<close>

lemma total_alloc_exact:
  assumes "heads_ok dev"
  shows "unat (sum_list (map hs_allocated_capacity (filter hs_active (md_heads dev)))) =
    sum_list (map (\<lambda>h. unat (hs_allocated_capacity h)) (filter hs_active (md_heads dev)))"
proof -
  let ?xs = "filter hs_active (md_heads dev)"
  have "\<forall>h \<in> set ?xs. unat (hs_allocated_capacity h) < 2 ^ 60"
    using assms by (auto simp: heads_ok_def word_less_nat_alt)
  moreover have "length ?xs \<le> MAX_HEADS"
    using assms length_filter_le [of hs_active "md_heads dev"] by (simp add: heads_ok_def)
  ultimately have "sum_list (map (\<lambda>h. unat (hs_allocated_capacity h)) ?xs) < MAX_HEADS * 2 ^ 60"
    by (intro sum_list_less) simp_all
  then show ?thesis using unat_sum_list [of "map hs_allocated_capacity ?xs"] by (simp add: o_def)
qed

lemma rebalance_fields [frame_simps]:
  "md_directory (rebalance_bandwidth dev) = md_directory dev"
  "md_logp_model (rebalance_bandwidth dev) = md_logp_model dev"
  "md_base_read_latency (rebalance_bandwidth dev) = md_base_read_latency dev"
  "md_base_write_latency (rebalance_bandwidth dev) = md_base_write_latency dev"
  by (simp_all add: rebalance_bandwidth_def Let_def)

lemma rebalance_heads:
  "map (\<lambda>h. (hs_active h, hs_allocated_capacity h)) (md_heads (rebalance_bandwidth dev)) =
     map (\<lambda>h. (hs_active h, hs_allocated_capacity h)) (md_heads dev)"
  by (simp add: rebalance_bandwidth_def Let_def)

lemma rebalance_active:
  assumes "length (md_heads dev) = MAX_HEADS"
  shows "head_active (rebalance_bandwidth dev) = head_active dev"
  using assms by (auto simp: head_active_def rebalance_bandwidth_def Let_def fun_eq_iff
      split: if_splits)

lemma rebalance_share:
  assumes ok: "heads_ok dev" and h: "h \<in> set (md_heads (rebalance_bandwidth dev))"
  shows "hs_allocated_capacity h < 2 ^ 60 \<and> 0 \<le> hs_bandwidth_share h \<and> hs_bandwidth_share h \<le> 1"
proof (cases "filter hs_active (md_heads dev) = []")
  case True
  then show ?thesis using ok h by (auto simp: rebalance_bandwidth_def heads_ok_def)
next
  case False
  let ?act = "filter hs_active (md_heads dev)"
  let ?tot = "sum_list (map hs_allocated_capacity ?act)"
  have le: "double_of_u64 (hs_allocated_capacity g) \<le> double_of_u64 ?tot"
    if "g \<in> set (md_heads dev)" "hs_active g" for g
  proof -
    have "unat (hs_allocated_capacity g) \<in> set (map (\<lambda>h. unat (hs_allocated_capacity h)) ?act)"
      using that by auto
    then have "unat (hs_allocated_capacity g) \<le>
        sum_list (map (\<lambda>h. unat (hs_allocated_capacity h)) ?act)"
      by (rule member_le_sum_list) simp
    then show ?thesis
      unfolding double_of_u64_def total_alloc_exact [OF ok] by (rule of_nat_mono)
  qed
  have pos: "0 < double_of_u64 ?tot" if "0 < ?tot"
    using that double_of_u64_less_iff [of 0 ?tot] by simp
  have "1 / real (length ?act) \<le> 1" using False by (cases ?act) auto
  then show ?thesis
    using ok h False le pos
    by (auto simp: rebalance_bandwidth_def Let_def heads_ok_def)
qed

lemma rebalance_heads_ok:
  assumes ok: "heads_ok dev"
  shows "heads_ok (rebalance_bandwidth dev)"
proof -
  have "length (md_heads (rebalance_bandwidth dev)) = MAX_HEADS"
    using ok arg_cong [OF rebalance_heads [of dev], of length] by (simp add: heads_ok_def)
  then show ?thesis
    unfolding heads_ok_def using rebalance_share [OF ok] by blast
qed

text \<open>Replacing one head by one with a small capacity and a legal share keeps the heads well-formed.\<close>

lemma update_head_ok:
  assumes "heads_ok dev" "unat i < MAX_HEADS"
    and "hs_allocated_capacity (f (md_heads dev ! unat i)) < 2 ^ 60"
    and "0 \<le> hs_bandwidth_share (f (md_heads dev ! unat i))"
    and "hs_bandwidth_share (f (md_heads dev ! unat i)) \<le> 1"
  shows "heads_ok (update_head dev i f)"
  using assms
  by (auto simp: heads_ok_def update_head_def dest!: set_update_subset_insert [THEN subsetD])

lemma update_head_active:
  assumes "length (md_heads dev) = MAX_HEADS" "unat i < MAX_HEADS"
  shows "head_active (update_head dev i f) n =
    (if n = i then hs_active (f (md_heads dev ! unat i)) else head_active dev n)"
  using assms by (auto simp: head_active_def update_head_def nth_list_update word_unat_eq_iff)

lemma info_ok_mono: "info_ok act info \<Longrightarrow> (\<And>n. act n \<Longrightarrow> act' n) \<Longrightarrow> info_ok act' info"
  by (auto simp: info_ok_def)

lemma drop_head_ok: "info_ok act info \<Longrightarrow> info_ok (\<lambda>n. act n \<and> n \<noteq> h) (drop_head h info)"
  by (auto simp: info_ok_def moesi_entry_ok_def drop_head_def Let_def)

lemma mhsld_inv_activate:
  assumes inv: "mhsld_inv dev" and c: "c < 2 ^ 60"
  shows "mhsld_inv (snd (activate_head dev h c))"
proof (cases "unat h < MAX_HEADS")
  case True
  let ?d = "update_head dev h (\<lambda>h. h\<lparr>hs_active := True, hs_allocated_capacity := c, hs_used_capacity := 0\<rparr>)"
  have hok: "heads_ok dev" using inv by (simp add: mhsld_inv_def)
  then have "hs_bandwidth_share (md_heads dev ! unat h) \<le> 1" "0 \<le> hs_bandwidth_share (md_heads dev ! unat h)"
    using True by (auto simp: heads_ok_def)
  then have hok': "heads_ok ?d" using hok True c by (intro update_head_ok) simp_all
  have act: "head_active (rebalance_bandwidth ?d) = (\<lambda>n. n = h \<or> head_active dev n)"
    using rebalance_active [of ?d] update_head_active [of dev h] hok hok' True
    by (auto simp: heads_ok_def fun_eq_iff)
  have eq: "snd (activate_head dev h c) = rebalance_bandwidth ?d"
    using True by (simp add: activate_head_def)
  show ?thesis
    unfolding eq using inv rebalance_heads_ok [OF hok']
    by (auto simp: mhsld_inv_def frame_simps act intro: info_ok_mono)
qed (use inv in \<open>simp add: activate_head_def\<close>)

lemma mhsld_inv_deactivate:
  assumes inv: "mhsld_inv dev"
  shows "mhsld_inv (deactivate_head dev h)"
proof (cases "unat h < MAX_HEADS")
  case True
  let ?u = "update_head dev h (\<lambda>h. h\<lparr>hs_active := False, hs_bandwidth_share := 0\<rparr>)"
  let ?d = "?u\<lparr>md_directory := map_option (drop_head h) \<circ> md_directory dev\<rparr>"
  have hok: "heads_ok dev" using inv by (simp add: mhsld_inv_def)
  then have "hs_allocated_capacity (md_heads dev ! unat h) < 2 ^ 60"
    using True by (auto simp: heads_ok_def)
  then have hok': "heads_ok ?u" using hok True by (intro update_head_ok) simp_all
  then have hok2: "heads_ok ?d" by (simp add: heads_ok_def)
  have "head_active ?d = head_active ?u" by (simp add: head_active_def fun_eq_iff)
  then have act: "head_active (rebalance_bandwidth ?d) = (\<lambda>n. head_active dev n \<and> n \<noteq> h)"
    using rebalance_active [of ?d] update_head_active [of dev h] hok hok' True
    by (auto simp: heads_ok_def fun_eq_iff)
  have eq: "deactivate_head dev h = rebalance_bandwidth ?d"
    using True by (simp add: deactivate_head_def Let_def)
  have "ci_address (drop_head h info) = ci_address info" for info
    by (simp add: drop_head_def Let_def)
  then show ?thesis
    unfolding eq using inv rebalance_heads_ok [OF hok2] drop_head_ok
    by (auto simp: mhsld_inv_def frame_simps act)
qed (use inv in \<open>simp add: deactivate_head_def\<close>)

lemma mhsld_inv_rebalance: "mhsld_inv dev \<Longrightarrow> mhsld_inv (rebalance_bandwidth dev)"
  using rebalance_heads_ok [of dev] rebalance_active [of dev]
  by (simp add: mhsld_inv_def frame_simps heads_ok_def)

lemma mhsld_inv_used:
  assumes inv: "mhsld_inv dev" and h: "unat h < MAX_HEADS"
  shows "mhsld_inv (update_head dev h (\<lambda>x. x\<lparr>hs_used_capacity := u x\<rparr>))"
proof -
  have hok: "heads_ok dev" using inv by (simp add: mhsld_inv_def)
  moreover have "md_heads dev ! unat h \<in> set (md_heads dev)" using hok h by (simp add: heads_ok_def)
  ultimately have hok': "heads_ok (update_head dev h (\<lambda>x. x\<lparr>hs_used_capacity := u x\<rparr>))"
    using h by (intro update_head_ok) (auto simp: heads_ok_def)
  have "head_active (update_head dev h (\<lambda>x. x\<lparr>hs_used_capacity := u x\<rparr>)) = head_active dev"
    using update_head_active [of dev h] hok h by (auto simp: heads_ok_def head_active_def fun_eq_iff)
  then show ?thesis using inv hok' by (simp add: mhsld_inv_def)
qed

lemma mhsld_inv_allocate: "mhsld_inv dev \<Longrightarrow> mhsld_inv (snd (allocate_pool dev h sz))"
  by (simp add: allocate_pool_def Let_def mhsld_inv_used head_active_def)

section \<open>Releasing a pool\<close>

lemma mhsld_inv_store:
  assumes inv: "mhsld_inv dev" and i: "info_ok (head_active dev) info" "ci_address info = cl_align addr"
  shows "mhsld_inv (store_entry dev addr info)"
  using assms by (auto simp: mhsld_inv_def frame_simps)

lemma mhsld_inv_counters [simp]:
  "mhsld_inv (dev\<lparr>md_total_downgrades := i\<rparr>) = mhsld_inv dev"
  "mhsld_inv (dev\<lparr>md_total_coherency_messages := i\<rparr>) = mhsld_inv dev"
  "mhsld_inv (dev\<lparr>md_total_writebacks := i\<rparr>) = mhsld_inv dev"
  by (simp_all add: mhsld_inv_def heads_ok_def head_active_def [abs_def])

lemma mhsld_inv_logp:
  "mhsld_inv dev \<Longrightarrow> mhsld_inv (dev\<lparr>md_logp_model := snd (message_latency (md_logp_model dev) ts n)\<rparr>)"
  by (auto simp: mhsld_inv_def heads_ok_def head_active_def [abs_def])

lemma mhsld_inv_entry:
  "mhsld_inv dev \<Longrightarrow> get_entry dev addr = Some info \<Longrightarrow>
     info_ok (head_active dev) info \<and> ci_address info = cl_align addr"
  by (auto simp: mhsld_inv_def get_entry_def)

lemma mhsld_inv_release_line:
  assumes inv: "mhsld_inv dev"
  shows "mhsld_inv (release_line h cl dev)"
proof (cases "get_entry dev cl")
  case (Some info)
  then show ?thesis
    using mhsld_inv_entry [OF inv Some]
    by (auto simp: release_line_def Let_def info_ok_def moesi_entry_ok_def
        intro!: mhsld_inv_store [OF inv])
qed (simp add: release_line_def inv)

lemma release_line_perm:
  "head_perm (release_line h cl dev) l n =
     (if n = h \<and> l = cl_align cl then NoAccess else head_perm dev l n)"
proof (cases "get_entry dev cl")
  case None
  then have "head_perm dev (cl_align cl) n = NoAccess"
    by (simp add: get_entry_def head_perm_def info_at_def info_perm_def moesi_permissions_def
        new_MHSLDCachelineInfo_def)
  with None show ?thesis by (auto simp: release_line_def)
next
  case (Some info)
  then show ?thesis
    by (auto simp: release_line_def Let_def head_perm_def info_at_def info_perm_def get_entry_def
        moesi_permissions_def frame_simps)
qed

lemma release_line_heads [simp]: "md_heads (release_line h cl dev) = md_heads dev"
  by (simp add: release_line_def Let_def frame_simps split: option.splits)

text \<open>
  The loop over the released lines ends exactly when the region stays below the last line of the
  address space; then it has taken the head's access to every line of the region and nothing else.
\<close>

lemma release_loop_returns:
  "cl_align cl = cl \<Longrightarrow> e \<le> - 64 \<Longrightarrow> \<exists>dev'. release_loop h cl e dev = Some dev'"
proof (induction "unat e - unat cl" arbitrary: cl dev rule: less_induct)
  case less
  show ?case
  proof (cases "cl < e")
    case True
    note nxt = aligned_next [OF less.prems(1) True less.prems(2)]
    have "unat e - unat (cl + 64) < unat e - unat cl"
      using True by (simp add: nxt(1) word_nat_simps)
    from less.hyps [OF this nxt(2) less.prems(2)] True show ?thesis
      by (subst release_loop.simps) simp
  qed (subst release_loop.simps, simp)
qed

lemma release_loop_result:
  assumes "release_loop h cl e dev = Some dev'" "cl_align cl = cl"
  shows "e \<le> - 64 \<and> (mhsld_inv dev \<longrightarrow> mhsld_inv dev') \<and> md_heads dev' = md_heads dev
    \<and> (\<forall>l n. cl_align l = l \<longrightarrow> head_perm dev' l n =
         (if n = h \<and> cl \<le> l \<and> l < e then NoAccess else head_perm dev l n))"
  using assms
proof (induction rule: release_loop.raw_induct [rotated, consumes 1, case_names step])
  case (step loop h cl e dev dev')
  show ?case
  proof (cases "cl < e")
    case True
    then have loop: "loop h (cl + 64) e (release_line h cl dev) = Some dev'" using step(2) by simp
    have al: "cl_align (cl + 64) = cl + 64"
      using step(3) by (simp add: cl_align_aligned unat_word_ariths dvd_mod)
    note IH = step(1) [OF loop al]
    have "unat (cl + 64) = unat cl + 64"
      using aligned_next(1) [OF step(3) True] IH by blast
    then have between: "(cl \<le> l \<and> l < e) = (l = cl \<or> cl + 64 \<le> l \<and> l < e)" if "cl_align l = l" for l
      using aligned_gap [OF step(3) that] True by (auto simp: word_nat_simps word_unat_eq_iff)
    show ?thesis
      using IH mhsld_inv_release_line step(3) by (auto simp: release_line_perm between)
  next
    case False
    then show ?thesis using step(2,3) aligned_le_last [of cl] by auto
  qed
qed

section \<open>Reachable devices\<close>

lemma release_pool_returns:
  "mhsld_inv dev \<Longrightarrow> addr + sz \<le> - 64 \<Longrightarrow>
     \<exists>dev'. release_pool dev h addr sz = Some dev' \<and> mhsld_inv dev'"
proof (cases "head_active dev h")
  case True
  assume inv: "mhsld_inv dev" and e: "addr + sz \<le> - 64"
  obtain dev1 where dev1: "release_loop h (cl_align addr) (addr + sz) dev = Some dev1"
    using release_loop_returns [OF cl_align_idem e] by blast
  then have "mhsld_inv dev1" using release_loop_result [OF dev1] inv by simp
  then show ?thesis
    using True dev1 by (simp add: release_pool_def mhsld_inv_used head_active_def)
qed (simp add: release_pool_def)

lemma mhsld_inv_frame:
  assumes "mhsld_inv dev" "mhsld_frame dev dev'" "md_directory dev' = md_directory dev"
  shows "mhsld_inv dev'"
  using assms mhsld_frame_heads_ok [OF assms(2)] mhsld_frame_active [OF assms(2)]
  by (simp add: mhsld_inv_def mhsld_frame_def)

lemma mhsld_inv_invalidate:
  assumes inv: "mhsld_inv dev"
  shows "\<exists>lat dev'. invalidate_sharers dev addr h ts = Some (lat, dev') \<and> mhsld_inv dev'"
proof (cases "get_entry dev addr")
  case (Some info)
  have hok: "heads_ok dev" and lp: "logp_ok (md_logp_model dev)" using inv by (simp_all add: mhsld_inv_def)
  note info = mhsld_inv_entry [OF inv Some]
  have sh: "\<forall>n \<in> ci_sharers info. head_active dev n" using info by (simp add: info_ok_def)
  obtain dev1 where s: "mhsld_frame dev dev1" "md_directory dev1 = md_directory dev"
    "invalidate_sharers dev addr h ts =
       Some (invalidation_cost (lm_config (md_logp_model dev)) (card (ci_sharers info - {h})),
         store_entry dev1 addr (info\<lparr>ci_sharers := {}\<rparr>))"
    by (rule mhsld_invalidate_split [OF hok lp Some sh, of h ts])
  have "mhsld_inv (store_entry dev1 addr (info\<lparr>ci_sharers := {}\<rparr>))"
    using info mhsld_frame_active [OF s(1) hok]
    by (intro mhsld_inv_store mhsld_inv_frame [OF inv s(1,2)]) (auto simp: info_ok_def moesi_entry_ok_def)
  with s(3) show ?thesis by blast
qed (simp add: invalidate_sharers_def inv)

lemma mhsld_inv_downgrade:
  assumes inv: "mhsld_inv dev"
  shows "mhsld_inv (snd (downgrade_owner dev addr h ts))"
proof (cases "get_entry dev addr")
  case (Some info)
  have "head_active (dev\<lparr>md_logp_model := m, md_total_downgrades := i, md_total_coherency_messages := j\<rparr>)
      = head_active dev" for m i j
    by (simp add: head_active_def fun_eq_iff)
  then show ?thesis
    using mhsld_inv_entry [OF inv Some] mhsld_inv_logp [OF inv] Some
    by (auto simp: downgrade_owner_def Let_def split_beta info_ok_def moesi_entry_ok_def inv
        intro!: mhsld_inv_store)
qed (simp add: downgrade_owner_def inv)

lemma mhsld_inv_writeback:
  assumes inv: "mhsld_inv dev"
  shows "mhsld_inv (snd (writeback dev addr h ts))"
proof (cases "get_entry dev addr")
  case (Some info)
  have "head_active (dev\<lparr>md_total_writebacks := i\<rparr>) = head_active dev" for i
    by (simp add: head_active_def fun_eq_iff)
  then show ?thesis
    using mhsld_inv_entry [OF inv Some] Some inv
    by (auto simp: writeback_def Let_def info_ok_def moesi_entry_ok_def intro!: mhsld_inv_store)
qed (simp add: writeback_def inv)

lemma mhsld_inv_read: "mhsld_inv dev \<Longrightarrow> mhsld_inv (snd (read_with_coherency dev h addr ts))"
proof (cases "head_active dev h")
  case True
  assume inv: "mhsld_inv dev"
  show ?thesis
    by (rule read_active [OF inv True, of addr ts]) (use access_result_inv(1) [OF inv] in auto)
qed (simp add: read_with_coherency_def)

lemma mhsld_inv_write:
  "mhsld_inv dev \<Longrightarrow> \<exists>lat dev'. write_with_coherency dev h addr ts = Some (lat, dev') \<and> mhsld_inv dev'"
proof (cases "head_active dev h")
  case True
  assume inv: "mhsld_inv dev"
  show ?thesis
    by (rule write_active [OF inv True, of addr ts]) (use access_result_inv(1) [OF inv] in blast)
qed (simp add: write_with_coherency_def)

lemma mhsld_step_inv:
  assumes inv: "mhsld_inv dev" and ok: "mhsld_op_ok op"
  shows "\<exists>dev'. mhsld_step dev op = Some dev' \<and> mhsld_inv dev'"
  using assms
proof (cases op)
  case (Write_with_coherency h addr ts)
  then show ?thesis using mhsld_inv_write [OF inv, of h addr ts] by auto
next
  case (Atomic_with_coherency h addr ts)
  then show ?thesis using mhsld_inv_write [OF inv, of h addr ts]
    by (auto simp: atomic_with_coherency_def Let_def)
next
  case (Invalidate_sharers addr h ts)
  then show ?thesis using mhsld_inv_invalidate [OF inv, of addr h ts] by auto
qed (simp_all add: mhsld_inv_activate mhsld_inv_deactivate mhsld_inv_rebalance mhsld_inv_allocate
    release_pool_returns mhsld_inv_read mhsld_inv_downgrade mhsld_inv_writeback)

lemma mhsld_inv_new:
  "0 \<le> read_lat \<Longrightarrow> 0 \<le> write_lat \<Longrightarrow> logp_config_ok cfg \<Longrightarrow>
     mhsld_inv (new_MHSLDDevice capacity num_heads read_lat write_lat bandwidth cfg)"
  by (auto simp: mhsld_inv_def new_MHSLDDevice_def heads_ok_def logp_ok_new new_MHSLDHeadState_def)

lemma mhsld_reachable_inv: "mhsld_reachable dev \<Longrightarrow> mhsld_inv dev"
proof (induction rule: mhsld_reachable.induct)
  case (mhsld_call dev op dev')
  then show ?case using mhsld_step_inv [of dev op] by auto
qed (rule mhsld_inv_new)

interpretation mhsld_memory: coherent_memory head_perm mhsld_access
  "\<lambda>a. cl_align (ha_addr a)" ha_head ha_is_write mhsld_inv "\<lambda>dev a. head_active dev (ha_head a)"
proof
  fix dev :: MHSLDDevice and a a' :: head_access and l
  assume inv: "mhsld_inv dev" and h: "head_active dev (ha_head a)"
  obtain info cost lat dev' where *: "mhsld_access dev a = dev'"
    "access_result dev (ha_addr a) (if ha_is_write a then md_base_write_latency dev
       else md_base_read_latency dev) info cost lat dev'"
    "info_ok (head_active dev) info" "ci_address info = cl_align (ha_addr a)"
    "info_perm info = (if ha_is_write a then spec_write (ha_head a) (head_perm dev (cl_align (ha_addr a)))
       else spec_read (ha_head a) (head_perm dev (cl_align (ha_addr a))))"
  proof (cases "ha_is_write a")
    case True
    show thesis
    proof (rule write_active [OF inv h, of "ha_addr a" "ha_timestamp a"])
      fix info cost lat dev'
      assume "write_with_coherency dev (ha_head a) (ha_addr a) (ha_timestamp a) = Some (lat, dev')"
      then have "mhsld_access dev a = dev'" using True by (simp add: mhsld_access_def)
      moreover assume "access_result dev (ha_addr a) (md_base_write_latency dev) info cost lat dev'"
        "info_ok (head_active dev) info" "ci_address info = cl_align (ha_addr a)"
        "info_perm info = spec_write (ha_head a) (head_perm dev (cl_align (ha_addr a)))"
      ultimately show thesis by (rule that [unfolded if_P [OF True]])
    qed
  next
    case False
    show thesis
    proof (rule read_active [OF inv h, of "ha_addr a" "ha_timestamp a"])
      fix info cost lat dev'
      assume "read_with_coherency dev (ha_head a) (ha_addr a) (ha_timestamp a) = (lat, dev')"
      then have "mhsld_access dev a = dev'" using False by (simp add: mhsld_access_def)
      moreover assume "access_result dev (ha_addr a) (md_base_read_latency dev) info cost lat dev'"
        "info_ok (head_active dev) info" "ci_address info = cl_align (ha_addr a)"
        "info_perm info = spec_read (ha_head a) (head_perm dev (cl_align (ha_addr a)))"
      ultimately show thesis by (rule that [unfolded if_not_P [OF False]])
    qed
  qed
  note r = access_result_inv [OF inv *(2-4)]
  show "mhsld_inv (mhsld_access dev a)" using r(1) *(1) by simp
  show "head_active (mhsld_access dev a) (ha_head a') = head_active dev (ha_head a')"
    using r(2) *(1) by simp
  show "head_perm (mhsld_access dev a) l =
     (if l = cl_align (ha_addr a)
      then if ha_is_write a then spec_write (ha_head a) (head_perm dev l)
           else spec_read (ha_head a) (head_perm dev l)
      else head_perm dev l)"
    using r(3) [of l] *(1,5) by auto
next
  fix dev l
  assume inv: "mhsld_inv dev"
  have "info_ok (head_active dev) (info_at dev l)"
    using inv by (auto simp: info_at_def mhsld_inv_def info_ok_def moesi_entry_ok_def
        new_MHSLDCachelineInfo_def split: option.splits)
  then show "single_writer (head_perm dev l)"
    unfolding head_perm_def info_perm_def info_ok_def using single_writer_moesi by blast
qed

section \<open>Properties of the device\<close>

text \<open>
  C8. No operation on a reachable device goes wrong: every index into the heads that the code takes
  from the directory is in bounds, no missing directory entry is dereferenced, and the device stays
  well-formed.  Two arguments are restricted: heads are activated with less than \<open>2^60\<close> bytes, and a pool is
  released only if its end, computed modulo \<open>2^64\<close>, is at most \<open>2^64 - 64\<close>, where releasing terminates.
\<close>

theorem mhsld_never_fails:
  assumes "mhsld_reachable dev" and "mhsld_op_ok op"
  shows "\<exists>dev'. mhsld_step dev op = Some dev' \<and> mhsld_reachable dev'"
  using mhsld_step_inv [OF mhsld_reachable_inv [OF assms(1)] assms(2)] mhsld_call [OF assms] by blast

lemma example_device_reachable: "mhsld_reachable example_device"
proof -
  let ?d = "new_MHSLDDevice 16384 2 100 120 32 default_LogPConfig"
  have "mhsld_reachable ?d"
    by (rule mhsld_start) (simp_all add: logp_config_ok_def default_LogPConfig_def)
  then have "mhsld_reachable (snd (activate_head ?d 0 512))"
    by (rule mhsld_call [where op="Activate_head 0 512"]) simp_all
  then show ?thesis
    unfolding example_device_def by (rule mhsld_call [where op="Activate_head 1 512"]) simp_all
qed

lemma mhsld_never_fails_witness:
  "\<exists>dev'. mhsld_step example_device (Write_with_coherency 1 64 7) = Some dev' \<and> mhsld_reachable dev'"
  using mhsld_never_fails [OF example_device_reachable, of "Write_with_coherency 1 64 7"] by simp

text \<open>
  C9. The heads' accesses implement the abstract protocol and never leave two heads with conflicting
  access: after any sequence of reads and writes by active heads a line has at most one writer, and
  then nobody else has access.
\<close>

theorem mhsld_single_writer:
  assumes "mhsld_reachable dev" and "\<forall>a \<in> set accesses. head_active dev (ha_head a)"
  shows "single_writer (head_perm (foldl mhsld_access dev accesses) l)"
  using mhsld_memory.run_single_writer [OF mhsld_reachable_inv [OF assms(1)] assms(2)] .

lemma example_device_heads: "head_active example_device 0" "head_active example_device 1"
  by (simp_all add: example_device_def activate_head_def rebalance_bandwidth_def update_head_def
      new_MHSLDDevice_def head_active_def upt_rec new_MHSLDHeadState_def Let_def)

lemma mhsld_single_writer_witness:
  "single_writer (head_perm (foldl mhsld_access example_device
     [\<lparr>ha_head = 0, ha_addr = 64, ha_is_write = True, ha_timestamp = 5\<rparr>,
      \<lparr>ha_head = 1, ha_addr = 70, ha_is_write = False, ha_timestamp = 9\<rparr>]) 64)"
  by (rule mhsld_single_writer) (simp_all add: example_device_reachable example_device_heads)

text \<open>
  A write of an active head to a line other heads share costs the base write latency, the
  invalidation of the sharers (one message time, plus a send gap for each further sharer) and a
  contention term of at most five base read latencies.
\<close>

theorem mhsld_write_shared_latency:
  fixes dev addr h
  defines "info \<equiv> info_at dev (cl_align addr)"
  assumes "mhsld_reachable dev" and "head_active dev h" and "ci_owner_state info = SHARED"
  shows "\<exists>lat dev' contention. write_with_coherency dev h addr ts = Some (lat, dev')
    \<and> lat = md_base_write_latency dev
        + invalidation_cost (lm_config (md_logp_model dev)) (card (ci_sharers info - {h})) + contention
    \<and> 0 \<le> contention \<and> contention \<le> 5 * md_base_read_latency dev
    \<and> head_perm dev' (cl_align addr) = spec_write h (head_perm dev (cl_align addr))"
proof -
  note inv = mhsld_reachable_inv [OF assms(2)]
  obtain i cost lat dev' where w: "write_with_coherency dev h addr ts = Some (lat, dev')"
    "access_result dev addr (md_base_write_latency dev) i cost lat dev'"
    "info_ok (head_active dev) i" "ci_address i = cl_align addr"
    "info_perm i = spec_write h (head_perm dev (cl_align addr))"
    "ci_version i = ci_version (info_at dev (cl_align addr)) + 1"
    "ci_owner_state (info_at dev (cl_align addr)) = SHARED \<longrightarrow>
       cost = invalidation_cost (lm_config (md_logp_model dev))
         (card (ci_sharers (info_at dev (cl_align addr)) - {h}))"
    by (rule write_active [OF inv assms(3), of addr ts])
  have "head_perm dev' (cl_align addr) = info_perm i"
    using access_result_inv(3) [OF inv w(2-4), of "cl_align addr"] by simp
  then show ?thesis
    using w assms(4)
    by (intro exI [of _ lat] exI [of _ dev'] exI [of _ "lat - (md_base_write_latency dev + cost)"])
      (simp add: access_result_def info_def)
qed

text \<open>
  Bandwidth is divided, not created: after a rebalance with some head active, the shares of the
  active heads add up to one and inactive heads have none.
\<close>

theorem rebalance_shares_whole:
  assumes "mhsld_reachable dev" and "\<exists>h \<in> set (md_heads dev). hs_active h"
  shows "sum_list (map hs_bandwidth_share (filter hs_active (md_heads (rebalance_bandwidth dev)))) = 1
    \<and> (\<forall>h \<in> set (md_heads (rebalance_bandwidth dev)). \<not> hs_active h \<longrightarrow> hs_bandwidth_share h = 0)"
proof -
  let ?act = "filter hs_active (md_heads dev)"
  let ?tot = "sum_list (map hs_allocated_capacity ?act)"
  have ok: "heads_ok dev" using mhsld_reachable_inv [OF assms(1)] by (simp add: mhsld_inv_def)
  have ne: "?act \<noteq> []" using assms(2) by (auto simp: filter_empty_conv)
  let ?f = "\<lambda>h. if 0 < ?tot then double_of_u64 (hs_allocated_capacity h) / double_of_u64 ?tot
    else 1 / real (length ?act)"
  have eq: "map hs_bandwidth_share (filter hs_active (md_heads (rebalance_bandwidth dev))) = map ?f ?act"
    using ne by (simp add: rebalance_bandwidth_def Let_def filter_map o_def cong: if_cong)
  have "sum_list (map ?f ?act) = 1"
  proof (cases "0 < ?tot")
    case True
    have "sum_list (map (\<lambda>h. double_of_u64 (hs_allocated_capacity h) / double_of_u64 ?tot) ?act) =
        sum_list (map (\<lambda>h. double_of_u64 (hs_allocated_capacity h)) ?act) / double_of_u64 ?tot"
      by (simp add: sum_list_divide)
    also have "sum_list (map (\<lambda>h. double_of_u64 (hs_allocated_capacity h)) ?act) = double_of_u64 ?tot"
      unfolding double_of_u64_def total_alloc_exact [OF ok] by (simp add: of_nat_sum_list_map)
    finally show ?thesis using True double_of_u64_less_iff [of 0 ?tot] by simp
  next
    case False
    then show ?thesis using ne by (simp add: sum_list_triv)
  qed
  then show ?thesis
    using ne unfolding eq by (auto simp: rebalance_bandwidth_def Let_def split: if_splits)
qed

lemmas example_device_defs = example_device_def activate_head_def rebalance_bandwidth_def
  update_head_def new_MHSLDDevice_def new_MHSLDHeadState_def upt_rec

lemma rebalance_shares_whole_witness:
  "sum_list (map hs_bandwidth_share
     (filter hs_active (md_heads (rebalance_bandwidth example_device)))) = 1"
proof -
  have "\<exists>h \<in> set (md_heads example_device). hs_active h"
    by (simp add: example_device_defs Let_def)
  from rebalance_shares_whole [OF example_device_reachable this] show ?thesis ..
qed

lemma mhsld_write_shared_latency_witness:
  fixes dev
  defines "dev \<equiv> snd (read_with_coherency example_device 0 64 5)"
  shows "\<exists>lat dev' contention. write_with_coherency dev 1 64 9 = Some (lat, dev')
    \<and> lat = md_base_write_latency dev + invalidation_cost (lm_config (md_logp_model dev)) 1 + contention
    \<and> 0 \<le> contention \<and> contention \<le> 5 * md_base_read_latency dev
    \<and> head_perm dev' 64 = spec_write 1 (head_perm dev 64)"
proof -
  have al: "cl_align 64 = 64" by (simp add: cl_align_def)
  have re: "mhsld_reachable dev"
    unfolding dev_def
    by (rule mhsld_call [OF example_device_reachable, of "Read_with_coherency 0 64 5"]) simp_all
  have "md_directory example_device = Map.empty"
    by (simp add: example_device_defs Let_def)
  then have st: "ci_owner_state (info_at dev 64) = SHARED" "ci_sharers (info_at dev 64) = {0}"
    using example_device_heads(1)
    by (simp_all add: dev_def read_with_coherency_def get_or_create_entry_def read_miss_def
        record_access_def store_entry_def info_at_def new_MHSLDCachelineInfo_def al Let_def)
  have act: "head_active dev 1"
    using mhsld_memory.step_op_ok [of example_device "\<lparr>ha_head = 0, ha_addr = 64, ha_is_write = False,
        ha_timestamp = 5\<rparr>" "\<lparr>ha_head = 1, ha_addr = 0, ha_is_write = False, ha_timestamp = 0\<rparr>"]
      mhsld_reachable_inv [OF example_device_reachable] example_device_heads
    by (simp add: dev_def mhsld_access_def)
  show ?thesis
    using mhsld_write_shared_latency [OF re act, of 64 9] st by (simp add: al)
qed

section \<open>Pools\<close>

lemma allocate_pool_block:
  assumes fit: "pools_fit dev" and sz: "sz < 2 ^ 63"
    and al: "allocate_pool dev h sz = (addr, dev')" and ne: "dev' \<noteq> dev"
  shows "head_active dev h" "pools_fit dev'" "md_total_capacity dev' = md_total_capacity dev"
    "block addr sz \<subseteq> free_space dev h" "block addr sz \<inter> free_space dev' h = {}"
    "free_space dev' k \<subseteq> free_space dev k"
proof -
  let ?h = "md_heads dev ! unat h" and ?n = "unat (md_total_capacity dev) div MAX_HEADS"
  show act: "head_active dev h" using al ne by (auto simp: allocate_pool_def split: if_splits)
  then have h: "unat h < MAX_HEADS" by (simp add: head_active_def)
  then have used: "unat (hs_used_capacity ?h) \<le> unat (hs_allocated_capacity ?h)"
    and cap: "unat (hs_allocated_capacity ?h) \<le> ?n"
    using fit by (auto simp: pools_fit_def word_nat_simps)
  have n: "?n < 2 ^ 60" using unat_u64_less [of "md_total_capacity dev"] by simp
  have "unat sz < 2 ^ 63" using sz by (simp add: word_nat_simps)
  then have sum: "unat (hs_used_capacity ?h + sz) = unat (hs_used_capacity ?h) + unat sz"
    using used cap n by (intro unat_add_no_wrap) simp
  have dev': "dev' = update_head dev h (\<lambda>h. h\<lparr>hs_used_capacity := hs_used_capacity h + sz\<rparr>)"
    and le: "unat (hs_used_capacity ?h) + unat sz \<le> unat (hs_allocated_capacity ?h)"
    and addr: "addr = ucast h * (md_total_capacity dev div 16) + hs_used_capacity ?h"
    using al ne act by (auto simp: allocate_pool_def Let_def word_nat_simps sum split: if_splits)
  have base: "unat (ucast h * (md_total_capacity dev div 16) :: u64) = unat h * ?n"
  proof -
    have "unat h * ?n < 16 * 2 ^ 60" using h n by (intro mult_strict_mono) simp_all
    then show ?thesis by (simp add: unat_word_ariths(2) unat_div unat_ucast_u32)
  qed
  have "unat h * ?n + unat (hs_used_capacity ?h) < 2 ^ 64"
  proof -
    have "unat h * ?n \<le> 15 * ?n" using h by (intro mult_right_mono) simp_all
    moreover have "16 * (2 :: nat) ^ 60 = 2 ^ 64" by simp
    ultimately show ?thesis using used cap n by linarith
  qed
  then have addr': "unat addr = unat h * ?n + unat (hs_used_capacity ?h)"
    unfolding addr using base by (subst unat_add_no_wrap) simp_all
  have len: "length (md_heads dev) = MAX_HEADS" using fit by (simp add: pools_fit_def)
  show tot: "md_total_capacity dev' = md_total_capacity dev" by (simp add: dev' update_head_def)
  have "hs_used_capacity ?h + sz \<le> hs_allocated_capacity ?h" using le by (simp add: word_nat_simps sum)
  then show "pools_fit dev'"
    using fit h cap by (auto simp: pools_fit_def dev' update_head_def
        dest!: set_update_subset_insert [THEN subsetD])
  show "block addr sz \<subseteq> free_space dev h"
    using le by (auto simp: block_def free_space_def addr' Let_def)
  show "block addr sz \<inter> free_space dev' h = {}"
    using h len by (auto simp: block_def free_space_def addr' tot dev' update_head_def sum Let_def)
  show "free_space dev' k \<subseteq> free_space dev k"
    using h len sum by (auto simp: free_space_def tot Let_def)
      (auto simp: dev' update_head_def nth_list_update split: if_splits)
qed

lemma slices_disjoint:
  assumes "h \<noteq> k"
  shows "slice dev h \<inter> slice dev k = {}"
proof -
  let ?n = "unat (md_total_capacity dev) div MAX_HEADS"
  have "(a + 1) * ?n \<le> b * ?n" if "a < b" for a b :: nat
    using that by (intro mult_right_mono) simp_all
  moreover have "unat h < unat k \<or> unat k < unat h" using assms by (simp add: word_unat_eq_iff nat_neq_iff)
  ultimately show ?thesis by (fastforce simp: slice_def)
qed

lemma slice_in_device:
  assumes "unat h < MAX_HEADS"
  shows "slice dev h \<subseteq> {..< unat (md_total_capacity dev)}"
proof -
  let ?n = "unat (md_total_capacity dev) div MAX_HEADS"
  have "(unat h + 1) * ?n \<le> MAX_HEADS * ?n" using assms by (intro mult_right_mono) simp_all
  also have "\<dots> \<le> unat (md_total_capacity dev)" by simp
  finally show ?thesis by (auto simp: slice_def)
qed

lemma free_space_slice:
  assumes "pools_fit dev" "unat h < MAX_HEADS"
  shows "free_space dev h \<subseteq> slice dev h"
proof -
  have "unat (hs_allocated_capacity (md_heads dev ! unat h)) \<le> unat (md_total_capacity dev) div MAX_HEADS"
    using assms by (auto simp: pools_fit_def)
  then show ?thesis by (auto simp: free_space_def slice_def Let_def)
qed

lemma alloc_run_free:
  assumes "pools_fit dev" "\<forall>(h, sz) \<in> set reqs. sz < 2 ^ 63" "(h, addr, sz) \<in> set (alloc_run dev reqs)"
  shows "unat h < MAX_HEADS \<and> block addr sz \<subseteq> free_space dev h"
  using assms
proof (induction reqs arbitrary: dev)
  case (Cons r reqs)
  obtain k n a dev' where r: "r = (k, n)" and al: "allocate_pool dev k n = (a, dev')"
    by (cases r, cases "allocate_pool dev (fst r) (snd r)") auto
  show ?case
  proof (cases "dev' = dev")
    case True
    then show ?thesis using Cons.IH [of dev] Cons.prems by (simp add: r al)
  next
    case False
    have "n < 2 ^ 63" using Cons.prems(2) r by simp
    note a = allocate_pool_block [OF Cons.prems(1) this al False]
    show ?thesis
      using Cons.IH [OF a(2)] Cons.prems(2,3) a(1,4) a(6) [of h] False
      by (auto simp: r al head_active_def)
  qed
qed simp

text \<open>
  C32. Pools do not overlap: where every head's capacity fits its sixteenth of the device, the blocks
  handed out by any sequence of allocations of any heads, each for less than \<open>2^63\<close> bytes, lie within
  the device, each in its head's slice, and no two of them share a byte.  The bound on the size
  excludes that the sum of used and requested bytes wraps around.
\<close>

theorem pool_blocks_disjoint:
  assumes "pools_fit dev" and "\<forall>(h, sz) \<in> set reqs. sz < 2 ^ 63"
  shows "(\<forall>(h, addr, sz) \<in> set (alloc_run dev reqs).
      block addr sz \<subseteq> slice dev h \<and> block addr sz \<subseteq> {..< unat (md_total_capacity dev)})
    \<and> sorted_wrt (\<lambda>(h, a, n) (h', a', n'). block a n \<inter> block a' n' = {}) (alloc_run dev reqs)"
proof
  show "\<forall>(h, addr, sz) \<in> set (alloc_run dev reqs).
      block addr sz \<subseteq> slice dev h \<and> block addr sz \<subseteq> {..< unat (md_total_capacity dev)}"
    using alloc_run_free [OF assms] free_space_slice [OF assms(1)] slice_in_device [of _ dev]
    by fast
  show "sorted_wrt (\<lambda>(h, a, n) (h', a', n'). block a n \<inter> block a' n' = {}) (alloc_run dev reqs)"
    using assms
  proof (induction reqs arbitrary: dev)
    case (Cons r reqs)
    obtain k n a dev' where r: "r = (k, n)" and al: "allocate_pool dev k n = (a, dev')"
      by (cases r, cases "allocate_pool dev (fst r) (snd r)") auto
    show ?case
    proof (cases "dev' = dev")
      case True
      then show ?thesis using Cons by (simp add: r al)
    next
      case False
      have n: "n < 2 ^ 63" and rest: "\<forall>(h, sz) \<in> set reqs. sz < 2 ^ 63"
        using Cons.prems(2) r by simp_all
      note a = allocate_pool_block [OF Cons.prems(1) n al False]
      have k: "unat k < MAX_HEADS" using a(1) by (simp add: head_active_def)
      have "block a n \<inter> block a' n' = {}" if "(h', a', n') \<in> set (alloc_run dev' reqs)" for h' a' n'
      proof (cases "h' = k")
        case True
        then show ?thesis using alloc_run_free [OF a(2) rest that] a(5) by blast
      next
        case False
        have "block a' n' \<subseteq> slice dev h'"
          using alloc_run_free [OF a(2) rest that] a(6) [of h'] free_space_slice [OF Cons.prems(1), of h']
          by blast
        moreover have "block a n \<subseteq> slice dev k"
          using a(4) free_space_slice [OF Cons.prems(1) k] by blast
        ultimately show ?thesis using slices_disjoint [OF False, of dev] by blast
      qed
      then show ?thesis using Cons.IH [OF a(2) rest] False by (auto simp: r al)
    qed
  qed simp
qed

lemma pool_blocks_disjoint_witness:
  "sorted_wrt (\<lambda>(h, a, n) (h', a', n'). block a n \<inter> block a' n' = {})
     (alloc_run example_device [(0, 64), (1, 512), (0, 128), (1, 8)])"
proof -
  have "pools_fit example_device"
    by (simp add: pools_fit_def example_device_defs Let_def word_nat_simps)
  then show ?thesis
    using pool_blocks_disjoint [of example_device "[(0, 64), (1, 512), (0, 128), (1, 8)]"] by simp
qed

text \<open>
  C33. For an inactive head, releasing a region changes nothing.  For an active head it takes the head's
  access to every cache line from the one of the region's first byte up to the region's end, and
  changes no other permission.  The end is the sum of address and size modulo \<open>2^64\<close>, so that a region that
  wraps around to an end at or below its first line releases no line.  Releasing terminates exactly
  when this end is at or below the last cache line of the address space, \<open>2^64 - 64\<close>, and runs forever
  otherwise.
\<close>

theorem release_pool_effect:
  "(release_pool dev h addr sz = None \<longleftrightarrow> head_active dev h \<and> addr + sz > - 64)
    \<and> (\<not> head_active dev h \<longrightarrow> release_pool dev h addr sz = Some dev)
    \<and> (\<forall>dev' l n. head_active dev h \<longrightarrow> release_pool dev h addr sz = Some dev' \<longrightarrow> cl_align l = l \<longrightarrow>
        head_perm dev' l n =
          (if n = h \<and> cl_align addr \<le> l \<and> l < addr + sz then NoAccess else head_perm dev l n))"
proof (cases "head_active dev h")
  case True
  have perm: "head_perm (update_head d h f) = head_perm d" for d f
    by (simp add: head_perm_def info_at_def fun_eq_iff)
  have eq: "release_pool dev h addr sz = map_option (\<lambda>d.
      if hs_used_capacity (md_heads d ! unat h) \<ge> sz
      then update_head d h (\<lambda>h. h\<lparr>hs_used_capacity := hs_used_capacity h - sz\<rparr>) else d)
      (release_loop h (cl_align addr) (addr + sz) dev)"
    using True by (cases "release_loop h (cl_align addr) (addr + sz) dev") (auto simp: release_pool_def)
  show ?thesis
  proof (cases "release_loop h (cl_align addr) (addr + sz) dev")
    case None
    then show ?thesis
      using release_loop_returns [OF cl_align_idem, of "addr + sz" h addr dev] True
      by (cases "addr + sz \<le> - 64") (auto simp: eq not_le)
  next
    case (Some d)
    then show ?thesis
      using release_loop_result [OF Some cl_align_idem] True by (auto simp: eq perm not_less)
  qed
qed (simp add: release_pool_def)

lemma release_pool_effect_witness:
  "release_pool example_device 0 64 (- 100) = None \<and> release_pool example_device 0 64 128 \<noteq> None"
proof -
  have "(64 :: u64) + - 100 > - 64" "\<not> (64 :: u64) + 128 > - 64" by (simp_all add: word_nat_simps)
  then show ?thesis
    using release_pool_effect [of example_device 0 64 "- 100"] release_pool_effect [of example_device 0 64 128]
      example_device_heads(1) by blast
qed

text \<open>
  The pool is a bump allocator whose release only lowers the bump: releasing a block other than the
  last one makes the next allocation hand out memory that is still in use (here the second block,
  at address 64).
\<close>

lemma release_reissues_block:
  fixes d1 d2 d3
  defines "d1 \<equiv> snd (allocate_pool example_device 0 64)" and "d2 \<equiv> snd (allocate_pool d1 0 64)"
    and "d3 \<equiv> the (release_pool d2 0 0 64)"
  shows "fst (allocate_pool example_device 0 64) = 0 \<and> fst (allocate_pool d1 0 64) = 64
    \<and> fst (allocate_pool d3 0 64) = 64"
proof -
  have al: "cl_align 0 = 0" by (simp add: cl_align_def)
  have "release_loop 0 0 64 d2 = Some d2"
    by (subst release_loop.simps, subst release_loop.simps)
      (simp add: d1_def d2_def allocate_pool_def head_active_def example_device_defs release_line_def
        get_entry_def al Let_def)
  then have "d3 = (if hs_used_capacity (md_heads d2 ! 0) \<ge> 64
      then update_head d2 0 (\<lambda>h. h\<lparr>hs_used_capacity := hs_used_capacity h - 64\<rparr>) else d2)"
    unfolding d3_def
    by (simp add: release_pool_def al)
      (simp add: d1_def d2_def allocate_pool_def head_active_def example_device_defs Let_def)
  then show ?thesis
    by (simp add: d1_def d2_def allocate_pool_def head_active_def example_device_defs Let_def)
qed

text \<open>
  A failed allocation returns 0, which is also the address of the first block of head 0; and the
  capacity test wraps around, so that a request near \<open>2 ^ 64\<close> bytes is granted.
\<close>

lemma allocate_failure_ambiguous:
  "fst (allocate_pool example_device 0 64) = 0 \<and> fst (allocate_pool example_device 5 64) = 0
    \<and> snd (allocate_pool example_device 5 64) = example_device"
  by (simp add: allocate_pool_def head_active_def example_device_defs Let_def)

lemma allocate_wraps:
  "hs_used_capacity (md_heads (snd (allocate_pool (snd (allocate_pool example_device 0 64)) 0 (- 1))) ! 0) = 63"
  by (simp add: allocate_pool_def head_active_def example_device_defs Let_def)

end
