(* ===== verification/Counters.thy ===== *)
theory Counters
  imports Prelude
begin

text \<open>
  The event counters of \<open>include/cxlcounter.h\<close>.  An \<open>AtomicCounter\<close> is a 64-bit word whose
  increment wraps around; the event classes are records of counters.  Every \<open>increment\<close>
  template is a function of the event type; the \<open>inc_\<close> methods are its instances.

  The lemmas show that a counter holds the number of its events, and that the derived ratios stay
  between zero and one as long as their totals do not wrap.
\<close>

section \<open>Counters\<close>

type_synonym AtomicCounter = u64

definition increment :: "AtomicCounter \<Rightarrow> AtomicCounter" where
  "increment value = value + 1"

datatype EventType =
  Load | Store | Conflict | MigrateIn | MigrateOut | HitOld | Local | Remote | Hitm

record CXLSwitchEvent =
  sw_load :: AtomicCounter
  sw_store :: AtomicCounter
  sw_conflict :: AtomicCounter

definition new_CXLSwitchEvent :: CXLSwitchEvent where
  "new_CXLSwitchEvent = \<lparr>sw_load = 0, sw_store = 0, sw_conflict = 0\<rparr>"

fun switch_increment :: "EventType \<Rightarrow> CXLSwitchEvent \<Rightarrow> CXLSwitchEvent" where
  "switch_increment Load c = c\<lparr>sw_load := increment (sw_load c)\<rparr>"
| "switch_increment Store c = c\<lparr>sw_store := increment (sw_store c)\<rparr>"
| "switch_increment Conflict c = c\<lparr>sw_conflict := increment (sw_conflict c)\<rparr>"
| "switch_increment _ c = c"

record CXLMemExpanderEvent =
  ev_load :: AtomicCounter
  ev_store :: AtomicCounter
  ev_migrate_in :: AtomicCounter
  ev_migrate_out :: AtomicCounter
  ev_hit_old :: AtomicCounter

definition new_CXLMemExpanderEvent :: CXLMemExpanderEvent where
  "new_CXLMemExpanderEvent =
     \<lparr>ev_load = 0, ev_store = 0, ev_migrate_in = 0, ev_migrate_out = 0, ev_hit_old = 0\<rparr>"

fun expander_increment :: "EventType \<Rightarrow> CXLMemExpanderEvent \<Rightarrow> CXLMemExpanderEvent" where
  "expander_increment Load c = c\<lparr>ev_load := increment (ev_load c)\<rparr>"
| "expander_increment Store c = c\<lparr>ev_store := increment (ev_store c)\<rparr>"
| "expander_increment MigrateIn c = c\<lparr>ev_migrate_in := increment (ev_migrate_in c)\<rparr>"
| "expander_increment MigrateOut c = c\<lparr>ev_migrate_out := increment (ev_migrate_out c)\<rparr>"
| "expander_increment HitOld c = c\<lparr>ev_hit_old := increment (ev_hit_old c)\<rparr>"
| "expander_increment _ c = c"

definition total_operations :: "CXLMemExpanderEvent \<Rightarrow> u64" where
  "total_operations c = ev_load c + ev_store c + ev_migrate_in c + ev_migrate_out c + ev_hit_old c"

fun safe_get :: "CXLMemExpanderEvent \<Rightarrow> EventType \<Rightarrow> u64 option" where
  "safe_get c Load = Some (ev_load c)"
| "safe_get c Store = Some (ev_store c)"
| "safe_get c MigrateIn = Some (ev_migrate_in c)"
| "safe_get c MigrateOut = Some (ev_migrate_out c)"
| "safe_get c HitOld = Some (ev_hit_old c)"
| "safe_get c _ = None"

record CXLCounter =
  cc_local :: AtomicCounter
  cc_remote :: AtomicCounter
  cc_hitm :: AtomicCounter
  cc_backinv :: AtomicCounter

definition new_CXLCounter :: CXLCounter where
  "new_CXLCounter = \<lparr>cc_local = 0, cc_remote = 0, cc_hitm = 0, cc_backinv = 0\<rparr>"

fun counter_increment :: "EventType \<Rightarrow> CXLCounter \<Rightarrow> CXLCounter" where
  "counter_increment Local c = c\<lparr>cc_local := increment (cc_local c)\<rparr>"
| "counter_increment Remote c = c\<lparr>cc_remote := increment (cc_remote c)\<rparr>"
| "counter_increment Hitm c = c\<lparr>cc_hitm := increment (cc_hitm c)\<rparr>"
| "counter_increment _ c = c"

definition inc_backinv :: "CXLCounter \<Rightarrow> CXLCounter" where
  "inc_backinv c = c\<lparr>cc_backinv := increment (cc_backinv c)\<rparr>"

definition ratio_of :: "u64 \<Rightarrow> u64 \<Rightarrow> real" where
  "ratio_of part rest =
     (let total_count = part + rest
      in if total_count > 0 then double_of_u64 part / double_of_u64 total_count else 0)"

definition local_hit_ratio :: "CXLCounter \<Rightarrow> real" where
  "local_hit_ratio c = ratio_of (cc_local c) (cc_remote c)"

record CXLPageTableEvent =
  pt_hit :: AtomicCounter
  pt_miss :: AtomicCounter
  pt_total :: AtomicCounter

definition pt_inc_hit :: "CXLPageTableEvent \<Rightarrow> CXLPageTableEvent" where
  "pt_inc_hit c = c\<lparr>pt_hit := increment (pt_hit c)\<rparr>"

definition pt_inc_miss :: "CXLPageTableEvent \<Rightarrow> CXLPageTableEvent" where
  "pt_inc_miss c = c\<lparr>pt_miss := increment (pt_miss c)\<rparr>"

definition pt_inc_total :: "CXLPageTableEvent \<Rightarrow> CXLPageTableEvent" where
  "pt_inc_total c = c\<lparr>pt_total := increment (pt_total c)\<rparr>"

definition hit_ratio :: "CXLPageTableEvent \<Rightarrow> real" where
  "hit_ratio c = ratio_of (pt_hit c) (pt_miss c)"

record CXLHugePageEvent =
  hp_tlb_hits_4k :: AtomicCounter
  hp_tlb_misses_4k :: AtomicCounter
  hp_tlb_hits_2m :: AtomicCounter
  hp_tlb_misses_2m :: AtomicCounter
  hp_tlb_hits_1g :: AtomicCounter
  hp_tlb_misses_1g :: AtomicCounter
  hp_ptw_count :: AtomicCounter

definition new_CXLPageTableEvent :: CXLPageTableEvent where
  "new_CXLPageTableEvent = \<lparr>pt_hit = 0, pt_miss = 0, pt_total = 0\<rparr>"

definition new_CXLHugePageEvent :: CXLHugePageEvent where
  "new_CXLHugePageEvent =
     \<lparr>hp_tlb_hits_4k = 0, hp_tlb_misses_4k = 0, hp_tlb_hits_2m = 0, hp_tlb_misses_2m = 0,
      hp_tlb_hits_1g = 0, hp_tlb_misses_1g = 0, hp_ptw_count = 0\<rparr>"

definition inc_tlb_hits_4k :: "CXLHugePageEvent \<Rightarrow> CXLHugePageEvent" where
  "inc_tlb_hits_4k c = c\<lparr>hp_tlb_hits_4k := increment (hp_tlb_hits_4k c)\<rparr>"

definition inc_tlb_misses_4k :: "CXLHugePageEvent \<Rightarrow> CXLHugePageEvent" where
  "inc_tlb_misses_4k c = c\<lparr>hp_tlb_misses_4k := increment (hp_tlb_misses_4k c)\<rparr>"

definition inc_tlb_hits_2m :: "CXLHugePageEvent \<Rightarrow> CXLHugePageEvent" where
  "inc_tlb_hits_2m c = c\<lparr>hp_tlb_hits_2m := increment (hp_tlb_hits_2m c)\<rparr>"

definition inc_tlb_misses_2m :: "CXLHugePageEvent \<Rightarrow> CXLHugePageEvent" where
  "inc_tlb_misses_2m c = c\<lparr>hp_tlb_misses_2m := increment (hp_tlb_misses_2m c)\<rparr>"

definition inc_tlb_hits_1g :: "CXLHugePageEvent \<Rightarrow> CXLHugePageEvent" where
  "inc_tlb_hits_1g c = c\<lparr>hp_tlb_hits_1g := increment (hp_tlb_hits_1g c)\<rparr>"

definition inc_tlb_misses_1g :: "CXLHugePageEvent \<Rightarrow> CXLHugePageEvent" where
  "inc_tlb_misses_1g c = c\<lparr>hp_tlb_misses_1g := increment (hp_tlb_misses_1g c)\<rparr>"

definition inc_ptw_count :: "CXLHugePageEvent \<Rightarrow> CXLHugePageEvent" where
  "inc_ptw_count c = c\<lparr>hp_ptw_count := increment (hp_ptw_count c)\<rparr>"

text \<open>The event types an expander counts.\<close>

definition expander_events :: "EventType set" where
  "expander_events = {Load, Store, MigrateIn, MigrateOut, HitOld}"

section \<open>Counting\<close>

lemma safe_get_increment:
  "safe_get (expander_increment t c) u =
     (if t = u then map_option increment (safe_get c u) else safe_get c u)"
  by (cases t; cases u) simp_all

lemma total_increment:
  "total_operations (expander_increment t c) =
     total_operations c + (if t \<in> expander_events then 1 else 0)"
  by (cases t) (simp_all add: total_operations_def expander_events_def increment_def)

text \<open>
  Every expander event is counted once, by its own counter: after any sequence of increments a
  counter holds the number of its events, and \<open>total_operations\<close> the number of all events that
  concern an expander, modulo the width of a counter.
\<close>

theorem expander_counters_count:
  "safe_get (fold expander_increment ts new_CXLMemExpanderEvent) t =
     (if t \<in> expander_events then Some (of_nat (count_list ts t)) else None)
   \<and> total_operations (fold expander_increment ts new_CXLMemExpanderEvent) =
     of_nat (length (filter (\<lambda>t. t \<in> expander_events) ts))"
proof (induction ts rule: rev_induct)
  case Nil
  show ?case
    by (cases t) (simp_all add: new_CXLMemExpanderEvent_def total_operations_def expander_events_def)
next
  case (snoc u ts)
  then show ?case by (simp add: safe_get_increment total_increment increment_def add.commute)
qed

lemma ratio_range:
  assumes "unat a + unat b < 2 ^ 64"
  shows "0 \<le> ratio_of a b \<and> ratio_of a b \<le> 1"
proof -
  have "unat (a + b) = unat a + unat b" using assms by (simp add: unat_add_no_wrap)
  then have "double_of_u64 a \<le> double_of_u64 (a + b)"
    unfolding double_of_u64_def by (metis le_add1 of_nat_mono)
  then show ?thesis
    using double_of_u64_less_iff [of 0 "a + b"] by (simp add: ratio_of_def Let_def divide_le_eq_1)
qed

text \<open>
  The hit ratios are ratios: below \<open>2 ^ 64\<close> events they lie between zero and one.
\<close>

theorem hit_ratios_bounded:
  assumes "unat (cc_local c) + unat (cc_remote c) < 2 ^ 64"
    and "unat (pt_hit p) + unat (pt_miss p) < 2 ^ 64"
  shows "0 \<le> local_hit_ratio c \<and> local_hit_ratio c \<le> 1 \<and> 0 \<le> hit_ratio p \<and> hit_ratio p \<le> 1"
  using ratio_range [OF assms(1)] ratio_range [OF assms(2)]
  by (simp add: local_hit_ratio_def hit_ratio_def)

lemma hit_ratios_bounded_witness:
  "local_hit_ratio (new_CXLCounter\<lparr>cc_local := 3, cc_remote := 1\<rparr>) \<le> 1
    \<and> hit_ratio \<lparr>pt_hit = 5, pt_miss = 2, pt_total = 7\<rparr> \<le> 1"
  using hit_ratios_bounded [of "new_CXLCounter\<lparr>cc_local := 3, cc_remote := 1\<rparr>"
      "\<lparr>pt_hit = 5, pt_miss = 2, pt_total = 7\<rparr>"] by simp

end
