(* ===== verification/Mem_Expander.thy ===== *)
theory Mem_Expander
  imports Counters Fabric_Link
begin

text \<open>
  The memory expander of \<open>include/cxlendpoint.h\<close> and \<open>src/cxlendpoint.cpp\<close>: the pages it holds,
  the caches over their addresses, the request queue with credit-based flow control, and the latency
  and bandwidth estimates.

  A \<open>std::map\<close> is an association list in ascending key order.  The address ranges are searched with
  \<open>std::lower_bound\<close>, which is the first range not below the address.  The fields of a request that
  the code leaves uninitialised until it is issued are zero here; \<open>free_stats\<close> takes the outcomes of
  its coin flips as an argument.

  The lemmas show what \<open>insert\<close> returns and records, that the ranges built from the pages represent
  exactly the recorded addresses, that queue, credits and in-flight requests stay within their
  bounds, and two defects: a credit is lost whenever a request overtakes another one to the same
  address, and the latency estimate never sees an address range.
\<close>

section \<open>Data\<close>

abbreviation MAX_QUEUE_SIZE :: nat where "MAX_QUEUE_SIZE \<equiv> 64"
abbreviation FLIT_SIZE :: u64 where "FLIT_SIZE \<equiv> 66"
abbreviation DATA_FLIT :: u64 where "DATA_FLIT \<equiv> 65"
abbreviation INITIAL_CREDITS :: u64 where "INITIAL_CREDITS \<equiv> 2"

record occupation_info =
  oi_timestamp :: u64
  oi_address :: u64
  oi_access_count :: u64

record CXLRequest =
  rq_timestamp :: u64
  rq_address :: u64
  rq_tid :: u64
  rq_is_read :: bool
  rq_is_write :: bool
  rq_issue_time :: u64
  rq_complete_time :: u64

record EmuCXLLatency =
  la_read :: real
  la_write :: real

record EmuCXLBandwidth =
  bw_read :: real
  bw_write :: real

record AddressRange =
  ar_start :: u64
  ar_end :: u64

record CXLMemExpander =
  me_bandwidth :: EmuCXLBandwidth
  me_latency :: EmuCXLLatency
  me_capacity :: u64
  me_occupation :: "occupation_info list"
  me_address_cache :: "u64 set"
  me_cache_valid :: bool
  me_counter :: CXLMemExpanderEvent
  me_last_counter :: CXLMemExpanderEvent
  me_request_queue :: "CXLRequest list"
  me_read_credits :: u64
  me_write_credits :: u64
  me_in_flight_requests :: "(u64 \<times> CXLRequest) list"
  me_frontend_latency :: real
  me_forward_latency :: real
  me_response_latency :: real
  me_epoch :: int
  me_last_timestamp :: u64
  me_id :: int
  me_address_ranges :: "AddressRange list"

type_synonym access = "u64 \<times> u64"

definition new_CXLMemExpander ::
  "int \<Rightarrow> int \<Rightarrow> int \<Rightarrow> int \<Rightarrow> int \<Rightarrow> int \<Rightarrow> CXLMemExpander" where
  "new_CXLMemExpander read_bw write_bw read_lat write_lat ident cap =
     \<lparr>me_bandwidth = \<lparr>bw_read = of_int read_bw, bw_write = of_int write_bw\<rparr>,
      me_latency = \<lparr>la_read = of_int read_lat, la_write = of_int write_lat\<rparr>,
      me_capacity = word_of_int cap, me_occupation = [], me_address_cache = {},
      me_cache_valid = False, me_counter = new_CXLMemExpanderEvent,
      me_last_counter = new_CXLMemExpanderEvent, me_request_queue = [],
      me_read_credits = INITIAL_CREDITS, me_write_credits = INITIAL_CREDITS,
      me_in_flight_requests = [], me_frontend_latency = 10, me_forward_latency = 15,
      me_response_latency = 20, me_epoch = 0, me_last_timestamp = 0, me_id = ident,
      me_address_ranges = []\<rparr>"

section \<open>Address caches\<close>

definition update_address_cache :: "CXLMemExpander \<Rightarrow> CXLMemExpander" where
  "update_address_cache e =
     (if me_cache_valid e then e
      else e\<lparr>me_address_cache := set (map oi_address (me_occupation e)), me_cache_valid := True\<rparr>)"

definition invalidate_cache :: "CXLMemExpander \<Rightarrow> CXLMemExpander" where
  "invalidate_cache e = e\<lparr>me_cache_valid := False\<rparr>"

fun merge_ranges :: "AddressRange \<Rightarrow> occupation_info list \<Rightarrow> AddressRange list" where
  "merge_ranges current [] = [current]"
| "merge_ranges current (occ # rest) =
     (if oi_address occ = ar_end current + 1
      then merge_ranges (current\<lparr>ar_end := oi_address occ\<rparr>) rest
      else current # merge_ranges \<lparr>ar_start = oi_address occ, ar_end = oi_address occ\<rparr> rest)"

definition update_range_cache :: "CXLMemExpander \<Rightarrow> CXLMemExpander" where
  "update_range_cache e =
     (if me_cache_valid e then e
      else
        let occ = sort_key oi_address (me_occupation e)
        in e\<lparr>me_occupation := occ,
             me_address_ranges :=
               (case occ of [] \<Rightarrow> []
                | o1 # rest \<Rightarrow>
                    merge_ranges \<lparr>ar_start = oi_address o1, ar_end = oi_address o1\<rparr> rest),
             me_cache_valid := True\<rparr>)"

definition in_ranges :: "AddressRange list \<Rightarrow> u64 \<Rightarrow> bool" where
  "in_ranges ranges addr =
     (case dropWhile (\<lambda>r. ar_end r < addr) ranges of
        [] \<Rightarrow> False
      | r # _ \<Rightarrow> addr \<ge> ar_start r \<and> addr \<le> ar_end r)"

definition is_address_local :: "CXLMemExpander \<Rightarrow> u64 \<Rightarrow> bool \<times> CXLMemExpander" where
  "is_address_local e addr =
     (let e1 = (if \<not> me_cache_valid e then update_range_cache e else e)
      in (in_ranges (me_address_ranges e1) addr, e1))"

section \<open>Queue and credits\<close>

definition can_accept_request :: "CXLMemExpander \<Rightarrow> bool" where
  "can_accept_request e \<longleftrightarrow> length (me_request_queue e) < MAX_QUEUE_SIZE"

definition has_credits :: "CXLMemExpander \<Rightarrow> bool \<Rightarrow> bool" where
  "has_credits e is_read \<longleftrightarrow> (if is_read then me_read_credits e else me_write_credits e) > 0"

definition consume_credit :: "CXLMemExpander \<Rightarrow> bool \<Rightarrow> CXLMemExpander" where
  "consume_credit e is_read =
     (if is_read then e\<lparr>me_read_credits := me_read_credits e - 1\<rparr>
      else e\<lparr>me_write_credits := me_write_credits e - 1\<rparr>)"

definition release_credit :: "CXLMemExpander \<Rightarrow> bool \<Rightarrow> CXLMemExpander" where
  "release_credit e is_read =
     (if is_read
      then (if me_read_credits e < INITIAL_CREDITS
            then e\<lparr>me_read_credits := me_read_credits e + 1\<rparr> else e)
      else (if me_write_credits e < INITIAL_CREDITS
            then e\<lparr>me_write_credits := me_write_credits e + 1\<rparr> else e))"

definition calculate_congestion_delay :: "CXLMemExpander \<Rightarrow> u64 \<Rightarrow> real" where
  "calculate_congestion_delay e ts =
     (let queue_utilization = real (length (me_request_queue e)) / real MAX_QUEUE_SIZE in
      if queue_utilization < 1 / 2 then 0
      else if queue_utilization < 8 / 10 then (queue_utilization - 1 / 2) * 20
      else 6 + (queue_utilization - 8 / 10) * 100)"

definition calculate_protocol_overhead :: "u64 \<Rightarrow> real" where
  "calculate_protocol_overhead data_size =
     (let num_flits = (data_size + FLIT_SIZE - 1) div FLIT_SIZE
      in double_of_u64 (num_flits * DATA_FLIT) * (1 / 10))"

definition calculate_pipeline_latency :: "CXLMemExpander \<Rightarrow> CXLRequest \<Rightarrow> real" where
  "calculate_pipeline_latency e req =
     me_frontend_latency e + me_forward_latency e
     + (if rq_is_read req then la_read (me_latency e) else la_write (me_latency e))
     + me_response_latency e + calculate_protocol_overhead 64
     + calculate_congestion_delay e (rq_timestamp req)"

definition retire_requests :: "CXLMemExpander \<Rightarrow> u64 \<Rightarrow> CXLMemExpander" where
  "retire_requests e current_time =
     (let done = filter (\<lambda>(k, r). rq_complete_time r \<le> current_time) (me_in_flight_requests e);
          kept = filter (\<lambda>(k, r). \<not> rq_complete_time r \<le> current_time) (me_in_flight_requests e)
      in (fold (\<lambda>(k, r) e. release_credit e (rq_is_read r)) done e)
           \<lparr>me_in_flight_requests := kept\<rparr>)"

function issue_requests :: "CXLMemExpander \<Rightarrow> u64 \<Rightarrow> CXLMemExpander" where
  "issue_requests e current_time =
     (case me_request_queue e of
        [] \<Rightarrow> e
      | req # rest \<Rightarrow>
          if \<not> length (me_in_flight_requests e) < MAX_QUEUE_SIZE div 2 then e
          else if \<not> has_credits e (rq_is_read req) then e
          else
            let e1 = consume_credit e (rq_is_read req);
                req' = req\<lparr>rq_issue_time := current_time,
                           rq_complete_time := u64_of_double (double_of_u64 current_time
                             + calculate_pipeline_latency e1 req)\<rparr>
            in issue_requests
                 (e1\<lparr>me_in_flight_requests :=
                        map_set (rq_address req') req' (me_in_flight_requests e1),
                      me_request_queue := rest\<rparr>) current_time)"
  by pat_completeness auto

termination issue_requests
  by (relation "measure (\<lambda>(e, _). length (me_request_queue e))") (auto simp: consume_credit_def)

definition process_queued_requests :: "CXLMemExpander \<Rightarrow> u64 \<Rightarrow> CXLMemExpander" where
  "process_queued_requests e current_time =
     issue_requests (retire_requests e current_time) current_time"

section \<open>Latency and bandwidth\<close>

text \<open>
  The loop of \<open>calculate_latency\<close>; its arguments are the time of the previous local access, the sum
  and the number of latencies so far.  The sum \<open>pipeline_benefit\<close> of the code is never read.
\<close>

fun latency_loop ::
  "CXLMemExpander \<Rightarrow> access list \<Rightarrow> real \<Rightarrow> u64 \<Rightarrow> real \<Rightarrow> nat \<Rightarrow> real \<times> nat \<times> CXLMemExpander" where
  "latency_loop e [] dramlatency last_ts total_latency access_count = (total_latency, access_count, e)"
| "latency_loop e ((ts, addr) # elems) dramlatency last_ts total_latency access_count =
     (let (is_local, e1) = is_address_local e addr in
      if \<not> is_local then latency_loop e1 elems dramlatency last_ts total_latency access_count
      else
        let is_pipelined = (map_of (me_in_flight_requests e1) addr \<noteq> None);
            temp_req = \<lparr>rq_timestamp = ts, rq_address = addr, rq_tid = 0, rq_is_read = True,
                        rq_is_write = False, rq_issue_time = 0, rq_complete_time = 0\<rparr>;
            current =
              (if is_pipelined then la_read (me_latency e1) * (3 / 10)
               else
                 let l = calculate_pipeline_latency e1 temp_req
                 in if last_ts > 0 \<and> ts - last_ts < 100
                    then l - l * (1 - double_of_u64 (ts - last_ts) / 100) * (1 / 2)
                    else l)
        in latency_loop e1 elems dramlatency ts
             (total_latency + (current + dramlatency * (1 / 10))) (access_count + 1))"

definition calculate_latency ::
  "CXLMemExpander \<Rightarrow> access list \<Rightarrow> real \<Rightarrow> real \<times> CXLMemExpander" where
  "calculate_latency e elems dramlatency =
     (if elems = [] then (0, e)
      else
        let e1 = process_queued_requests e (fst (last elems));
            e2 = update_address_cache e1;
            (total_latency, access_count, e3) = latency_loop e2 elems dramlatency 0 0 0;
            total' = (if length (me_request_queue e3) < MAX_QUEUE_SIZE div 4
                      then total_latency * (9 / 10) else total_latency)
        in (if access_count > 0 then total' / real access_count else 0, e3))"

definition window_bandwidth :: "u64 \<Rightarrow> real" where
  "window_bandwidth total_data = (double_of_u64 total_data / (2 / 100)) / (1024 * 1024 * 1024)"

definition calculate_bandwidth :: "CXLMemExpander \<Rightarrow> access list \<Rightarrow> real" where
  "calculate_bandwidth e elems =
     (if elems = [] then 0
      else
        let current_time = fst (last elems);
            window_start = current_time - 20000000;
            access_count = length (filter (\<lambda>(ts, addr). ts \<ge> window_start) elems);
            total_data = of_nat access_count * 64;
            max_bandwidth = bw_read (me_bandwidth e) + bw_write (me_bandwidth e)
        in min (window_bandwidth total_data - max_bandwidth) 0)"

section \<open>Pages\<close>

definition touch :: "u64 \<Rightarrow> occupation_info \<Rightarrow> occupation_info" where
  "touch ts occ = occ\<lparr>oi_access_count := oi_access_count occ + 1, oi_timestamp := ts\<rparr>"

definition delete_entry :: "CXLMemExpander \<Rightarrow> u64 \<Rightarrow> u64 \<Rightarrow> CXLMemExpander" where
  "delete_entry e addr len =
     (let ts = me_last_timestamp e;
          exact = (\<lambda>occ. oi_address occ = addr);
          inside = (\<lambda>occ. oi_address occ \<ge> addr \<and> oi_address occ \<le> addr + len \<and> \<not> exact occ);
          occ1 = map (\<lambda>occ. if exact occ then touch ts occ else occ) (me_occupation e);
          occ2 = map (\<lambda>occ. if inside occ then touch ts occ else occ) occ1;
          modified = (list_ex exact (me_occupation e) \<or> list_ex inside occ1);
          e1 = e\<lparr>me_occupation := occ2, me_counter := expander_increment Load (me_counter e)\<rparr>
      in if modified then invalidate_cache e1 else e1)"

fun erase_address :: "u64 \<Rightarrow> occupation_info list \<Rightarrow> occupation_info list option" where
  "erase_address addr [] = None"
| "erase_address addr (occ # rest) =
     (if oi_address occ = addr then Some rest
      else map_option (\<lambda>r. occ # r) (erase_address addr rest))"

definition insert_page :: "CXLMemExpander \<Rightarrow> u64 \<Rightarrow> u64 \<Rightarrow> u64 \<Rightarrow> int \<times> CXLMemExpander" where
  "insert_page e ts tid phys_addr =
     (let req = \<lparr>rq_timestamp = ts, rq_address = phys_addr, rq_tid = tid, rq_is_read = False,
                 rq_is_write = True, rq_issue_time = 0, rq_complete_time = 0\<rparr>;
          page = \<lparr>oi_timestamp = ts, oi_address = phys_addr, oi_access_count = 0\<rparr>
      in
      if \<not> can_accept_request e
      then (0, e\<lparr>me_counter := expander_increment HitOld (me_counter e)\<rparr>)
      else
        let e1 = e\<lparr>me_request_queue := me_request_queue e @ [req]\<rparr>;
            found = (if phys_addr \<in> me_address_cache e1
                     then erase_address phys_addr (me_occupation e1) else None)
        in case found of
             Some occ \<Rightarrow>
               (2, e1\<lparr>me_occupation := occ @ [page],
                      me_counter := expander_increment Load (me_counter e1),
                      me_request_queue := butlast (me_request_queue e1)
                        @ [(last (me_request_queue e1))\<lparr>rq_is_read := True, rq_is_write := False\<rparr>]\<rparr>)
           | None \<Rightarrow>
               (1, e1\<lparr>me_occupation := me_occupation e1 @ [page],
                      me_address_cache := insert phys_addr (me_address_cache e1),
                      me_counter := expander_increment Store (me_counter e1)\<rparr>))"

definition expander_insert ::
  "CXLMemExpander \<Rightarrow> u64 \<Rightarrow> u64 \<Rightarrow> u64 \<Rightarrow> u64 \<Rightarrow> int \<Rightarrow> int \<times> CXLMemExpander" where
  "expander_insert e ts tid phys_addr virt_addr index =
     (if index = me_id e
      then
        let e1 = e\<lparr>me_last_timestamp :=
                     (if me_last_timestamp e > ts then me_last_timestamp e else ts)\<rparr>;
            e2 = process_queued_requests e1 ts
        in if phys_addr \<noteq> 0 then insert_page e2 ts tid phys_addr
           else (1, e2\<lparr>me_counter := expander_increment Store (me_counter e2)\<rparr>)
      else (0, e))"

definition get_access :: "CXLMemExpander \<Rightarrow> u64 \<Rightarrow> access list \<times> CXLMemExpander" where
  "get_access e ts =
     (map (\<lambda>occ. (oi_timestamp occ, oi_address occ))
        (filter (\<lambda>occ. oi_timestamp occ > ts - 100000) (me_occupation e)),
      e\<lparr>me_last_counter := me_counter e\<rparr>)"

definition set_epoch :: "CXLMemExpander \<Rightarrow> int \<Rightarrow> CXLMemExpander" where
  "set_epoch e epoch = e\<lparr>me_epoch := epoch\<rparr>"

definition free_stats :: "CXLMemExpander \<Rightarrow> (nat \<Rightarrow> bool) \<Rightarrow> CXLMemExpander" where
  "free_stats e dis =
     (let kept = map snd (filter (\<lambda>(i, _). \<not> dis i) (enumerate 0 (me_occupation e)));
          e1 = e\<lparr>me_occupation := kept\<rparr>
      in if length kept < length (me_occupation e) then invalidate_cache e1 else e1)"

section \<open>Specification\<close>

datatype expander_op =
    Insert u64 u64 u64 u64 int
  | Calculate_latency "access list" real
  | Delete_entry u64 u64
  | Get_access u64
  | Set_epoch int
  | Free_stats "nat \<Rightarrow> bool"
  | Update_address_cache

fun expander_step :: "CXLMemExpander \<Rightarrow> expander_op \<Rightarrow> CXLMemExpander" where
  "expander_step e (Insert ts tid phys virt index) = snd (expander_insert e ts tid phys virt index)"
| "expander_step e (Calculate_latency elems dram) = snd (calculate_latency e elems dram)"
| "expander_step e (Delete_entry addr len) = delete_entry e addr len"
| "expander_step e (Get_access ts) = snd (get_access e ts)"
| "expander_step e (Set_epoch ep) = set_epoch e ep"
| "expander_step e (Free_stats dis) = free_stats e dis"
| "expander_step e Update_address_cache = update_address_cache e"

inductive expander_reachable :: "CXLMemExpander \<Rightarrow> bool" where
  expander_start: "expander_reachable (new_CXLMemExpander rbw wbw rlat wlat ident cap)"
| expander_call: "expander_reachable e \<Longrightarrow> expander_reachable (expander_step e op)"

definition in_flight_of :: "CXLMemExpander \<Rightarrow> bool \<Rightarrow> nat" where
  "in_flight_of e is_read = length (filter (\<lambda>(k, r). rq_is_read r = is_read) (me_in_flight_requests e))"

definition credits_of :: "CXLMemExpander \<Rightarrow> bool \<Rightarrow> nat" where
  "credits_of e is_read = unat (if is_read then me_read_credits e else me_write_credits e)"

text \<open>The credits of a kind that are not lost: free ones and those of requests in flight.\<close>

definition credit_total :: "CXLMemExpander \<Rightarrow> bool \<Rightarrow> nat" where
  "credit_total e is_read = credits_of e is_read + in_flight_of e is_read"

definition flow_ok :: "CXLMemExpander \<Rightarrow> bool" where
  "flow_ok e \<longleftrightarrow> length (me_request_queue e) \<le> MAX_QUEUE_SIZE
     \<and> (\<forall>rd. credit_total e rd \<le> unat INITIAL_CREDITS)"

definition pages_ok :: "CXLMemExpander \<Rightarrow> bool" where
  "pages_ok e \<longleftrightarrow> distinct (map oi_address (me_occupation e))
     \<and> set (map oi_address (me_occupation e)) \<subseteq> me_address_cache e"

definition expander_inv :: "CXLMemExpander \<Rightarrow> bool" where
  "expander_inv e \<longleftrightarrow> pages_ok e \<and> flow_ok e \<and> me_address_ranges e = []"

text \<open>
  An expander stalled on a request: the oldest one, and all credits of its kind are lost.
\<close>

definition stalled :: "CXLMemExpander \<Rightarrow> CXLRequest \<Rightarrow> bool" where
  "stalled e req \<longleftrightarrow> (\<exists>rest. me_request_queue e = req # rest) \<and> credit_total e (rq_is_read req) = 0"

definition example_expander :: CXLMemExpander where
  "example_expander = new_CXLMemExpander 50 50 100 150 1 1024"

declare issue_requests.simps [simp del]

section \<open>Flow control\<close>

interpretation expander_credits: credit_pool
  "\<lambda>e. credits_of e rd" "\<lambda>e. unat INITIAL_CREDITS"
  "\<lambda>e. consume_credit e rd" "\<lambda>e. release_credit e rd" for rd
  by (unfold_locales; cases rd)
    (auto simp: credits_of_def consume_credit_def release_credit_def unat_sub_one
      unat_add_no_wrap [of _ 1] word_nat_simps)

lemma credits_other [simp]:
  "rd \<noteq> rd' \<Longrightarrow> credits_of (release_credit e rd) rd' = credits_of e rd'"
  "rd \<noteq> rd' \<Longrightarrow> credits_of (consume_credit e rd) rd' = credits_of e rd'"
  by (cases rd; simp add: credits_of_def release_credit_def consume_credit_def)+

lemma credit_fields [frame_simps]:
  "me_request_queue (release_credit e rd) = me_request_queue e"
  "me_in_flight_requests (release_credit e rd) = me_in_flight_requests e"
  "me_request_queue (consume_credit e rd) = me_request_queue e"
  "me_in_flight_requests (consume_credit e rd) = me_in_flight_requests e"
  by (simp_all add: release_credit_def consume_credit_def)

lemma credits_release_le: "credits_of (release_credit e rd) rd' \<le> credits_of e rd' + (if rd = rd' then 1 else 0)"
  using expander_credits.credits_give [of e rd] expander_credits.give_full [of e rd]
  by (cases "credits_of e rd < unat INITIAL_CREDITS"; cases "rd = rd'") auto

lemma credits_retire_fold:
  "credits_of (fold (\<lambda>(k, r) e. release_credit e (rq_is_read r)) rs e) rd
     \<le> credits_of e rd + length (filter (\<lambda>(k, r). rq_is_read r = rd) rs)"
proof (induction rs arbitrary: e)
  case (Cons p rs)
  obtain k r where p: "p = (k, r)" by (cases p)
  show ?case
    using Cons.IH [of "release_credit e (rq_is_read r)"] credits_release_le [of e "rq_is_read r" rd]
    by (cases "rq_is_read r = rd") (simp_all add: p)
qed simp

lemma retire_fold_fields [frame_simps]:
  "me_request_queue (fold (\<lambda>(k, r) e. release_credit e (rq_is_read r)) rs e) = me_request_queue e"
  by (induction rs arbitrary: e) (auto simp: frame_simps)

lemma length_filter_partition:
  "length (filter P (filter Q xs)) + length (filter P (filter (\<lambda>x. \<not> Q x) xs)) = length (filter P xs)"
  by (induction xs) auto

lemma retire_credit_total: "credit_total (retire_requests e now) rd \<le> credit_total e rd"
proof -
  let ?q = "\<lambda>(k::u64, r). rq_complete_time r \<le> now"
  have "credits_of (retire_requests e now) rd
      \<le> credits_of e rd + length (filter (\<lambda>(k, r). rq_is_read r = rd) (filter ?q (me_in_flight_requests e)))"
    using credits_retire_fold [of "filter ?q (me_in_flight_requests e)" e rd]
    by (simp add: retire_requests_def Let_def credits_of_def split: if_splits)
  moreover have "in_flight_of (retire_requests e now) rd =
      length (filter (\<lambda>(k, r). rq_is_read r = rd) (filter (\<lambda>x. \<not> ?q x) (me_in_flight_requests e)))"
    by (simp add: retire_requests_def Let_def in_flight_of_def split_beta)
  ultimately show ?thesis
    using length_filter_partition [of "\<lambda>(k, r). rq_is_read r = rd" ?q "me_in_flight_requests e"]
    unfolding credit_total_def in_flight_of_def [of e] by linarith
qed

lemma length_filter_map_set:
  "length (filter P (map_set k v m)) \<le> length (filter P m) + (if P (k, v) then 1 else 0)"
proof (induction m)
  case (Cons p m)
  then show ?case by (cases p) auto
qed simp

text \<open>The loop of \<open>process_queued_requests\<close> as steps: whether the oldest request can go, and the state once it went.\<close>

definition issuable :: "CXLMemExpander \<Rightarrow> CXLRequest \<Rightarrow> bool" where
  "issuable e req \<longleftrightarrow> length (me_in_flight_requests e) < MAX_QUEUE_SIZE div 2 \<and> has_credits e (rq_is_read req)"

definition issue_first :: "CXLMemExpander \<Rightarrow> u64 \<Rightarrow> CXLRequest \<Rightarrow> CXLRequest list \<Rightarrow> CXLMemExpander" where
  "issue_first e now req rest =
     (let e1 = consume_credit e (rq_is_read req);
          req' = req\<lparr>rq_issue_time := now,
                     rq_complete_time := u64_of_double (double_of_u64 now + calculate_pipeline_latency e1 req)\<rparr>
      in e1\<lparr>me_in_flight_requests := map_set (rq_address req') req' (me_in_flight_requests e1),
            me_request_queue := rest\<rparr>)"

lemma issue_step:
  "me_request_queue e = req # rest \<Longrightarrow> issuable e req \<Longrightarrow>
     issue_requests e now = issue_requests (issue_first e now req rest) now"
  by (subst issue_requests.simps) (simp add: issuable_def issue_first_def Let_def)

lemma issue_stop:
  "\<not> (\<exists>req rest. me_request_queue e = req # rest \<and> issuable e req) \<Longrightarrow> issue_requests e now = e"
  by (subst issue_requests.simps) (auto simp: issuable_def split: list.splits)

lemma issue_induct [case_names stop step]:
  assumes "\<And>e. \<not> (\<exists>req rest. me_request_queue e = req # rest \<and> issuable e req) \<Longrightarrow> P e e"
    and "\<And>e req rest e'. me_request_queue e = req # rest \<Longrightarrow> issuable e req \<Longrightarrow>
      P (issue_first e now req rest) e' \<Longrightarrow> P e e'"
  shows "P e (issue_requests e now)"
proof (induction "length (me_request_queue e)" arbitrary: e rule: less_induct)
  case less
  show ?case
  proof (cases "\<exists>req rest. me_request_queue e = req # rest \<and> issuable e req")
    case True
    then obtain req rest where q: "me_request_queue e = req # rest" "issuable e req" by blast
    have "length (me_request_queue (issue_first e now req rest)) < length (me_request_queue e)"
      by (simp add: q(1) issue_first_def Let_def)
    from assms(2) [OF q less [OF this]] show ?thesis unfolding issue_step [OF q] .
  next
    case False
    then show ?thesis unfolding issue_stop [OF False] by (rule assms(1))
  qed
qed

lemma issue_first_credits:
  assumes "issuable e req"
  shows "credits_of (issue_first e now req rest) rd + (if rq_is_read req = rd then 1 else 0) = credits_of e rd"
proof -
  have "0 < credits_of e (rq_is_read req)"
    using assms by (simp add: issuable_def has_credits_def credits_of_def word_gt_0 unat_gt_0 split: if_splits)
  moreover have "credits_of (issue_first e now req rest) rd = credits_of (consume_credit e (rq_is_read req)) rd"
    by (simp add: issue_first_def credits_of_def Let_def)
  ultimately show ?thesis
    using expander_credits.credits_take [of e "rq_is_read req"] by (cases "rq_is_read req = rd") auto
qed

lemma issue_first_in_flight:
  obtains r where "rq_is_read r = rq_is_read req"
    "me_in_flight_requests (issue_first e now req rest) = map_set (rq_address req) r (me_in_flight_requests e)"
proof -
  let ?r = "req\<lparr>rq_issue_time := now, rq_complete_time :=
    u64_of_double (double_of_u64 now + calculate_pipeline_latency (consume_credit e (rq_is_read req)) req)\<rparr>"
  show thesis by (rule that [of ?r]) (simp_all add: issue_first_def Let_def frame_simps)
qed

lemma issue_first_credit_total:
  assumes "issuable e req"
  shows "credit_total (issue_first e now req rest) rd \<le> credit_total e rd"
proof -
  obtain r where r: "rq_is_read r = rq_is_read req"
      "me_in_flight_requests (issue_first e now req rest) = map_set (rq_address req) r (me_in_flight_requests e)"
    by (rule issue_first_in_flight)
  have "in_flight_of (issue_first e now req rest) rd \<le> in_flight_of e rd + (if rq_is_read req = rd then 1 else 0)"
    using length_filter_map_set [of "\<lambda>(k, r). rq_is_read r = rd" "rq_address req" r "me_in_flight_requests e"] r
    by (simp add: in_flight_of_def)
  with issue_first_credits [OF assms, of now rest rd] show ?thesis by (simp add: credit_total_def)
qed

lemma issue_credit_total: "credit_total (issue_requests e now) rd \<le> credit_total e rd"
proof (induction rule: issue_induct)
  case (step e req rest e')
  show ?case using step(3) issue_first_credit_total [OF step(2), of now rest rd] by (rule order_trans)
qed simp

lemma issue_queue: "length (me_request_queue (issue_requests e now)) \<le> length (me_request_queue e)"
proof (induction rule: issue_induct)
  case (step e req rest e')
  then show ?case by (simp add: issue_first_def Let_def)
qed simp

lemma process_credit_total: "credit_total (process_queued_requests e now) rd \<le> credit_total e rd"
  unfolding process_queued_requests_def
  using issue_credit_total retire_credit_total by (rule order_trans)

lemma flow_ok_process:
  assumes "flow_ok e"
  shows "flow_ok (process_queued_requests e now)"
proof -
  have "length (me_request_queue (retire_requests e now)) = length (me_request_queue e)"
    by (simp add: retire_requests_def Let_def frame_simps)
  then have "length (me_request_queue (process_queued_requests e now)) \<le> length (me_request_queue e)"
    unfolding process_queued_requests_def using issue_queue [of "retire_requests e now" now] by simp
  then show ?thesis
    using assms process_credit_total [of e now] unfolding flow_ok_def by (meson order_trans)
qed

lemma flow_ok_same:
  "me_request_queue e' = me_request_queue e \<Longrightarrow> me_in_flight_requests e' = me_in_flight_requests e \<Longrightarrow>
   me_read_credits e' = me_read_credits e \<Longrightarrow> me_write_credits e' = me_write_credits e \<Longrightarrow>
     flow_ok e' = flow_ok e"
  by (simp add: flow_ok_def credit_total_def credits_of_def in_flight_of_def)

section \<open>Fields that processing requests leaves alone\<close>

lemma retire_frame:
  "\<exists>rc wc fl. retire_requests e now = e\<lparr>me_read_credits := rc, me_write_credits := wc,
     me_in_flight_requests := fl\<rparr>"
proof -
  have "\<exists>rc wc. fold (\<lambda>(k, r) e. release_credit e (rq_is_read r)) rs e =
      e\<lparr>me_read_credits := rc, me_write_credits := wc\<rparr>" for rs :: "(u64 \<times> CXLRequest) list"
  proof (induction rs arbitrary: e)
    case Nil
    show ?case by (intro exI [of _ "me_read_credits e"] exI [of _ "me_write_credits e"]) simp
  next
    case (Cons p rs)
    have "release_credit e (rq_is_read (snd p)) =
        e\<lparr>me_read_credits := me_read_credits (release_credit e (rq_is_read (snd p))),
          me_write_credits := me_write_credits (release_credit e (rq_is_read (snd p)))\<rparr>"
      by (simp add: release_credit_def)
    then obtain rc wc where "release_credit e (rq_is_read (snd p)) =
        e\<lparr>me_read_credits := rc, me_write_credits := wc\<rparr>" by blast
    then show ?case
      using Cons.IH [of "release_credit e (rq_is_read (snd p))"] by (auto simp: split_beta)
  qed
  then obtain rc wc where "fold (\<lambda>(k, r) e. release_credit e (rq_is_read r))
      (filter (\<lambda>(k, r). rq_complete_time r \<le> now) (me_in_flight_requests e)) e =
      e\<lparr>me_read_credits := rc, me_write_credits := wc\<rparr>" by blast
  then show ?thesis unfolding retire_requests_def Let_def by auto
qed

lemma issue_frame:
  "\<exists>rc wc fl q. issue_requests e now = e\<lparr>me_read_credits := rc, me_write_credits := wc,
     me_in_flight_requests := fl, me_request_queue := q\<rparr>"
proof (induction e now rule: issue_requests.induct)
  case (1 e now)
  show ?case
  proof (cases "\<exists>req rest. me_request_queue e = req # rest
      \<and> length (me_in_flight_requests e) < MAX_QUEUE_SIZE div 2 \<and> has_credits e (rq_is_read req)")
    case False
    then have "issue_requests e now = e"
      by (subst issue_requests.simps) (auto split: list.splits)
    then show ?thesis
      by (intro exI [of _ "me_read_credits e"] exI [of _ "me_write_credits e"]
          exI [of _ "me_in_flight_requests e"] exI [of _ "me_request_queue e"]) simp
  next
    case True
    then obtain req rest where q: "me_request_queue e = req # rest"
      and room: "length (me_in_flight_requests e) < MAX_QUEUE_SIZE div 2"
      and cr: "has_credits e (rq_is_read req)" by blast
    let ?e1 = "consume_credit e (rq_is_read req)"
    let ?r = "req\<lparr>rq_issue_time := now, rq_complete_time := u64_of_double (double_of_u64 now
      + calculate_pipeline_latency ?e1 req)\<rparr>"
    let ?e2 = "?e1\<lparr>me_in_flight_requests := map_set (rq_address ?r) ?r (me_in_flight_requests ?e1),
      me_request_queue := rest\<rparr>"
    have step: "issue_requests e now = issue_requests ?e2 now"
      by (subst issue_requests.simps) (use q room cr in \<open>simp add: Let_def\<close>)
    have "\<exists>rc wc fl q'. issue_requests ?e2 now = ?e2\<lparr>me_read_credits := rc,
        me_write_credits := wc, me_in_flight_requests := fl, me_request_queue := q'\<rparr>"
      using 1 [OF q _ _ refl refl] room cr by simp
    then obtain rc wc fl q' where "issue_requests ?e2 now = ?e2\<lparr>me_read_credits := rc,
        me_write_credits := wc, me_in_flight_requests := fl, me_request_queue := q'\<rparr>" by blast
    moreover have "?e2\<lparr>me_read_credits := rc, me_write_credits := wc, me_in_flight_requests := fl,
        me_request_queue := q'\<rparr> = e\<lparr>me_read_credits := rc, me_write_credits := wc,
        me_in_flight_requests := fl, me_request_queue := q'\<rparr>"
      by (simp add: consume_credit_def)
    ultimately show ?thesis unfolding step by auto
  qed
qed

lemma process_fields [frame_simps]:
  "me_occupation (process_queued_requests e now) = me_occupation e"
  "me_address_cache (process_queued_requests e now) = me_address_cache e"
  "me_address_ranges (process_queued_requests e now) = me_address_ranges e"
  "me_cache_valid (process_queued_requests e now) = me_cache_valid e"
  "me_counter (process_queued_requests e now) = me_counter e"
  "me_id (process_queued_requests e now) = me_id e"
proof -
  obtain rc wc fl where r: "retire_requests e now = e\<lparr>me_read_credits := rc, me_write_credits := wc,
     me_in_flight_requests := fl\<rparr>" using retire_frame by blast
  obtain rc' wc' fl' q' where i: "issue_requests (retire_requests e now) now =
      (retire_requests e now)\<lparr>me_read_credits := rc', me_write_credits := wc',
       me_in_flight_requests := fl', me_request_queue := q'\<rparr>" using issue_frame by blast
  show "me_occupation (process_queued_requests e now) = me_occupation e"
    "me_address_cache (process_queued_requests e now) = me_address_cache e"
    "me_address_ranges (process_queued_requests e now) = me_address_ranges e"
    "me_cache_valid (process_queued_requests e now) = me_cache_valid e"
    "me_counter (process_queued_requests e now) = me_counter e"
    "me_id (process_queued_requests e now) = me_id e"
    unfolding process_queued_requests_def i by (simp_all add: r)
qed

section \<open>Address ranges\<close>

lemma in_ranges_Cons:
  "in_ranges (r # rs) a = (if ar_end r < a then in_ranges rs a else ar_start r \<le> a)"
  by (cases "ar_end r < a") (auto simp: in_ranges_def)

lemma merge_ranges_correct:
  assumes "sorted (map oi_address occ)" "\<forall>o1 \<in> set occ. ar_end cur \<le> oi_address o1"
    and "ar_start cur \<le> ar_end cur"
  shows "in_ranges (merge_ranges cur occ) a \<longleftrightarrow>
    ar_start cur \<le> a \<and> a \<le> ar_end cur \<or> a \<in> oi_address ` set occ"
  using assms
proof (induction cur occ rule: merge_ranges.induct)
  case (1 cur)
  then show ?case by (auto simp: in_ranges_Cons) (simp add: in_ranges_def)
next
  case (2 cur o1 rest)
  let ?n = "oi_address o1"
  have le: "ar_end cur \<le> ?n" and rest: "\<forall>o2 \<in> set rest. ?n \<le> oi_address o2"
    and sorted: "sorted (map oi_address rest)"
    using 2(3,4) by auto
  show ?case
  proof (cases "?n = ar_end cur + 1")
    case True
    have "ar_end cur < ar_end cur + 1" using le True
      by (metis add_cancel_right_right order_le_imp_less_or_eq zero_neq_one)
    then have split: "a \<le> ?n \<longleftrightarrow> a \<le> ar_end cur \<or> a = ?n"
      unfolding True by (auto simp: word_nat_simps word_unat_eq_iff unat_add_one)
    have "ar_start cur \<le> ?n" using 2(5) le by simp
    from 2(1) [OF True sorted] rest this show ?thesis
      using True split by auto
  next
    case False
    from 2(2) [OF False sorted] rest have IH: "in_ranges (merge_ranges \<lparr>ar_start = ?n, ar_end = ?n\<rparr> rest) a
        \<longleftrightarrow> a = ?n \<or> a \<in> oi_address ` set rest" by auto
    have tail: "\<forall>b \<in> oi_address ` set (o1 # rest). ar_end cur \<le> b" using le rest by auto
    show ?thesis
    proof (cases "ar_end cur < a")
      case True
      then show ?thesis using False IH by (auto simp: in_ranges_Cons)
    next
      case out: False
      then have "a = ar_end cur" if "a \<in> oi_address ` set (o1 # rest)"
        using that tail by (meson antisym not_less)
      then show ?thesis using False out 2(5) by (auto simp: in_ranges_Cons)
    qed
  qed
qed

lemma range_cache_correct:
  assumes "\<not> me_cache_valid e"
  shows "fst (is_address_local e a) \<longleftrightarrow> a \<in> oi_address ` set (me_occupation e)"
proof (cases "sort_key oi_address (me_occupation e)")
  case Nil
  then have "me_occupation e = []" by (metis length_0_conv length_sort)
  with assms show ?thesis
    by (simp add: is_address_local_def update_range_cache_def Let_def in_ranges_def)
next
  case (Cons o1 rest)
  have sorted: "sorted (map oi_address (o1 # rest))" unfolding Cons [symmetric] by (rule sorted_sort_key)
  have "set (me_occupation e) = set (o1 # rest)" unfolding Cons [symmetric] by simp
  moreover have "in_ranges (merge_ranges \<lparr>ar_start = oi_address o1, ar_end = oi_address o1\<rparr> rest) a
      \<longleftrightarrow> a = oi_address o1 \<or> a \<in> oi_address ` set rest"
    using merge_ranges_correct [of rest "\<lparr>ar_start = oi_address o1, ar_end = oi_address o1\<rparr>" a] sorted
    by auto
  ultimately show ?thesis
    using assms by (simp add: is_address_local_def update_range_cache_def Let_def Cons)
qed

section \<open>Reachable expanders\<close>

lemma latency_loop_blind:
  assumes "me_cache_valid e" "me_address_ranges e = []"
  shows "latency_loop e elems dram last_ts t c = (t, c, e)"
  using assms
  by (induction elems arbitrary: last_ts t c) (auto simp: is_address_local_def in_ranges_def)

lemma update_address_cache_fields [frame_simps]:
  "me_occupation (update_address_cache e) = me_occupation e"
  "me_address_ranges (update_address_cache e) = me_address_ranges e"
  "me_cache_valid (update_address_cache e)"
  "me_request_queue (update_address_cache e) = me_request_queue e"
  "me_in_flight_requests (update_address_cache e) = me_in_flight_requests e"
  "me_read_credits (update_address_cache e) = me_read_credits e"
  "me_write_credits (update_address_cache e) = me_write_credits e"
  by (simp_all add: update_address_cache_def)

lemma calculate_latency_blind:
  assumes "me_address_ranges e = []"
  shows "calculate_latency e elems dram =
    (0, if elems = [] then e else update_address_cache (process_queued_requests e (fst (last elems))))"
  using assms
  by (simp add: calculate_latency_def Let_def split_beta latency_loop_blind frame_simps)

lemma pages_ok_update_cache: "pages_ok e \<Longrightarrow> pages_ok (update_address_cache e)"
  by (simp add: pages_ok_def update_address_cache_def)

lemma erase_address_Some:
  assumes "distinct (map oi_address occ)"
  shows "erase_address a occ =
    (if a \<in> oi_address ` set occ then Some (filter (\<lambda>o1. oi_address o1 \<noteq> a) occ) else None)"
  using assms
proof (induction occ)
  case (Cons o1 occ)
  have "filter (\<lambda>o1. oi_address o1 \<noteq> a) occ = occ" if "oi_address o1 = a"
    using Cons.prems that by (auto simp: filter_id_conv image_iff)
  then show ?case using Cons by auto
qed simp

lemma insert_page_accept:
  fixes e ts addr
  defines "page \<equiv> \<lparr>oi_timestamp = ts, oi_address = addr, oi_access_count = 0\<rparr>"
  assumes "pages_ok e" "can_accept_request e"
  shows "fst (insert_page e ts tid addr) = (if addr \<in> oi_address ` set (me_occupation e) then 2 else 1)"
    and "me_occupation (snd (insert_page e ts tid addr)) =
      filter (\<lambda>o1. oi_address o1 \<noteq> addr) (me_occupation e) @ [page]"
    and "me_address_cache (snd (insert_page e ts tid addr)) = insert addr (me_address_cache e)"
    and "map rq_address (me_request_queue (snd (insert_page e ts tid addr))) =
      map rq_address (me_request_queue e) @ [addr]"
proof -
  have d: "distinct (map oi_address (me_occupation e))"
    and sub: "oi_address ` set (me_occupation e) \<subseteq> me_address_cache e"
    using assms(2) by (simp_all add: pages_ok_def)
  have "filter (\<lambda>o1. oi_address o1 \<noteq> addr) (me_occupation e) = me_occupation e"
    if "addr \<notin> oi_address ` set (me_occupation e)"
    using that by (auto simp: filter_id_conv)
  then show "fst (insert_page e ts tid addr) = (if addr \<in> oi_address ` set (me_occupation e) then 2 else 1)"
    "me_occupation (snd (insert_page e ts tid addr)) =
      filter (\<lambda>o1. oi_address o1 \<noteq> addr) (me_occupation e) @ [page]"
    "me_address_cache (snd (insert_page e ts tid addr)) = insert addr (me_address_cache e)"
    "map rq_address (me_request_queue (snd (insert_page e ts tid addr))) =
      map rq_address (me_request_queue e) @ [addr]"
    using assms(3) erase_address_Some [OF d, of addr] sub
    by (auto simp: insert_page_def Let_def page_def insert_absorb subset_iff split: if_splits)
qed

lemma insert_page_reject:
  "\<not> can_accept_request e \<Longrightarrow> insert_page e ts tid addr =
     (0, e\<lparr>me_counter := expander_increment HitOld (me_counter e)\<rparr>)"
  by (simp add: insert_page_def)

lemma pages_ok_insert_page: "pages_ok e \<Longrightarrow> pages_ok (snd (insert_page e ts tid addr))"
proof (cases "can_accept_request e")
  case True
  assume ok: "pages_ok e"
  have "distinct (map oi_address (filter P (me_occupation e)))" for P
    using ok by (simp add: pages_ok_def distinct_map_filter)
  with ok show ?thesis
    by (auto simp: pages_ok_def insert_page_accept(2,3) [OF ok True])
qed (simp add: insert_page_reject pages_ok_def)

lemma insert_page_flow_fields [frame_simps]:
  "me_in_flight_requests (snd (insert_page e ts tid addr)) = me_in_flight_requests e"
  "me_read_credits (snd (insert_page e ts tid addr)) = me_read_credits e"
  "me_write_credits (snd (insert_page e ts tid addr)) = me_write_credits e"
  by (simp_all add: insert_page_def Let_def split: option.splits)

lemma insert_page_queue:
  "length (me_request_queue e) \<le> MAX_QUEUE_SIZE \<Longrightarrow>
     length (me_request_queue (snd (insert_page e ts tid addr))) \<le> MAX_QUEUE_SIZE"
  by (auto simp: insert_page_def can_accept_request_def Let_def split: option.splits)

lemma flow_ok_insert_page:
  assumes "flow_ok e"
  shows "flow_ok (snd (insert_page e ts tid addr))"
proof -
  have "credits_of (snd (insert_page e ts tid addr)) = credits_of e"
    "in_flight_of (snd (insert_page e ts tid addr)) = in_flight_of e"
    by (simp_all add: credits_of_def in_flight_of_def frame_simps fun_eq_iff)
  then show ?thesis using assms insert_page_queue unfolding flow_ok_def credit_total_def by simp
qed

lemma pages_ok_process [simp]: "pages_ok (process_queued_requests e now) = pages_ok e"
  by (simp add: pages_ok_def frame_simps)

lemma flow_ok_fields [simp]:
  "flow_ok (e\<lparr>me_last_timestamp := t\<rparr>) = flow_ok e"
  "flow_ok (e\<lparr>me_counter := c\<rparr>) = flow_ok e"
  "flow_ok (e\<lparr>me_last_counter := c\<rparr>) = flow_ok e"
  "flow_ok (e\<lparr>me_epoch := ep\<rparr>) = flow_ok e"
  "flow_ok (e\<lparr>me_occupation := oc\<rparr>) = flow_ok e"
  "flow_ok (e\<lparr>me_cache_valid := b\<rparr>) = flow_ok e"
  "flow_ok (update_address_cache e) = flow_ok e"
  by (rule flow_ok_same; simp add: frame_simps)+

lemma pages_ok_fields [simp]:
  "pages_ok (e\<lparr>me_last_timestamp := t\<rparr>) = pages_ok e"
  "pages_ok (e\<lparr>me_counter := c\<rparr>) = pages_ok e"
  "pages_ok (e\<lparr>me_last_counter := c\<rparr>) = pages_ok e"
  "pages_ok (e\<lparr>me_epoch := ep\<rparr>) = pages_ok e"
  "pages_ok (e\<lparr>me_cache_valid := b\<rparr>) = pages_ok e"
  by (simp_all add: pages_ok_def)

lemma insert_page_ranges [frame_simps]:
  "me_address_ranges (snd (insert_page e ts tid addr)) = me_address_ranges e"
  by (simp add: insert_page_def Let_def split: option.splits)

lemma expander_inv_insert: "expander_inv e \<Longrightarrow> expander_inv (snd (expander_insert e ts tid phys virt index))"
  by (auto simp: expander_insert_def Let_def expander_inv_def frame_simps flow_ok_process
      pages_ok_insert_page flow_ok_insert_page)

lemma expander_inv_delete: "expander_inv e \<Longrightarrow> expander_inv (delete_entry e addr len)"
proof -
  have "oi_address (touch ts occ) = oi_address occ" for ts occ
    by (simp add: touch_def)
  then have "map oi_address (me_occupation (delete_entry e addr len)) = map oi_address (me_occupation e)"
    by (simp add: delete_entry_def Let_def invalidate_cache_def)
  then show "expander_inv e \<Longrightarrow> expander_inv (delete_entry e addr len)"
    unfolding expander_inv_def pages_ok_def
    by (simp add: delete_entry_def Let_def invalidate_cache_def)
qed

lemma expander_inv_free: "expander_inv e \<Longrightarrow> expander_inv (free_stats e dis)"
proof -
  assume inv: "expander_inv e"
  let ?kept = "map snd (filter (\<lambda>(i, _). \<not> dis i) (enumerate 0 (me_occupation e)))"
  have occ: "me_occupation e = map snd (enumerate 0 (me_occupation e))" by simp
  have "distinct (map oi_address (map snd (enumerate 0 (me_occupation e))))"
    using inv by (simp add: expander_inv_def pages_ok_def)
  then have "distinct (map oi_address ?kept)"
    unfolding map_map by (rule distinct_map_filter)
  moreover have "set ?kept \<subseteq> set (me_occupation e)" by (auto simp: in_set_enumerate_eq)
  ultimately show ?thesis
    using inv
    by (auto simp: expander_inv_def pages_ok_def free_stats_def invalidate_cache_def Let_def
        simp flip: map_map)
qed

lemma expander_inv_step: "expander_inv e \<Longrightarrow> expander_inv (expander_step e op)"
proof (cases op)
  case (Calculate_latency elems dram)
  assume inv: "expander_inv e"
  then show ?thesis
    using Calculate_latency calculate_latency_blind [of e elems dram]
    by (auto simp: expander_inv_def frame_simps flow_ok_process pages_ok_update_cache)
next
  case (Get_access ts)
  assume "expander_inv e"
  then show ?thesis by (simp add: Get_access get_access_def expander_inv_def)
next
  case (Set_epoch ep)
  assume "expander_inv e"
  then show ?thesis by (simp add: Set_epoch set_epoch_def expander_inv_def)
next
  case Update_address_cache
  assume "expander_inv e"
  then show ?thesis
    by (simp add: Update_address_cache expander_inv_def pages_ok_update_cache frame_simps)
qed (simp_all add: expander_inv_insert expander_inv_delete expander_inv_free)

lemma expander_inv_new: "expander_inv (new_CXLMemExpander rbw wbw rlat wlat ident cap)"
  by (simp add: expander_inv_def pages_ok_def flow_ok_def credit_total_def credits_of_def in_flight_of_def
      new_CXLMemExpander_def)

lemma expander_reachable_inv: "expander_reachable e \<Longrightarrow> expander_inv e"
  by (induction rule: expander_reachable.induct) (simp_all add: expander_inv_new expander_inv_step)

lemma in_flight_kinds:
  "length rs = length (filter (\<lambda>(k, r). rq_is_read r = True) rs)
     + length (filter (\<lambda>(k, r). rq_is_read r = False) rs)"
  by (induction rs) auto

section \<open>Properties of the expander\<close>

text \<open>
  C28. Flow control holds in every reachable state: the queue has at most 64 requests, each kind of
  credit is at most its initial number, and credits plus requests in flight of a kind never exceed
  it, so that at most four requests are in flight.
\<close>

theorem expander_flow_bounds:
  assumes "expander_reachable e"
  shows "length (me_request_queue e) \<le> MAX_QUEUE_SIZE
    \<and> credits_of e rd + in_flight_of e rd \<le> unat INITIAL_CREDITS
    \<and> length (me_in_flight_requests e) \<le> 4"
proof -
  have flow: "flow_ok e" using expander_reachable_inv [OF assms] by (simp add: expander_inv_def)
  have "length (me_in_flight_requests e) = in_flight_of e True + in_flight_of e False"
    unfolding in_flight_of_def by (rule in_flight_kinds)
  moreover have "in_flight_of e True \<le> 2" "in_flight_of e False \<le> 2"
    using flow unfolding flow_ok_def credit_total_def by (auto dest: spec [of _ True] spec [of _ False])
  ultimately show ?thesis using flow unfolding flow_ok_def credit_total_def by auto
qed

lemma example_expander_reachable: "expander_reachable (foldl expander_step example_expander ops)"
proof (induction ops rule: rev_induct)
  case Nil
  show ?case by (simp add: example_expander_def expander_start)
qed (simp add: expander_call)

lemma expander_flow_bounds_witness:
  "length (me_in_flight_requests (foldl expander_step example_expander
     [Insert 1 7 64 64 1, Insert 2 7 128 128 1, Insert 3 7 192 192 1])) \<le> 4"
  using expander_flow_bounds [OF example_expander_reachable] by blast

text \<open>
  C29. What \<open>insert\<close> answers: 0 for another endpoint's index, 1 for the address 0, with no page recorded
  in both cases.  For any other address 0 if the queue is full, again with no page recorded;
  otherwise 2 if the address is recorded and 1 if it is new, and afterwards the address is recorded
  exactly once, last and with the time of this access.
\<close>

theorem expander_insert_result:
  fixes e ts tid phys virt index
  defines "e' \<equiv> process_queued_requests (e\<lparr>me_last_timestamp := max (me_last_timestamp e) ts\<rparr>) ts"
    and "r \<equiv> expander_insert e ts tid phys virt index"
  assumes "expander_reachable e"
  shows "fst r = (if index \<noteq> me_id e then 0 else if phys = 0 then 1
      else if length (me_request_queue e') = MAX_QUEUE_SIZE then 0
      else if phys \<in> oi_address ` set (me_occupation e) then 2 else 1)
    \<and> me_occupation (snd r) = (if fst r = 0 \<or> phys = 0 then me_occupation e
      else filter (\<lambda>occ. oi_address occ \<noteq> phys) (me_occupation e)
        @ [\<lparr>oi_timestamp = ts, oi_address = phys, oi_access_count = 0\<rparr>])"
proof (cases "index = me_id e \<and> phys \<noteq> 0")
  case True
  have inv: "expander_inv e" using assms(3) by (rule expander_reachable_inv)
  have occ: "me_occupation e' = me_occupation e" by (simp add: e'_def frame_simps)
  have ok: "pages_ok e'" and "flow_ok e'"
    using inv by (simp_all add: e'_def expander_inv_def flow_ok_process)
  then have acc: "can_accept_request e' \<longleftrightarrow> length (me_request_queue e') \<noteq> MAX_QUEUE_SIZE"
    by (auto simp: can_accept_request_def flow_ok_def)
  have "(if ts < me_last_timestamp e then me_last_timestamp e else ts) = max (me_last_timestamp e) ts"
    by (auto simp: max_def)
  then have r: "r = insert_page e' ts tid phys"
    using True by (simp add: r_def expander_insert_def e'_def Let_def)
  show ?thesis
  proof (cases "can_accept_request e'")
    case acc': True
    show ?thesis
      using insert_page_accept(1,2) [OF ok acc', of ts tid phys] acc acc' True by (simp add: r occ)
  next
    case False
    then show ?thesis using acc True by (simp add: r insert_page_reject occ)
  qed
next
  case False
  then show ?thesis by (auto simp: r_def expander_insert_def frame_simps Let_def)
qed

lemma expander_insert_result_witness:
  "fst (expander_insert example_expander 5 7 64 64 1) = 1
    \<and> fst (expander_insert example_expander 5 7 64 64 2) = 0
    \<and> fst (expander_insert example_expander 5 7 0 0 1) = 1"
  using expander_insert_result [where e = example_expander and ts = 5 and tid = 7 and phys = 64 and virt = 64 and index = 1]
    expander_insert_result [where e = example_expander and ts = 5 and tid = 7 and phys = 64 and virt = 64 and index = 2]
    expander_insert_result [where e = example_expander and ts = 5 and tid = 7 and phys = 0 and virt = 0 and index = 1]
    example_expander_reachable [of "[]"]
  by (simp add: example_expander_def new_CXLMemExpander_def process_queued_requests_def
      retire_requests_def issue_requests.simps)

text \<open>
  C30. The ranges built from the pages represent exactly the recorded addresses: where the caches are
  out of date, the binary search over the merged ranges finds an address if and only if a page
  records it.
\<close>

theorem range_search_correct:
  assumes "\<not> me_cache_valid e"
  shows "fst (is_address_local e a) \<longleftrightarrow> a \<in> oi_address ` set (me_occupation e)"
  using assms by (rule range_cache_correct)

lemma range_search_correct_witness:
  "fst (is_address_local (snd (expander_insert example_expander 5 7 64 64 1)) 64)"
proof -
  have "\<not> me_cache_valid (snd (expander_insert example_expander 5 7 64 64 1))"
    "64 \<in> oi_address ` set (me_occupation (snd (expander_insert example_expander 5 7 64 64 1)))"
    by (simp_all add: example_expander_def new_CXLMemExpander_def expander_insert_def Let_def
        process_queued_requests_def retire_requests_def issue_requests.simps insert_page_def
        can_accept_request_def)
  then show ?thesis by (simp add: range_search_correct)
qed

text \<open>
  The latency estimate of a reachable expander is always zero: \<open>calculate_latency\<close> first marks
  the caches valid by rebuilding the address set, so the address ranges that its search uses are
  never built and no access counts as local.
\<close>

theorem expander_latency_always_zero:
  assumes "expander_reachable e"
  shows "fst (calculate_latency e elems dram) = 0"
  using expander_reachable_inv [OF assms] by (simp add: calculate_latency_blind expander_inv_def)

lemma expander_latency_always_zero_witness:
  "fst (calculate_latency (foldl expander_step example_expander [Insert 1 7 64 64 1]) [(1, 64)] 100) = 0"
  by (rule expander_latency_always_zero) (rule example_expander_reachable)

section \<open>Lost credits\<close>

text \<open>Requests in flight are kept by address, at most one per address.\<close>

definition by_address :: "CXLMemExpander \<Rightarrow> bool" where
  "by_address e \<longleftrightarrow> sorted_wrt (<) (map fst (me_in_flight_requests e))"

lemma sorted_filter_keys: "sorted_wrt (<) (map fst m) \<Longrightarrow> sorted_wrt (<) (map fst (filter P m))"
  by (induction m) auto

lemma retire_by_address: "by_address e \<Longrightarrow> by_address (retire_requests e now)"
  by (simp add: by_address_def retire_requests_def sorted_filter_keys Let_def)

lemma issue_by_address: "by_address e \<Longrightarrow> by_address (issue_requests e now)"
proof (induction rule: issue_induct)
  case (step e req rest e')
  obtain r where "me_in_flight_requests (issue_first e now req rest) = map_set (rq_address req) r (me_in_flight_requests e)"
    by (rule issue_first_in_flight)
  with step show ?case by (simp add: by_address_def sorted_map_set)
qed

lemma process_by_address: "by_address e \<Longrightarrow> by_address (process_queued_requests e now)"
  by (simp add: process_queued_requests_def retire_by_address issue_by_address)

lemma replaced_in_map_set:
  "sorted_wrt (<) (map fst m) \<Longrightarrow> map_of m k = Some old \<Longrightarrow>
     length (filter P (map_set k v m)) + (if P (k, old) then 1 else 0) = length (filter P m) + (if P (k, v) then 1 else 0)"
proof (induction m)
  case (Cons p m)
  obtain k' v' where p: "p = (k', v')" by (cases p)
  have less: "k' < k" if "k \<noteq> k'"
    using Cons.prems that by (auto simp: p dest!: map_of_SomeD)
  then show ?case
  proof (cases "k = k'")
    case False
    then have "length (filter P (map_set k v m)) + (if P (k, old) then 1 else 0) = length (filter P m) + (if P (k, v) then 1 else 0)"
      using Cons by (simp add: p)
    moreover have "\<not> k < k'" using less [OF False] by (rule less_not_sym)
    ultimately show ?thesis using False by (simp add: p)
  qed (use Cons.prems in \<open>simp add: p\<close>)
qed simp

text \<open>Issuing a request whose address is in flight replaces the entry, and the credit of the replaced one is gone.\<close>

lemma issue_overwrites:
  assumes "by_address e" "issuable e req" "map_of (me_in_flight_requests e) (rq_address req) = Some old"
  shows "credit_total (issue_first e now req rest) (rq_is_read old) + 1 = credit_total e (rq_is_read old)"
proof -
  obtain r where r: "rq_is_read r = rq_is_read req"
      "me_in_flight_requests (issue_first e now req rest) = map_set (rq_address req) r (me_in_flight_requests e)"
    by (rule issue_first_in_flight)
  have "in_flight_of (issue_first e now req rest) (rq_is_read old) + 1
      = in_flight_of e (rq_is_read old) + (if rq_is_read req = rq_is_read old then 1 else 0)"
    using replaced_in_map_set [OF assms(1) [unfolded by_address_def] assms(3), of "\<lambda>(k, q). rq_is_read q = rq_is_read old" r] r
    by (simp add: in_flight_of_def)
  with issue_first_credits [OF assms(2), of now rest "rq_is_read old"] show ?thesis
    by (simp add: credit_total_def)
qed

lemma process_overwrites:
  assumes "by_address e" "me_request_queue e = req # rest" "issuable (retire_requests e now) req"
    and "map_of (me_in_flight_requests e) (rq_address req) = Some old" "now < rq_complete_time old"
  shows "credit_total (process_queued_requests e now) (rq_is_read old) < credit_total e (rq_is_read old)"
proof -
  let ?e1 = "retire_requests e now"
  have q: "me_request_queue ?e1 = req # rest" using assms(2) by (simp add: retire_requests_def Let_def frame_simps)
  have "map_of (me_in_flight_requests ?e1) (rq_address req) = Some old"
  proof -
    have "(rq_address req, old) \<in> set (me_in_flight_requests e)" using assms(4) by (rule map_of_SomeD)
    then have "(rq_address req, old) \<in> set (me_in_flight_requests ?e1)"
      using assms(5) by (simp add: retire_requests_def Let_def not_le)
    moreover have "distinct (map fst (me_in_flight_requests ?e1))"
      using retire_by_address [OF assms(1), of now] by (simp add: by_address_def strict_sorted_iff)
    ultimately show ?thesis by (simp add: map_of_eq_Some_iff)
  qed
  from issue_overwrites [OF retire_by_address [OF assms(1)] assms(3) this, of now rest]
  show ?thesis
    using issue_credit_total [of "issue_first ?e1 now req rest" now "rq_is_read old"] retire_credit_total [of e now "rq_is_read old"]
    by (simp add: process_queued_requests_def issue_step [OF q assms(3)])
qed

text \<open>What an operation does to the flow control: it processes the queue, adds a request at its end, or neither.\<close>

definition flow_of :: "CXLMemExpander \<Rightarrow> u64 \<times> u64 \<times> (u64 \<times> CXLRequest) list" where
  "flow_of e = (me_read_credits e, me_write_credits e, me_in_flight_requests e)"

lemma flow_of_cong:
  assumes "flow_of e' = flow_of e"
  shows "credit_total e' = credit_total e" "by_address e' = by_address e"
  using assms by (auto simp: flow_of_def credit_total_def credits_of_def in_flight_of_def by_address_def fun_eq_iff)

lemma process_cong:
  assumes "flow_of e' = flow_of e" "me_request_queue e' = me_request_queue e"
  shows "stalled e' req = stalled e req"
  using assms(2) flow_of_cong(1) [OF assms(1)] by (simp add: stalled_def)

lemma step_flow:
  assumes "me_address_ranges e = []"
  shows "\<exists>e1 ext. me_request_queue (expander_step e op) = me_request_queue e1 @ ext
    \<and> flow_of (expander_step e op) = flow_of e1
    \<and> (\<exists>e0 now. flow_of e0 = flow_of e \<and> me_request_queue e0 = me_request_queue e
         \<and> (e1 = e0 \<or> e1 = process_queued_requests e0 now))"
proof (cases op)
  case (Insert ts tid phys virt index)
  define e0 where "e0 = e\<lparr>me_last_timestamp := (if me_last_timestamp e > ts then me_last_timestamp e else ts)\<rparr>"
  define e1 where "e1 = process_queued_requests e0 ts"
  have e0: "flow_of e0 = flow_of e" "me_request_queue e0 = me_request_queue e" by (simp_all add: e0_def flow_of_def)
  have page: "flow_of (snd (insert_page e1 ts tid phys)) = flow_of e1"
      "\<exists>ext. me_request_queue (snd (insert_page e1 ts tid phys)) = me_request_queue e1 @ ext"
    by (simp_all add: flow_of_def frame_simps) (simp add: insert_page_def Let_def split: option.split)
  have count: "flow_of (e1\<lparr>me_counter := n\<rparr>) = flow_of e1" for n by (simp add: flow_of_def)
  have "expander_step e op = (if index = me_id e then if phys \<noteq> 0 then snd (insert_page e1 ts tid phys)
      else e1\<lparr>me_counter := expander_increment Store (me_counter e1)\<rparr> else e)"
    by (simp add: Insert expander_insert_def e1_def e0_def Let_def)
  then consider "expander_step e op = e" | "expander_step e op = snd (insert_page e1 ts tid phys)"
    | "expander_step e op = e1\<lparr>me_counter := expander_increment Store (me_counter e1)\<rparr>" by metis
  then show ?thesis
  proof cases
    case 1
    then show ?thesis by (intro exI [of _ e] exI [of _ "[]"]) auto
  next
    case 2
    then show ?thesis using page e0 e1_def by metis
  next
    case 3
    have "me_request_queue (expander_step e op) = me_request_queue e1 @ []" by (simp add: 3)
    then show ?thesis using 3 count e0 e1_def by metis
  qed
next
  case (Calculate_latency elems dram)
  show ?thesis
  proof (cases "expander_step e op = e")
    case True
    then show ?thesis by (intro exI [of _ e] exI [of _ "[]"]) auto
  next
    case False
    then obtain now where "expander_step e op = update_address_cache (process_queued_requests e now)"
      by (auto simp: Calculate_latency calculate_latency_blind [OF assms] split: if_splits)
    then show ?thesis
      by (intro exI [of _ "process_queued_requests e now"] exI [of _ "[]"]) (auto simp: flow_of_def frame_simps)
  qed
qed (intro exI [of _ e] exI [of _ "[]"]; auto simp: flow_of_def frame_simps delete_entry_def invalidate_cache_def
    get_access_def set_epoch_def free_stats_def Let_def)+

lemma stalled_process:
  assumes "stalled e req"
  shows "stalled (process_queued_requests e now) req"
proof -
  obtain rest where q: "me_request_queue e = req # rest" and c: "credit_total e (rq_is_read req) = 0"
    using assms by (auto simp: stalled_def)
  let ?e1 = "retire_requests e now"
  have q1: "me_request_queue ?e1 = req # rest" using q by (simp add: retire_requests_def Let_def frame_simps)
  have c1: "credit_total ?e1 (rq_is_read req) = 0" using c retire_credit_total [of e now "rq_is_read req"] by simp
  then have "\<not> issuable ?e1 req" 
    by (auto simp: issuable_def has_credits_def credit_total_def credits_of_def unat_eq_zero split: if_splits)
  then have "issue_requests ?e1 now = ?e1" using q1 by (intro issue_stop) auto
  then show ?thesis using q1 c1 by (simp add: process_queued_requests_def stalled_def)
qed

lemma step_keeps:
  assumes "me_address_ranges e = []"
  shows "credit_total (expander_step e op) rd \<le> credit_total e rd" "by_address e \<Longrightarrow> by_address (expander_step e op)"
    "stalled e req \<Longrightarrow> stalled (expander_step e op) req"
proof -
  obtain e0 e1 ext now where f: "me_request_queue (expander_step e op) = me_request_queue e1 @ ext"
      "flow_of (expander_step e op) = flow_of e1" "flow_of e0 = flow_of e" "me_request_queue e0 = me_request_queue e"
      "e1 = e0 \<or> e1 = process_queued_requests e0 now"
    using step_flow [OF assms, of op] by blast
  note c = flow_of_cong [OF f(2)] flow_of_cong [OF f(3)]
  show "credit_total (expander_step e op) rd \<le> credit_total e rd"
    using f(5) process_credit_total [of e0 now rd] by (auto simp: c(1) c(3) [symmetric])
  show "by_address (expander_step e op)" if "by_address e"
    using that f(5) process_by_address [of e0 now] by (auto simp: c(2) c(4) [symmetric])
  show "stalled (expander_step e op) req" if "stalled e req"
  proof -
    have "stalled e0 req" using that process_cong [OF f(3,4)] by simp
    then have "stalled e1 req" using f(5) stalled_process by blast
    then show ?thesis using f(1) by (auto simp: stalled_def c(1))
  qed
qed

lemma reachable_ranges: "expander_reachable e \<Longrightarrow> me_address_ranges e = []"
  using expander_reachable_inv by (simp add: expander_inv_def)

lemma reachable_by_address: "expander_reachable e \<Longrightarrow> by_address e"
proof (induction rule: expander_reachable.induct)
  case (expander_call e op)
  then show ?case using step_keeps(2) [OF reachable_ranges] by blast
qed (simp add: by_address_def new_CXLMemExpander_def)

lemma run_keeps:
  assumes "expander_reachable e"
  shows "credit_total (foldl expander_step e ops) rd \<le> credit_total e rd
    \<and> (stalled e req \<longrightarrow> stalled (foldl expander_step e ops) req)"
  using assms
proof (induction ops arbitrary: e)
  case (Cons op ops)
  have "expander_reachable (expander_step e op)" using Cons.prems by (rule expander_call)
  from Cons.IH [OF this] step_keeps(1) [OF reachable_ranges [OF Cons.prems], of op rd]
    step_keeps(3) [OF reachable_ranges [OF Cons.prems], of req op]
  show ?case by auto
qed simp

text \<open>
  C31. Credits are lost for good.  The credits of a kind that are free or belong to requests in flight
  never grow in number, whatever is called.  When the oldest request is issued while an earlier
  request to its address is still in flight, the entry of the earlier one is replaced and their
  number drops.  Once it is zero for the kind of the oldest request, this request is never issued:
  it stays the oldest after every further call.
\<close>

theorem expander_credits_lost:
  assumes "expander_reachable e"
  shows "credit_total (foldl expander_step e ops) rd \<le> credit_total e rd
    \<and> (me_request_queue e = req # rest \<and> issuable (retire_requests e now) req
        \<and> map_of (me_in_flight_requests e) (rq_address req) = Some old \<and> now < rq_complete_time old
        \<longrightarrow> credit_total (process_queued_requests e now) (rq_is_read old) < credit_total e (rq_is_read old))
    \<and> (stalled e req \<longrightarrow> stalled (foldl expander_step e ops) req)"
  using run_keeps [OF assms] process_overwrites [OF reachable_by_address [OF assms]] by blast

text \<open>
  Two writes to one address lose a credit; writes to two addresses, each twice, lose both write credits,
  and the next write waits for ever.
\<close>

definition example_writes :: "expander_op list" where
  "example_writes = [Insert 1 7 64 64 1, Insert 2 7 64 64 1, Insert 3 7 128 128 1, Insert 4 7 128 128 1,
     Insert 5 7 192 192 1, Insert 6 7 256 256 1]"

lemmas example_run_simps = example_expander_def new_CXLMemExpander_def expander_insert_def process_queued_requests_def
  retire_requests_def issue_requests.simps insert_page_def can_accept_request_def has_credits_def consume_credit_def
  calculate_pipeline_latency_def calculate_protocol_overhead_def calculate_congestion_delay_def double_of_u64_def
  u64_of_double_def in_flight_of_def

lemma expander_credits_lost_witness:
  "credit_total (process_queued_requests (foldl expander_step example_expander (take 2 example_writes)) 3) False
     < credit_total (foldl expander_step example_expander (take 2 example_writes)) False
   \<and> (\<exists>req. rq_address req = 192 \<and> stalled (foldl expander_step (foldl expander_step example_expander example_writes)
        [Insert 900 7 64 64 1, Calculate_latency [(1000, 64)] 100]) req)"
proof
  let ?e = "foldl expander_step example_expander (take 2 example_writes)"
  let ?req = "\<lparr>rq_timestamp = 2, rq_address = 64, rq_tid = 7, rq_is_read = True,
    rq_is_write = False, rq_issue_time = 0, rq_complete_time = 0\<rparr>"
  have "me_request_queue ?e = [?req]" "issuable (retire_requests ?e 3) ?req"
    by (simp_all add: example_writes_def example_run_simps issuable_def Let_def)
  moreover obtain old where "map_of (me_in_flight_requests ?e) 64 = Some old" "3 < rq_complete_time old" "\<not> rq_is_read old"
    by (simp add: example_writes_def example_run_simps Let_def)
  ultimately show "credit_total (process_queued_requests ?e 3) False < credit_total ?e False"
    using expander_credits_lost [where e = ?e and req = ?req and rest = "[]" and now = 3 and old = old,
        OF example_expander_reachable] by simp
next
  let ?e = "foldl expander_step example_expander example_writes"
  let ?req = "\<lparr>rq_timestamp = 5, rq_address = 192, rq_tid = 7, rq_is_read = False,
    rq_is_write = True, rq_issue_time = 0, rq_complete_time = 0\<rparr>"
  have "stalled ?e ?req"
    by (simp add: example_writes_def example_run_simps stalled_def credit_total_def credits_of_def Let_def)
  then have "stalled (foldl expander_step ?e ops) ?req" for ops
    using expander_credits_lost [where e = ?e and req = ?req, OF example_expander_reachable] by blast
  then show "\<exists>req. rq_address req = 192 \<and> stalled (foldl expander_step ?e
      [Insert 900 7 64 64 1, Calculate_latency [(1000, 64)] 100]) req"
    by (intro exI [of _ ?req] conjI) (simp_all del: foldl.simps)
qed

end
