(* ===== verification/LRU_Cache.thy ===== *)
theory LRU_Cache
  imports Prelude
begin

text \<open>
  The LRU cache of \<open>include/cxlcontroller.h\<close>: a map from keys to entries, a \<open>std::list\<close> of the keys
  in order of use, and a map from keys to iterators into that list.

  A \<open>std::list\<close> is the list of its nodes, each with an identity of its own; an iterator is the
  identity of the node it points at.  Erasing through an iterator that points at no node of the list,
  and taking the last element of an empty list, are undefined behaviour in C++ and are \<^const>\<open>None\<close>
  here.  Each method holds the cache's lock, so it is one step; \<open>get\<close> drops the shared lock before it
  takes the exclusive one, looks the key up again, and decides by that second look-up.

  The lemmas show that no operation of a cache of positive capacity is undefined, that the three
  structures stay consistent, that \<open>get\<close> and \<open>put\<close> implement a list of the most recently used keys,
  and that after any history of accesses the cache holds exactly the most recent distinct keys.
\<close>

section \<open>Lists with iterators\<close>

type_synonym 'a std_list = "(nat \<times> 'a) list"

definition list_values :: "'a std_list \<Rightarrow> 'a list" where
  "list_values l = map snd l"

definition list_erase :: "'a std_list \<Rightarrow> nat option \<Rightarrow> 'a std_list option" where
  "list_erase l it =
     (case it of
        None \<Rightarrow> None
      | Some n \<Rightarrow> if n \<in> fst ` set l then Some (filter (\<lambda>x. fst x \<noteq> n) l) else None)"

definition list_back :: "'a std_list \<Rightarrow> 'a option" where
  "list_back l = (if l = [] then None else Some (snd (last l)))"

text \<open>
  The list, the map of iterators into it and the next node agree: every value has one node, and the
  map holds the iterator of that node.
\<close>

definition nodes_ok :: "'a std_list \<Rightarrow> ('a \<rightharpoonup> nat) \<Rightarrow> nat \<Rightarrow> bool" where
  "nodes_ok l m n \<longleftrightarrow>
     distinct (map fst l) \<and> distinct (list_values l) \<and> (\<forall>i \<in> fst ` set l. i < n)
     \<and> m = map_of (map (\<lambda>(i, k). (k, i)) l)"

section \<open>The cache\<close>

record LRUCacheEntry =
  le_key :: u64
  le_value :: u64
  le_timestamp :: u64

record LRUCache =
  lc_capacity :: int
  lc_cache :: "u64 \<rightharpoonup> LRUCacheEntry"
  lc_list :: "u64 std_list"
  lc_map :: "u64 \<rightharpoonup> nat"
  lc_next :: nat

text \<open>\<open>lc_next\<close> is the identity of the next list node to be allocated.\<close>

definition new_LRUCache :: "int \<Rightarrow> LRUCache" where
  "new_LRUCache cap =
     \<lparr>lc_capacity = cap, lc_cache = Map.empty, lc_list = [], lc_map = Map.empty, lc_next = 0\<rparr>"

text \<open>\<open>lru_list.push_front(key); lru_map[key] = lru_list.begin();\<close>\<close>

definition lru_push_front :: "LRUCache \<Rightarrow> u64 \<Rightarrow> LRUCache" where
  "lru_push_front c key =
     c\<lparr>lc_list := (lc_next c, key) # lc_list c,
       lc_map := (lc_map c)(key \<mapsto> lc_next c),
       lc_next := lc_next c + 1\<rparr>"

definition lru_get :: "LRUCache \<Rightarrow> u64 \<Rightarrow> u64 \<Rightarrow> (u64 option \<times> LRUCache) option" where
  "lru_get c key ts =
     (case lc_cache c key of
        None \<Rightarrow> Some (None, c)
      | Some entry \<Rightarrow>
          (case list_erase (lc_list c) (lc_map c key) of
             None \<Rightarrow> None
           | Some l \<Rightarrow>
               let c1 = lru_push_front (c\<lparr>lc_list := l\<rparr>) key
               in Some (Some (le_value entry),
                        c1\<lparr>lc_cache := (lc_cache c1)(key \<mapsto> entry\<lparr>le_timestamp := ts\<rparr>)\<rparr>)))"

definition lru_size :: "LRUCache \<Rightarrow> nat" where
  "lru_size c = card (dom (lc_cache c))"

text \<open>\<open>cache.size() >= capacity\<close> converts the signed capacity to \<open>size_t\<close>.\<close>

definition lru_limit :: "LRUCache \<Rightarrow> nat" where
  "lru_limit c = unat (word_of_int (lc_capacity c) :: u64)"

definition lru_put :: "LRUCache \<Rightarrow> u64 \<Rightarrow> u64 \<Rightarrow> u64 \<Rightarrow> LRUCache option" where
  "lru_put c key val ts =
     (case
        (if lc_cache c key \<noteq> None
         then map_option (\<lambda>l. c\<lparr>lc_list := l\<rparr>) (list_erase (lc_list c) (lc_map c key))
         else if lru_size c \<ge> lru_limit c
         then map_option
                (\<lambda>lru_key.
                   c\<lparr>lc_list := butlast (lc_list c),
                     lc_map := (lc_map c)(lru_key := None),
                     lc_cache := (lc_cache c)(lru_key := None)\<rparr>)
                (list_back (lc_list c))
         else Some c)
      of None \<Rightarrow> None
       | Some c1 \<Rightarrow>
           let c2 = lru_push_front c1 key
           in Some (c2\<lparr>lc_cache := (lc_cache c2)
                        (key \<mapsto> \<lparr>le_key = key, le_value = val, le_timestamp = ts\<rparr>)\<rparr>))"

text \<open>\<open>get_stats\<close> returns the size as an \<open>int\<close>.\<close>

definition lru_get_stats :: "LRUCache \<Rightarrow> int \<times> int" where
  "lru_get_stats c = (sint (of_nat (lru_size c) :: u32), lc_capacity c)"

definition lru_clear :: "LRUCache \<Rightarrow> LRUCache" where
  "lru_clear c = c\<lparr>lc_cache := Map.empty, lc_list := [], lc_map := Map.empty\<rparr>"

definition lru_remove :: "LRUCache \<Rightarrow> u64 \<Rightarrow> (bool \<times> LRUCache) option" where
  "lru_remove c key =
     (case lc_cache c key of
        None \<Rightarrow> Some (False, c)
      | Some _ \<Rightarrow>
          map_option
            (\<lambda>l. (True, c\<lparr>lc_list := l, lc_map := (lc_map c)(key := None),
                          lc_cache := (lc_cache c)(key := None)\<rparr>))
            (list_erase (lc_list c) (lc_map c key)))"

definition lru_contains :: "LRUCache \<Rightarrow> u64 \<Rightarrow> bool" where
  "lru_contains c key \<longleftrightarrow> lc_cache c key \<noteq> None"

definition lru_peek :: "LRUCache \<Rightarrow> u64 \<Rightarrow> u64 option" where
  "lru_peek c key = map_option le_value (lc_cache c key)"

section \<open>Specification\<close>

text \<open>
  What a recency cache of keys is: on a hit the key moves to the front, on a miss it is put in front
  and the last key makes room when the cache is full.
\<close>

definition recency_touch :: "'k list \<Rightarrow> 'k \<Rightarrow> 'k list" where
  "recency_touch ks k = (if k \<in> set ks then k # removeAll k ks else ks)"

definition recency_add :: "nat \<Rightarrow> 'k list \<Rightarrow> 'k \<Rightarrow> 'k list" where
  "recency_add n ks k =
     k # (if k \<in> set ks then removeAll k ks else if length ks \<ge> n then butlast ks else ks)"

text \<open>The distinct keys of a history, the most recent access first.\<close>

fun recent :: "'k list \<Rightarrow> 'k list" where
  "recent [] = []"
| "recent (k # hist) = k # removeAll k (recent hist)"

text \<open>An access looks the key up and adds it when it is missing, as the callers of both caches do.\<close>

definition cache_access ::
  "('t \<Rightarrow> 'c \<Rightarrow> 'k \<Rightarrow> (bool \<times> 'c) option) \<Rightarrow> ('t \<Rightarrow> 'c \<Rightarrow> 'k \<Rightarrow> 'c option)
     \<Rightarrow> 'c \<Rightarrow> 't \<times> 'k \<Rightarrow> (bool \<times> 'c) option" where
  "cache_access lookup add c = (\<lambda>(t, k).
     (case lookup t c k of
        None \<Rightarrow> None
      | Some (hit, c1) \<Rightarrow>
          if hit then Some (True, c1) else map_option (\<lambda>c2. (False, c2)) (add t c1 k)))"

text \<open>A history is given with the most recent access first.\<close>

fun cache_run ::
  "('t \<Rightarrow> 'c \<Rightarrow> 'k \<Rightarrow> (bool \<times> 'c) option) \<Rightarrow> ('t \<Rightarrow> 'c \<Rightarrow> 'k \<Rightarrow> 'c option)
     \<Rightarrow> 'c \<Rightarrow> ('t \<times> 'k) list \<Rightarrow> 'c option" where
  "cache_run lookup add c [] = Some c"
| "cache_run lookup add c (a # hist) =
     (case cache_run lookup add c hist of
        None \<Rightarrow> None
      | Some c1 \<Rightarrow> map_option snd (cache_access lookup add c1 a))"

definition lru_keys :: "LRUCache \<Rightarrow> u64 list" where
  "lru_keys c = list_values (lc_list c)"

text \<open>The cache as the list of its keys and values, the most recently used first.\<close>

definition lru_abs :: "LRUCache \<Rightarrow> (u64 \<times> u64) list" where
  "lru_abs c = map (\<lambda>k. (k, le_value (the (lc_cache c k)))) (lru_keys c)"

definition lru_inv :: "LRUCache \<Rightarrow> bool" where
  "lru_inv c \<longleftrightarrow>
     nodes_ok (lc_list c) (lc_map c) (lc_next c)
     \<and> dom (lc_cache c) = set (lru_keys c)
     \<and> (\<forall>k e. lc_cache c k = Some e \<longrightarrow> le_key e = k)
     \<and> length (lc_list c) \<le> lru_limit c"

definition lru_spec_put :: "nat \<Rightarrow> (u64 \<times> u64) list \<Rightarrow> u64 \<Rightarrow> u64 \<Rightarrow> (u64 \<times> u64) list" where
  "lru_spec_put n s k v =
     (k, v) # (if k \<in> fst ` set s then filter (\<lambda>x. fst x \<noteq> k) s
               else if length s \<ge> n then butlast s else s)"

definition lru_spec_get :: "(u64 \<times> u64) list \<Rightarrow> u64 \<Rightarrow> u64 option \<times> (u64 \<times> u64) list" where
  "lru_spec_get s k =
     (case map_of s k of
        None \<Rightarrow> (None, s)
      | Some v \<Rightarrow> (Some v, (k, v) # filter (\<lambda>x. fst x \<noteq> k) s))"

text \<open>The look-up and the addition of an address at a time, with the value to store.\<close>

definition lru_lookup :: "u64 \<times> u64 \<Rightarrow> LRUCache \<Rightarrow> u64 \<Rightarrow> (bool \<times> LRUCache) option" where
  "lru_lookup = (\<lambda>(val, ts) c k. map_option (\<lambda>(r, c1). (r \<noteq> None, c1)) (lru_get c k ts))"

definition lru_add :: "u64 \<times> u64 \<Rightarrow> LRUCache \<Rightarrow> u64 \<Rightarrow> LRUCache option" where
  "lru_add = (\<lambda>(val, ts) c k. lru_put c k val ts)"

section \<open>Recency lists\<close>

lemma set_recent [simp]: "set (recent hist) = set hist"
  by (induction hist) auto

lemma distinct_recent [simp]: "distinct (recent hist)"
  by (induction hist) (auto intro: distinct_removeAll)

lemma removeAll_take:
  assumes "distinct xs" and "k \<in> set (take n xs)"
  shows "removeAll k (take n xs) = take (n - 1) (removeAll k xs)"
  using assms
proof (induction xs arbitrary: n)
  case (Cons x xs)
  show ?case
  proof (cases n)
    case (Suc m)
    show ?thesis
    proof (cases "x = k")
      case True
      then have "k \<notin> set xs"
        using Cons.prems(1) by simp
      then have "k \<notin> set (take m xs)"
        by (meson in_set_takeD)
      with True Suc \<open>k \<notin> set xs\<close> show ?thesis
        by simp
    next
      case False
      with Cons.prems Suc have k: "k \<in> set (take m xs)"
        by simp
      then obtain j where "m = Suc j"
        by (cases m) auto
      with Cons.IH [OF _ k] Cons.prems(1) Suc False show ?thesis
        by simp
    qed
  qed (use Cons.prems in simp)
qed simp

lemma take_removeAll:
  assumes "k \<notin> set (take n xs)"
  shows "take (n - 1) (removeAll k xs) = take (n - 1) xs"
proof -
  have "take n xs @ drop n xs = xs"
    by simp
  then have "removeAll k xs = take n xs @ removeAll k (drop n xs)"
    using assms by (metis removeAll_append removeAll_id)
  then have "take (n - 1) (removeAll k xs)
      = take (n - 1) (take n xs) @ take (n - 1 - length (take n xs)) (removeAll k (drop n xs))"
    by simp
  moreover have "take (n - 1 - length (take n xs)) (removeAll k (drop n xs)) = []"
  proof (cases "length xs < n")
    case False
    then show ?thesis
      by simp
  qed simp
  ultimately show ?thesis
    by (simp add: min_def)
qed

lemma recency_step:
  assumes "0 < n"
  shows "(if k \<in> set (take n (recent hist)) then recency_touch (take n (recent hist)) k
          else recency_add n (recency_touch (take n (recent hist)) k) k)
         = take n (recent (k # hist))"
proof -
  obtain m where m: "n = Suc m"
    using assms by (cases n) auto
  show ?thesis
  proof (cases "k \<in> set (take n (recent hist))")
    case True
    then show ?thesis
      using removeAll_take [OF distinct_recent True] m by (simp add: recency_touch_def)
  next
    case False
    have t: "take m (removeAll k (recent hist)) = take m (recent hist)"
      using take_removeAll [OF False] m by simp
    show ?thesis
    proof (cases "length (recent hist) < n")
      case True
      with False t m show ?thesis
        by (simp add: recency_touch_def recency_add_def)
    next
      case full: False
      then have "butlast (take n (recent hist)) = take m (recent hist)"
        using m by (simp add: butlast_take)
      with False full t m show ?thesis
        by (simp add: recency_touch_def recency_add_def)
    qed
  qed
qed

section \<open>The interface of a recency cache\<close>

text \<open>
  What the users of a recency cache rely on, for the LRU cache of the controller and for the TLBs of
  the paging policy alike.
\<close>

locale recency_cache =
  fixes inv :: "'c \<Rightarrow> bool"
    and keys :: "'c \<Rightarrow> 'k list"
    and limit :: "'c \<Rightarrow> nat"
    and lookup :: "'t \<Rightarrow> 'c \<Rightarrow> 'k \<Rightarrow> (bool \<times> 'c) option"
    and add :: "'t \<Rightarrow> 'c \<Rightarrow> 'k \<Rightarrow> 'c option"
  assumes keys_bounded: "inv c \<Longrightarrow> length (keys c) \<le> limit c"
    and lookup_keys: "inv c \<Longrightarrow>
      \<exists>c'. lookup t c k = Some (k \<in> set (keys c), c') \<and> inv c' \<and> limit c' = limit c
        \<and> keys c' = recency_touch (keys c) k"
    and add_keys: "inv c \<Longrightarrow> 0 < limit c \<Longrightarrow>
      \<exists>c'. add t c k = Some c' \<and> inv c' \<and> limit c' = limit c
        \<and> keys c' = recency_add (limit c) (keys c) k"
begin

lemma access_keys:
  assumes "inv c" and "0 < limit c" and "keys c = take (limit c) (recent hist)"
  shows "\<exists>c'. cache_access lookup add c (t, k) = Some (k \<in> set (take (limit c) (recent hist)), c')
           \<and> inv c' \<and> limit c' = limit c \<and> keys c' = take (limit c) (recent (k # hist))"
proof -
  obtain c1 where c1: "lookup t c k = Some (k \<in> set (keys c), c1)" "inv c1" "limit c1 = limit c"
      "keys c1 = recency_touch (keys c) k"
    using lookup_keys [OF assms(1)] by blast
  show ?thesis
  proof (cases "k \<in> set (keys c)")
    case True
    with c1 recency_step [OF assms(2), of k hist] assms(3) show ?thesis
      by (simp add: cache_access_def)
  next
    case False
    obtain c2 where "add t c1 k = Some c2" "inv c2" "limit c2 = limit c"
        "keys c2 = recency_add (limit c) (keys c1) k"
      using add_keys [OF c1(2)] c1(3) assms(2) by metis
    with False c1 recency_step [OF assms(2), of k hist] assms(3) show ?thesis
      by (simp add: cache_access_def)
  qed
qed

lemma run_keys:
  assumes "inv c" and "0 < limit c" and "keys c = []"
  shows "\<exists>c'. cache_run lookup add c hist = Some c' \<and> inv c' \<and> limit c' = limit c
           \<and> keys c' = take (limit c) (recent (map snd hist))"
proof (induction hist)
  case Nil
  with assms show ?case
    by simp
next
  case (Cons a hist)
  then obtain c1 where c1: "cache_run lookup add c hist = Some c1" "inv c1" "limit c1 = limit c"
      "keys c1 = take (limit c) (recent (map snd hist))"
    by blast
  with access_keys [of c1 "map snd hist" "fst a" "snd a"] assms(2) show ?case
    by auto
qed

text \<open>Whether the next access hits: the key is among the most recent distinct ones.\<close>

lemma run_hits:
  assumes "inv c" and "0 < limit c" and "keys c = []"
  shows "\<exists>c' c''. cache_run lookup add c hist = Some c'
           \<and> cache_access lookup add c' (t, k)
               = Some (k \<in> set (take (limit c) (recent (map snd hist))), c'')"
proof -
  obtain c' where c': "cache_run lookup add c hist = Some c'" "inv c'" "limit c' = limit c"
      "keys c' = take (limit c) (recent (map snd hist))"
    using run_keys [OF assms, of hist] by blast
  with access_keys [of c' "map snd hist" t k] assms(2) show ?thesis
    by auto
qed

end

section \<open>Lists of nodes\<close>

lemma values_filter: "list_values (filter (\<lambda>x. snd x \<noteq> k) l) = removeAll k (list_values l)"
  by (induction l) (auto simp: list_values_def)

lemma nodes_map_of:
  "map_of (map (\<lambda>(i, k). (k, i)) (filter (\<lambda>x. snd x \<noteq> k) l))
     = (map_of (map (\<lambda>(i, k). (k, i)) l))(k := None)"
  by (induction l) auto

lemma nodes_None_iff: "nodes_ok l m n \<Longrightarrow> m k = None \<longleftrightarrow> k \<notin> set (list_values l)"
  by (force simp: nodes_ok_def list_values_def map_of_eq_None_iff)

lemma nodes_erase:
  assumes "nodes_ok l m n" and "k \<in> set (list_values l)"
  shows "list_erase l (m k) = Some (filter (\<lambda>x. snd x \<noteq> k) l)"
proof -
  have ok: "distinct (map fst l)" "distinct (list_values l)"
    using assms(1) by (simp_all add: nodes_ok_def)
  obtain i where i: "(i, k) \<in> set l"
    using assms(2) by (auto simp: list_values_def)
  have "map_of (map (\<lambda>(i, k). (k, i)) l) k = Some i"
    using i ok(2) by (intro map_of_is_SomeI) (force simp: list_values_def comp_def case_prod_unfold)+
  then have "m k = Some i"
    using assms(1) by (simp add: nodes_ok_def)
  moreover have "\<forall>x\<in>set l. fst x = i \<longleftrightarrow> snd x = k"
    using i ok by (metis fst_conv snd_conv distinct_map list_values_def inj_onD)
  then have "filter (\<lambda>x. fst x \<noteq> i) l = filter (\<lambda>x. snd x \<noteq> k) l"
    by (auto intro!: filter_cong)
  ultimately show ?thesis
    using i by (force simp: list_erase_def)
qed

lemma nodes_filter: "nodes_ok l m n \<Longrightarrow> nodes_ok (filter (\<lambda>x. snd x \<noteq> k) l) (m(k := None)) n"
  by (auto simp: nodes_ok_def values_filter nodes_map_of distinct_map_filter distinct_removeAll)

lemma nodes_butlast:
  assumes "nodes_ok l m n" and "l \<noteq> []"
  shows "nodes_ok (butlast l) (m(snd (last l) := None)) n"
    and "list_values l = list_values (butlast l) @ [snd (last l)]"
proof -
  obtain xs x where l: "l = xs @ [x]"
    using assms(2) by (cases l rule: rev_cases) auto
  then have "snd x \<notin> snd ` set xs"
    using assms(1) by (simp add: nodes_ok_def list_values_def)
  then have "filter (\<lambda>y. snd y \<noteq> snd x) l = xs"
    using l by (auto simp: filter_id_conv image_iff)
  then show "nodes_ok (butlast l) (m(snd (last l) := None)) n"
    using nodes_filter [OF assms(1), of "snd x"] l by simp
  show "list_values l = list_values (butlast l) @ [snd (last l)]"
    using l by (simp add: list_values_def)
qed

lemma nodes_push:
  assumes "nodes_ok l (m(k := None)) n" and "k \<notin> set (list_values l)"
  shows "nodes_ok ((n, k) # l) (m(k \<mapsto> n)) (n + 1)"
proof -
  have "m(k \<mapsto> n) = (map_of (map (\<lambda>(i, k). (k, i)) l))(k \<mapsto> n)"
    using assms(1) by (metis nodes_ok_def fun_upd_upd)
  then show ?thesis
    using assms by (auto simp: nodes_ok_def list_values_def)
qed

lemma list_back_nonempty: "l \<noteq> [] \<Longrightarrow> list_back l = Some (last (list_values l))"
  by (simp add: list_back_def list_values_def last_map)

section \<open>The cache keeps its structures consistent\<close>

lemma lru_fields [frame_simps]:
  "lru_limit (lru_push_front c k) = lru_limit c"
  "lru_limit (c\<lparr>lc_list := l\<rparr>) = lru_limit c"
  "lru_limit (c\<lparr>lc_cache := m\<rparr>) = lru_limit c"
  "lru_limit (c\<lparr>lc_map := mp\<rparr>) = lru_limit c"
  "lru_limit (c\<lparr>lc_next := n\<rparr>) = lru_limit c"
  by (simp_all add: lru_limit_def lru_push_front_def)

lemma lru_size_eq: "lru_inv c \<Longrightarrow> lru_size c = length (lru_keys c)"
  unfolding lru_inv_def nodes_ok_def lru_size_def lru_keys_def by (metis distinct_card)

lemma lru_inv_new [simp]: "lru_inv (new_LRUCache cap)"
  by (simp add: lru_inv_def nodes_ok_def new_LRUCache_def lru_keys_def list_values_def)

lemma lru_inv_clear: "lru_inv c \<Longrightarrow> lru_inv (lru_clear c)"
  by (simp add: lru_inv_def nodes_ok_def lru_clear_def lru_keys_def list_values_def)

text \<open>Putting a fresh node for a key that has none in front of a consistent cache.\<close>

lemma push_front_inv:
  assumes "lru_inv (c\<lparr>lc_map := (lc_map c)(k := None), lc_cache := (lc_cache c)(k := None)\<rparr>)"
    and "k \<notin> set (lru_keys c)" and "le_key e = k" and "length (lc_list c) < lru_limit c"
  shows "lru_inv ((lru_push_front c k)\<lparr>lc_cache := (lc_cache c)(k \<mapsto> e)\<rparr>)"
  using assms nodes_push [of "lc_list c" "lc_map c" k "lc_next c"]
  by (auto simp: lru_inv_def lru_push_front_def lru_keys_def frame_simps split: if_splits)
    (auto simp: list_values_def)

lemma lru_erase:
  assumes "lru_inv c" and "k \<in> set (lru_keys c)"
  shows "list_erase (lc_list c) (lc_map c k) = Some (filter (\<lambda>x. snd x \<noteq> k) (lc_list c))"
  using assms by (intro nodes_erase) (auto simp: lru_inv_def lru_keys_def)

lemma lru_erased_inv:
  assumes "lru_inv c" and "k \<in> set (lru_keys c)"
  defines "c' \<equiv> c\<lparr>lc_list := filter (\<lambda>x. snd x \<noteq> k) (lc_list c)\<rparr>"
  shows "lru_inv (c'\<lparr>lc_map := (lc_map c)(k := None), lc_cache := (lc_cache c)(k := None)\<rparr>)"
    and "length (lc_list c') < lru_limit c"
    and "lru_keys c' = removeAll k (lru_keys c)"
proof -
  show keys: "lru_keys c' = removeAll k (lru_keys c)"
    by (simp add: c'_def lru_keys_def values_filter)
  have "length (lru_keys c') < length (lru_keys c)"
    unfolding keys using assms(2) by (rule length_removeAll_less)
  then show len: "length (lc_list c') < lru_limit c"
    using assms(1) by (simp add: lru_inv_def lru_keys_def list_values_def)
  show "lru_inv (c'\<lparr>lc_map := (lc_map c)(k := None), lc_cache := (lc_cache c)(k := None)\<rparr>)"
    using assms(1) len nodes_filter [of "lc_list c" "lc_map c" "lc_next c" k]
    by (auto simp: lru_inv_def c'_def lru_keys_def values_filter lru_limit_def)
qed

text \<open>What \<open>get\<close> and \<open>put\<close> return and leave behind, on every branch.\<close>

lemma in_lru_keys: "lru_inv c \<Longrightarrow> k \<in> set (lru_keys c) \<longleftrightarrow> lc_cache c k \<noteq> None"
  unfolding lru_inv_def by blast

lemma lru_map_None: "lru_inv c \<Longrightarrow> k \<notin> set (lru_keys c) \<Longrightarrow> lc_map c k = None"
  unfolding lru_inv_def lru_keys_def by (metis nodes_None_iff)

lemma lru_get_cases:
  assumes "lru_inv c"
  obtains (miss) "lc_cache c k = None" "k \<notin> set (lru_keys c)" "lru_get c k ts = Some (None, c)"
  | (hit) e c' where "lc_cache c k = Some e" "k \<in> set (lru_keys c)"
      "lru_get c k ts = Some (Some (le_value e), c')" "lru_inv c'" "lru_limit c' = lru_limit c"
      "lru_keys c' = k # removeAll k (lru_keys c)"
      "lc_cache c' = (lc_cache c)(k \<mapsto> e\<lparr>le_timestamp := ts\<rparr>)"
proof (cases "lc_cache c k")
  case None
  then show ?thesis
    using miss in_lru_keys [OF assms, of k] by (simp add: lru_get_def)
next
  case (Some e)
  let ?c1 = "c\<lparr>lc_list := filter (\<lambda>x. snd x \<noteq> k) (lc_list c)\<rparr>"
  let ?c' = "(lru_push_front ?c1 k)\<lparr>lc_cache := (lc_cache ?c1)(k \<mapsto> e\<lparr>le_timestamp := ts\<rparr>)\<rparr>"
  have k: "k \<in> set (lru_keys c)"
    using Some in_lru_keys [OF assms, of k] by simp
  note er = lru_erased_inv [OF assms k]
  have "le_key e = k"
    using assms Some by (simp add: lru_inv_def)
  then have "lru_inv ?c'"
    using er by (intro push_front_inv) (simp_all add: frame_simps)
  moreover have "lru_get c k ts = Some (Some (le_value e), ?c')"
    using Some lru_erase [OF assms k] by (simp add: lru_get_def lru_push_front_def)
  moreover have "lru_keys ?c' = k # removeAll k (lru_keys c)"
    using er(3) by (simp add: lru_keys_def lru_push_front_def list_values_def)
  ultimately show ?thesis
    using hit [OF Some k] by (simp add: frame_simps)
qed

lemma lru_evict:
  assumes "lru_inv c" and "0 < lru_limit c" and "lru_size c \<ge> lru_limit c"
  obtains v where "list_back (lc_list c) = Some v"
    "lru_inv (c\<lparr>lc_list := butlast (lc_list c), lc_map := (lc_map c)(v := None),
                lc_cache := (lc_cache c)(v := None)\<rparr>)"
    "length (butlast (lc_list c)) < lru_limit c" "v = last (lru_keys c)" "lru_keys c \<noteq> []"
proof -
  have ok: "nodes_ok (lc_list c) (lc_map c) (lc_next c)"
    using assms(1) by (simp add: lru_inv_def)
  have ne: "lc_list c \<noteq> []"
    using assms lru_size_eq [OF assms(1)] by (auto simp: lru_keys_def list_values_def)
  define v where "v = last (lru_keys c)"
  have v: "snd (last (lc_list c)) = v" "list_back (lc_list c) = Some v"
    using ne by (simp_all add: v_def lru_keys_def list_values_def last_map list_back_def)
  have keys: "lru_keys c = list_values (butlast (lc_list c)) @ [v]"
    using nodes_butlast(2) [OF ok ne] v by (simp add: lru_keys_def)
  moreover have "distinct (lru_keys c)"
    using ok by (simp add: nodes_ok_def lru_keys_def)
  ultimately have "dom (lc_cache c) - {v} = set (list_values (butlast (lc_list c)))"
    using assms(1) by (auto simp: lru_inv_def)
  then have "lru_inv (c\<lparr>lc_list := butlast (lc_list c), lc_map := (lc_map c)(v := None),
                lc_cache := (lc_cache c)(v := None)\<rparr>)"
    using assms(1) nodes_butlast(1) [OF ok ne] v
    by (auto simp: lru_inv_def lru_limit_def lru_keys_def)
  moreover have "length (butlast (lc_list c)) < lru_limit c"
    using assms(1,2) by (auto simp: lru_inv_def)
  moreover have "lru_keys c \<noteq> []"
    using keys by simp
  ultimately show ?thesis
    by (rule that [OF v(2) _ _ v_def])
qed

lemma lru_put_inv:
  assumes "lru_inv c" and "0 < lru_limit c"
  obtains c' where "lru_put c k v ts = Some c'" "lru_inv c'" "lru_limit c' = lru_limit c"
    "lru_keys c' = recency_add (lru_limit c) (lru_keys c) k"
    "\<And>j. j \<in> set (lru_keys c') \<Longrightarrow> lc_cache c' j =
       (if j = k then Some \<lparr>le_key = k, le_value = v, le_timestamp = ts\<rparr> else lc_cache c j)"
proof -
  let ?e = "\<lparr>le_key = k, le_value = v, le_timestamp = ts\<rparr>"
  let ?push = "\<lambda>c1. (lru_push_front c1 k)\<lparr>lc_cache := (lc_cache c1)(k \<mapsto> ?e)\<rparr>"
  consider (present) "k \<in> set (lru_keys c)"
    | (full) "k \<notin> set (lru_keys c)" "lru_size c \<ge> lru_limit c"
    | (room) "k \<notin> set (lru_keys c)" "lru_size c < lru_limit c"
    by linarith
  then show ?thesis
  proof cases
    case present
    let ?c1 = "c\<lparr>lc_list := filter (\<lambda>x. snd x \<noteq> k) (lc_list c)\<rparr>"
    note er = lru_erased_inv [OF assms(1) present]
    have "lru_inv (?push ?c1)"
      using er by (intro push_front_inv) (simp_all add: frame_simps)
    moreover have "lru_put c k v ts = Some (?push ?c1)"
      using present lru_erase [OF assms(1) present]
      by (simp add: lru_put_def in_lru_keys [OF assms(1)] lru_push_front_def)
    ultimately show ?thesis
      using present er(3)
      by (intro that [of "?push ?c1"])
        (simp_all add: frame_simps recency_add_def lru_keys_def lru_push_front_def list_values_def)
  next
    case full
    obtain u where u: "list_back (lc_list c) = Some u"
        "lru_inv (c\<lparr>lc_list := butlast (lc_list c), lc_map := (lc_map c)(u := None),
                    lc_cache := (lc_cache c)(u := None)\<rparr>)" (is "lru_inv ?c1")
        "length (butlast (lc_list c)) < lru_limit c" "u = last (lru_keys c)" "lru_keys c \<noteq> []"
      using lru_evict [OF assms full(2)] .
    have keys: "lru_keys ?c1 = butlast (lru_keys c)"
      by (simp add: lru_keys_def list_values_def map_butlast)
    have k: "k \<notin> set (lru_keys ?c1)"
      using full(1) keys by (metis in_set_butlastD)
    then have "lc_cache ?c1 k = None"
      using in_lru_keys [OF u(2)] by blast
    moreover have "lc_map ?c1 k = None"
      using lru_map_None [OF u(2) k] .
    ultimately have "?c1\<lparr>lc_map := (lc_map ?c1)(k := None), lc_cache := (lc_cache ?c1)(k := None)\<rparr> = ?c1"
      by (simp add: fun_upd_idem)
    then have "lru_inv (?push ?c1)"
      using u(2,3) k by (intro push_front_inv) (simp_all add: frame_simps)
    moreover have "lru_put c k v ts = Some (?push ?c1)"
      using full u(1) by (simp add: lru_put_def in_lru_keys [OF assms(1)] lru_push_front_def)
    moreover have "u \<notin> set (butlast (lru_keys c))"
      using in_lru_keys [OF u(2), of u] keys by simp
    moreover have "length (lru_keys c) = lru_size c"
      using lru_size_eq [OF assms(1)] by (simp add: lru_keys_def list_values_def)
    ultimately show ?thesis
      using full keys
      by (intro that [of "?push ?c1"])
        (auto simp: frame_simps recency_add_def lru_keys_def lru_push_front_def list_values_def)
  next
    case room
    have "lc_cache c k = None"
      using room(1) in_lru_keys [OF assms(1)] by blast
    moreover have "lc_map c k = None"
      using lru_map_None [OF assms(1) room(1)] .
    ultimately have "c\<lparr>lc_map := (lc_map c)(k := None), lc_cache := (lc_cache c)(k := None)\<rparr> = c"
      by (simp add: fun_upd_idem)
    then have "lru_inv (?push c)"
      using room assms(1) lru_size_eq [OF assms(1)]
      by (intro push_front_inv) (simp_all add: lru_keys_def list_values_def)
    moreover have "lru_put c k v ts = Some (?push c)"
      using room by (simp add: lru_put_def in_lru_keys [OF assms(1)] lru_push_front_def)
    moreover have "length (lru_keys c) = lru_size c"
      using lru_size_eq [OF assms(1)] by (simp add: lru_keys_def list_values_def)
    ultimately show ?thesis
      using room
      by (intro that [of "?push c"])
        (auto simp: frame_simps recency_add_def lru_keys_def lru_push_front_def list_values_def)
  qed
qed

section \<open>The cache implements a recency list\<close>

interpretation lru: recency_cache lru_inv lru_keys lru_limit lru_lookup lru_add
proof
  fix c :: LRUCache and k :: u64 and t :: "u64 \<times> u64"
  assume inv: "lru_inv c"
  show "length (lru_keys c) \<le> lru_limit c"
    using inv by (simp add: lru_inv_def lru_keys_def list_values_def)
  obtain v ts where t: "t = (v, ts)"
    by (cases t)
  show "\<exists>c'. lru_lookup t c k = Some (k \<in> set (lru_keys c), c') \<and> lru_inv c'
      \<and> lru_limit c' = lru_limit c \<and> lru_keys c' = recency_touch (lru_keys c) k"
    by (rule lru_get_cases [OF inv, of k ts])
      (simp_all add: inv t lru_lookup_def recency_touch_def)
  assume "0 < lru_limit c"
  then obtain c' where "lru_put c k v ts = Some c'" "lru_inv c'" "lru_limit c' = lru_limit c"
      "lru_keys c' = recency_add (lru_limit c) (lru_keys c) k"
    using inv lru_put_inv [of c k v ts] by blast
  then show "\<exists>c'. lru_add t c k = Some c' \<and> lru_inv c' \<and> lru_limit c' = lru_limit c
      \<and> lru_keys c' = recency_add (lru_limit c) (lru_keys c) k"
    by (simp add: t lru_add_def)
qed

lemma lru_limit_new: "0 \<le> cap \<Longrightarrow> cap < 2 ^ 64 \<Longrightarrow> lru_limit (new_LRUCache cap) = nat cap"
  by (simp add: lru_limit_def new_LRUCache_def unsigned_of_int take_bit_int_eq_self)

lemma lru_keys_new [simp]: "lru_keys (new_LRUCache cap) = []"
  by (simp add: lru_keys_def new_LRUCache_def list_values_def)

lemma lru_remove_inv:
  assumes "lru_inv c"
  shows "\<exists>c'. lru_remove c k = Some (lru_contains c k, c') \<and> lru_inv c'
    \<and> lru_limit c' = lru_limit c \<and> lru_keys c' = removeAll k (lru_keys c) \<and> \<not> lru_contains c' k"
proof (cases "k \<in> set (lru_keys c)")
  case True
  let ?c' = "c\<lparr>lc_list := filter (\<lambda>x. snd x \<noteq> k) (lc_list c), lc_map := (lc_map c)(k := None),
              lc_cache := (lc_cache c)(k := None)\<rparr>"
  have "lru_remove c k = Some (True, ?c')"
    using True in_lru_keys [OF assms] lru_erase [OF assms True] by (auto simp: lru_remove_def)
  moreover have "lru_keys ?c' = removeAll k (lru_keys c)"
    by (simp add: lru_keys_def values_filter)
  ultimately show ?thesis
    using lru_erased_inv(1) [OF assms True] True in_lru_keys [OF assms]
    by (simp add: lru_contains_def frame_simps)
next
  case False
  with in_lru_keys [OF assms] have "lc_cache c k = None"
    by blast
  with False show ?thesis
    using assms by (simp add: lru_remove_def lru_contains_def)
qed

text \<open>
  C17. The LRU cache never fails and holds exactly the most recently used keys: after any history of
  accesses to a fresh cache of capacity \<open>cap\<close>, each looking an address up and adding it when it is
  missing, the keys in order of use are the first \<open>cap\<close> of the distinct addresses of the history,
  the latest access first, the entries are the entries of these keys, and the next access hits
  if and only if its address is one of them.
\<close>

theorem lru_holds_most_recent:
  assumes "0 < cap" and "cap < 2 ^ 31"
  shows "\<exists>c c'. cache_run lru_lookup lru_add (new_LRUCache cap) hist = Some c
    \<and> lru_keys c = take (nat cap) (recent (map snd hist))
    \<and> {k. lru_contains c k} = set (take (nat cap) (recent (map snd hist)))
    \<and> cache_access lru_lookup lru_add c (t, k)
        = Some (k \<in> set (take (nat cap) (recent (map snd hist))), c')"
proof -
  have l: "lru_limit (new_LRUCache cap) = nat cap"
    using assms by (intro lru_limit_new) auto
  obtain c where c: "cache_run lru_lookup lru_add (new_LRUCache cap) hist = Some c" "lru_inv c"
      "lru_keys c = take (nat cap) (recent (map snd hist))"
    using lru.run_keys [of "new_LRUCache cap" hist] assms l by auto
  moreover have "{k. lru_contains c k} = set (lru_keys c)"
    using in_lru_keys [OF c(2)] by (auto simp: lru_contains_def)
  ultimately show ?thesis
    using lru.run_hits [of "new_LRUCache cap" hist t k] assms l by auto
qed

theorem lru_holds_most_recent_witness:
  "\<exists>c c'. cache_run lru_lookup lru_add (new_LRUCache 2)
        (map (\<lambda>a. ((a, 0), a)) [64, 128, 64, 192]) = Some c
    \<and> lru_keys c = [64, 128] \<and> {k. lru_contains c k} = {64, 128}
    \<and> cache_access lru_lookup lru_add c ((0, 1), 192) = Some (False, c')"
  using lru_holds_most_recent [of 2 "map (\<lambda>a. ((a, 0), a)) [64, 128, 64, 192]" "(0, 1)" 192]
  by simp

lemma lru_abs_keys: "fst ` set (lru_abs c) = set (lru_keys c)" "length (lru_abs c) = length (lru_keys c)"
  by (simp_all add: lru_abs_def image_image)

lemma lru_abs_map_of: "lru_inv c \<Longrightarrow> map_of (lru_abs c) k = map_option le_value (lc_cache c k)"
  using in_lru_keys [of c k] by (auto simp: lru_abs_def map_of_map_restrict restrict_map_def)

lemma lru_abs_removeAll:
  "filter (\<lambda>x. fst x \<noteq> k) (lru_abs c)
     = map (\<lambda>j. (j, le_value (the (lc_cache c j)))) (removeAll k (lru_keys c))"
proof -
  have "removeAll k (lru_keys c) = filter (\<lambda>j. j \<noteq> k) (lru_keys c)"
    by (simp add: removeAll_filter_not_eq eq_commute [of k])
  then show ?thesis
    by (simp add: lru_abs_def filter_map comp_def)
qed

text \<open>
  C16. \<open>get\<close> and \<open>put\<close> implement a list of key-value pairs in order of use: \<open>get\<close> returns the value
  stored for the key and moves the pair to the front, \<open>put\<close> replaces the pair of the key or, in a
  full cache, the pair used longest ago.  Neither is undefined, and both keep the invariant.
\<close>

theorem lru_refines_recency_list:
  assumes "lru_inv c" and "0 < lru_limit c"
  shows "\<exists>r c1 c2. lru_get c k ts = Some (r, c1) \<and> lru_inv c1
    \<and> lru_spec_get (lru_abs c) k = (r, lru_abs c1)
    \<and> lru_put c k v ts = Some c2 \<and> lru_inv c2
    \<and> lru_abs c2 = lru_spec_put (lru_limit c) (lru_abs c) k v"
proof -
  have g: "\<exists>r c1. lru_get c k ts = Some (r, c1) \<and> lru_inv c1
    \<and> lru_spec_get (lru_abs c) k = (r, lru_abs c1)"
  proof (rule lru_get_cases [OF assms(1), of k ts])
    assume "lc_cache c k = None" "lru_get c k ts = Some (None, c)"
    then show ?thesis
      using assms(1) by (simp add: lru_spec_get_def lru_abs_map_of)
  next
    fix e c'
    assume h: "lc_cache c k = Some e" "lru_get c k ts = Some (Some (le_value e), c')" "lru_inv c'"
      "lru_keys c' = k # removeAll k (lru_keys c)"
      "lc_cache c' = (lc_cache c)(k \<mapsto> e\<lparr>le_timestamp := ts\<rparr>)"
    have "lru_abs c' = (k, le_value e) # filter (\<lambda>x. fst x \<noteq> k) (lru_abs c)"
      using h by (simp add: lru_abs_def [of c'] lru_abs_removeAll)
    then show ?thesis
      using h assms(1) by (simp add: lru_spec_get_def lru_abs_map_of)
  qed
  obtain c2 where p: "lru_put c k v ts = Some c2" "lru_inv c2"
      "lru_keys c2 = recency_add (lru_limit c) (lru_keys c) k"
      "\<And>j. j \<in> set (lru_keys c2) \<Longrightarrow> lc_cache c2 j =
         (if j = k then Some \<lparr>le_key = k, le_value = v, le_timestamp = ts\<rparr> else lc_cache c j)"
    using lru_put_inv [OF assms, of k v ts] by blast
  have d: "distinct (lru_keys c2)"
    using p(2) by (simp add: lru_inv_def nodes_ok_def lru_keys_def)
  have "lru_abs c2 = (k, v) # map (\<lambda>j. (j, le_value (the (lc_cache c j)))) (tl (lru_keys c2))"
    using p(3,4) d by (auto simp: lru_abs_def recency_add_def)
  moreover have "map (\<lambda>j. (j, le_value (the (lc_cache c j)))) (butlast (lru_keys c)) = butlast (lru_abs c)"
    by (simp add: lru_abs_def map_butlast)
  ultimately have "lru_abs c2 = lru_spec_put (lru_limit c) (lru_abs c) k v"
    using p(3) by (simp add: recency_add_def lru_spec_put_def lru_abs_keys lru_abs_removeAll)
      (simp add: lru_abs_def)
  with g p(1,2) show ?thesis
    by blast
qed

theorem lru_refines_recency_list_witness:
  "\<exists>r c1 c2. lru_get (new_LRUCache 4) 64 5 = Some (r, c1) \<and> lru_inv c1
    \<and> lru_spec_get (lru_abs (new_LRUCache 4)) 64 = (r, lru_abs c1)
    \<and> lru_put (new_LRUCache 4) 64 7 5 = Some c2 \<and> lru_inv c2
    \<and> lru_abs c2 = lru_spec_put (lru_limit (new_LRUCache 4)) (lru_abs (new_LRUCache 4)) 64 7"
  by (rule lru_refines_recency_list) (simp_all add: lru_limit_new)

text \<open>
  The only undefined operation: \<open>put\<close> takes the last element of an empty list exactly when the
  capacity, read as a \<open>size_t\<close>, is zero.
\<close>

theorem lru_put_undefined_iff:
  assumes "lru_inv c"
  shows "lru_put c k v ts = None \<longleftrightarrow> lru_limit c = 0"
proof
  show "lru_put c k v ts = None \<Longrightarrow> lru_limit c = 0"
    using lru_put_inv [OF assms, of k v ts] by (metis neq0_conv option.distinct(1))
  assume "lru_limit c = 0"
  then have "lc_list c = []"
    using assms by (simp add: lru_inv_def)
  then show "lru_put c k v ts = None"
    using \<open>lru_limit c = 0\<close> in_lru_keys [OF assms, of k]
    by (simp add: lru_put_def lru_keys_def list_values_def list_back_def)
qed

theorem lru_put_undefined_iff_witness:
  "lru_put (new_LRUCache 0) 64 7 5 = None"
  using lru_put_undefined_iff [of "new_LRUCache 0" 64 7 5] by (simp add: lru_limit_new)

end
