(* ===== verification/Paging_Policy.thy ===== *)
theory Paging_Policy
  imports LRU_Cache Counters
begin

text \<open>
  The paging policies of \<open>include/policy.h\<close>: the TLBs and page-table walks of \<open>HugePagePolicy\<close>, and
  the translation cache of \<open>PageTableAwarePolicy\<close>.

  A policy reads the controller it is given; the operations here take what they read of it, the pages
  in the controller's occupation map and its last timestamp.  The random order in which
  \<open>PageTableAwarePolicy\<close> drops entries is an argument, a permutation of the cached addresses.  As in
  \<open>LRU_Cache\<close> a \<open>std::list\<close> is a list of nodes, and an undefined operation is \<^const>\<open>None\<close>.

  The lemmas show that a TLB holds the most recently used pages, that a walk costs nothing exactly
  for these pages and otherwise one of two amounts, that the statistics count the walks, and what
  makes the page size grow.
\<close>

section \<open>Translation look-aside buffers\<close>

datatype page_type = CACHELINE | PAGE | HUGEPAGE_2M | HUGEPAGE_1G

record TLBCache =
  tc_entries :: "u64 std_list"
  tc_index :: "u64 \<rightharpoonup> nat"
  tc_capacity :: u64
  tc_next :: nat

definition new_TLBCache :: "u64 \<Rightarrow> TLBCache" where
  "new_TLBCache cap = \<lparr>tc_entries = [], tc_index = Map.empty, tc_capacity = cap, tc_next = 0\<rparr>"

definition tlb_push_front :: "TLBCache \<Rightarrow> u64 \<Rightarrow> TLBCache" where
  "tlb_push_front t page_addr =
     t\<lparr>tc_entries := (tc_next t, page_addr) # tc_entries t,
       tc_index := (tc_index t)(page_addr \<mapsto> tc_next t),
       tc_next := tc_next t + 1\<rparr>"

definition tlb_lookup :: "TLBCache \<Rightarrow> u64 \<Rightarrow> (bool \<times> TLBCache) option" where
  "tlb_lookup t page_addr =
     (if tc_index t page_addr \<noteq> None
      then map_option (\<lambda>l. (True, tlb_push_front (t\<lparr>tc_entries := l\<rparr>) page_addr))
             (list_erase (tc_entries t) (tc_index t page_addr))
      else Some (False, t))"

definition tlb_insert :: "TLBCache \<Rightarrow> u64 \<Rightarrow> TLBCache option" where
  "tlb_insert t page_addr =
     (case
        (if tc_index t page_addr \<noteq> None
         then map_option (\<lambda>l. t\<lparr>tc_entries := l, tc_index := (tc_index t)(page_addr := None)\<rparr>)
                (list_erase (tc_entries t) (tc_index t page_addr))
         else Some t)
      of None \<Rightarrow> None
       | Some t1 \<Rightarrow>
           map_option (\<lambda>t2. tlb_push_front t2 page_addr)
             (if length (tc_entries t1) \<ge> unat (tc_capacity t1)
              then map_option
                     (\<lambda>victim. t1\<lparr>tc_entries := butlast (tc_entries t1),
                                  tc_index := (tc_index t1)(victim := None)\<rparr>)
                     (list_back (tc_entries t1))
              else Some t1))"

section \<open>Huge pages\<close>

record HugePagePolicy =
  hg_ptw_base_latency_local :: u64
  hg_ptw_base_latency_remote :: u64
  hg_va_pa_cache :: "u64 \<rightharpoonup> u64"
  hg_tlb_4k :: TLBCache
  hg_tlb_2m :: TLBCache
  hg_tlb_1g :: TLBCache
  hg_stats :: CXLHugePageEvent

definition new_HugePagePolicy :: "u64 \<Rightarrow> u64 \<Rightarrow> HugePagePolicy" where
  "new_HugePagePolicy local_latency remote_latency =
     \<lparr>hg_ptw_base_latency_local = local_latency, hg_ptw_base_latency_remote = remote_latency,
      hg_va_pa_cache = Map.empty, hg_tlb_4k = new_TLBCache 64, hg_tlb_2m = new_TLBCache 32,
      hg_tlb_1g = new_TLBCache 4, hg_stats = new_CXLHugePageEvent\<rparr>"

text \<open>\<open>addr & ~((1ULL << bits) - 1)\<close>\<close>

definition page_align :: "nat \<Rightarrow> u64 \<Rightarrow> u64" where
  "page_align bits addr = addr AND NOT (push_bit bits 1 - 1)"

fun page_bits :: "page_type \<Rightarrow> nat" where
  "page_bits CACHELINE = 12"
| "page_bits PAGE = 12"
| "page_bits HUGEPAGE_2M = 21"
| "page_bits HUGEPAGE_1G = 30"

fun ptw_reduction :: "page_type \<Rightarrow> real" where
  "ptw_reduction CACHELINE = 1"
| "ptw_reduction PAGE = 1"
| "ptw_reduction HUGEPAGE_2M = 75 / 100"
| "ptw_reduction HUGEPAGE_1G = 1 / 2"

fun tlb_of :: "page_type \<Rightarrow> HugePagePolicy \<Rightarrow> TLBCache" where
  "tlb_of CACHELINE p = hg_tlb_4k p"
| "tlb_of PAGE p = hg_tlb_4k p"
| "tlb_of HUGEPAGE_2M p = hg_tlb_2m p"
| "tlb_of HUGEPAGE_1G p = hg_tlb_1g p"

fun set_tlb :: "page_type \<Rightarrow> TLBCache \<Rightarrow> HugePagePolicy \<Rightarrow> HugePagePolicy" where
  "set_tlb CACHELINE t p = p\<lparr>hg_tlb_4k := t\<rparr>"
| "set_tlb PAGE t p = p\<lparr>hg_tlb_4k := t\<rparr>"
| "set_tlb HUGEPAGE_2M t p = p\<lparr>hg_tlb_2m := t\<rparr>"
| "set_tlb HUGEPAGE_1G t p = p\<lparr>hg_tlb_1g := t\<rparr>"

fun count_tlb :: "page_type \<Rightarrow> bool \<Rightarrow> CXLHugePageEvent \<Rightarrow> CXLHugePageEvent" where
  "count_tlb CACHELINE hit c = (if hit then inc_tlb_hits_4k c else inc_tlb_misses_4k c)"
| "count_tlb PAGE hit c = (if hit then inc_tlb_hits_4k c else inc_tlb_misses_4k c)"
| "count_tlb HUGEPAGE_2M hit c = (if hit then inc_tlb_hits_2m c else inc_tlb_misses_2m c)"
| "count_tlb HUGEPAGE_1G hit c = (if hit then inc_tlb_hits_1g c else inc_tlb_misses_1g c)"

definition huge_check_page_table_walk ::
  "HugePagePolicy \<Rightarrow> u64 \<Rightarrow> u64 \<Rightarrow> bool \<Rightarrow> page_type \<Rightarrow> (u64 \<times> HugePagePolicy) option" where
  "huge_check_page_table_walk p virt_addr phys_addr is_remote page_size =
     (let base_latency =
            (if is_remote then hg_ptw_base_latency_remote p else hg_ptw_base_latency_local p);
          page_addr = page_align (page_bits page_size) virt_addr
      in
      case tlb_lookup (tlb_of page_size p) page_addr of
        None \<Rightarrow> None
      | Some (tlb_hit, t1) \<Rightarrow>
          let p1 = set_tlb page_size t1 p;
              p2 = p1\<lparr>hg_stats := count_tlb page_size tlb_hit (hg_stats p1)\<rparr>
          in
          if tlb_hit then Some (0, p2)
          else if hg_va_pa_cache p2 virt_addr \<noteq> None
          then map_option
                 (\<lambda>t2. (u64_of_double (double_of_u64 base_latency * (2 / 10) * ptw_reduction page_size),
                         set_tlb page_size t2 p2))
                 (tlb_insert (tlb_of page_size p2) page_addr)
          else
            let p3 = p2\<lparr>hg_stats := inc_ptw_count (hg_stats p2),
                         hg_va_pa_cache := (hg_va_pa_cache p2)(virt_addr \<mapsto> phys_addr)\<rparr>
            in map_option
                 (\<lambda>t2. (u64_of_double (double_of_u64 base_latency * ptw_reduction page_size),
                         set_tlb page_size t2 p3))
                 (tlb_insert (tlb_of page_size p3) page_addr))"

text \<open>
  \<open>compute_once\<close> groups the addresses of the occupation map by the 2 MB page they lie in, and returns
  its result with the page type of the controller.
\<close>

definition page_group :: "u64 list \<Rightarrow> u64 \<Rightarrow> u64 list" where
  "page_group addrs huge_page = filter (\<lambda>a. page_align 21 a = huge_page) addrs"

definition page_groups :: "u64 list \<Rightarrow> u64 list" where
  "page_groups addrs = remdups (map (page_align 21) addrs)"

definition potential_huge_pages :: "u64 list \<Rightarrow> nat" where
  "potential_huge_pages addrs =
     length (filter (\<lambda>h. length (remdups (map (page_align 12) (page_group addrs h))) > 64)
       (page_groups addrs))"

definition gb_page_usage :: "u64 list \<Rightarrow> u64 \<Rightarrow> nat" where
  "gb_page_usage addrs gb =
     sum_list (map (\<lambda>h. length (page_group addrs h))
       (filter (\<lambda>h. page_align 30 h = gb) (page_groups addrs)))"

definition huge_compute_once :: "u64 list \<Rightarrow> page_type \<Rightarrow> int \<times> page_type" where
  "huge_compute_once addrs pt =
     (if potential_huge_pages addrs > 3 then (1, HUGEPAGE_2M)
      else if list_ex (\<lambda>gb. gb_page_usage addrs gb > 16384)
                (remdups (map (page_align 30) (page_groups addrs)))
      then (2, HUGEPAGE_1G)
      else (0, pt))"

definition huge_get_stats :: "HugePagePolicy \<Rightarrow> real \<times> real \<times> real \<times> u64" where
  "huge_get_stats p =
     (let s = hg_stats p
      in (ratio_of (hp_tlb_hits_4k s) (hp_tlb_misses_4k s),
          ratio_of (hp_tlb_hits_2m s) (hp_tlb_misses_2m s),
          ratio_of (hp_tlb_hits_1g s) (hp_tlb_misses_1g s), hp_ptw_count s))"

section \<open>Page-table aware policy\<close>

record PageTableAwarePolicy =
  pa_va_pa_cache :: "u64 \<rightharpoonup> u64"
  pa_ptw_latency_local :: u64
  pa_ptw_latency_remote :: u64
  pa_cache_stats :: CXLPageTableEvent
  pa_last_cleanup_timestamp :: u64
  pa_cleanup_interval :: u64

definition new_PageTableAwarePolicy :: "u64 \<Rightarrow> u64 \<Rightarrow> u64 \<Rightarrow> PageTableAwarePolicy" where
  "new_PageTableAwarePolicy local_latency remote_latency interval =
     \<lparr>pa_va_pa_cache = Map.empty, pa_ptw_latency_local = local_latency,
      pa_ptw_latency_remote = remote_latency, pa_cache_stats = new_CXLPageTableEvent,
      pa_last_cleanup_timestamp = 0, pa_cleanup_interval = interval\<rparr>"

definition pa_hit_rate :: "CXLPageTableEvent \<Rightarrow> real" where
  "pa_hit_rate s =
     (if pt_total s > 0 then double_of_u64 (pt_hit s) / double_of_u64 (pt_total s) else 0)"

text \<open>\<open>keys\<close> are the cached addresses in the order the shuffle leaves them.\<close>

definition aware_compute_once ::
  "PageTableAwarePolicy \<Rightarrow> u64 \<Rightarrow> u64 list \<Rightarrow> int \<times> PageTableAwarePolicy" where
  "aware_compute_once p current_timestamp keys =
     (if current_timestamp - pa_last_cleanup_timestamp p > pa_cleanup_interval p
      then (1, p\<lparr>pa_va_pa_cache := Map.empty, pa_last_cleanup_timestamp := current_timestamp\<rparr>)
      else
        let hit_rate = pa_hit_rate (pa_cache_stats p);
            cached = card (dom (pa_va_pa_cache p))
        in
        if hit_rate < 7 / 10 \<and> cached < 10000 then (0, p)
        else if hit_rate > 9 / 10 \<and> cached > 1000
        then (2, p\<lparr>pa_va_pa_cache := pa_va_pa_cache p |` (- set (take (cached div 10) keys))\<rparr>)
        else (0, p))"

definition aware_check_page_table_walk ::
  "PageTableAwarePolicy \<Rightarrow> u64 \<Rightarrow> u64 \<Rightarrow> bool \<Rightarrow> page_type \<Rightarrow> u64 \<times> PageTableAwarePolicy" where
  "aware_check_page_table_walk p virt_addr phys_addr is_remote page_size =
     (let p1 = p\<lparr>pa_cache_stats := pt_inc_total (pa_cache_stats p)\<rparr>
      in
      if pa_va_pa_cache p1 virt_addr \<noteq> None
      then (0, p1\<lparr>pa_cache_stats := pt_inc_hit (pa_cache_stats p1)\<rparr>)
      else
        let p2 = p1\<lparr>pa_cache_stats := pt_inc_miss (pa_cache_stats p1),
                     pa_va_pa_cache := (pa_va_pa_cache p1)(virt_addr \<mapsto> phys_addr)\<rparr>
        in (if is_remote then pa_ptw_latency_remote p2 else pa_ptw_latency_local p2, p2))"

definition aware_get_stats :: "PageTableAwarePolicy \<Rightarrow> u64 \<times> u64 \<times> real" where
  "aware_get_stats p =
     (let s = pa_cache_stats p in (pt_hit s, pt_miss s, pa_hit_rate s))"

section \<open>Dispatch\<close>

datatype PagingPolicy =
    PagingPolicy_base
  | HugePage HugePagePolicy
  | PageTableAware PageTableAwarePolicy

fun check_page_table_walk ::
  "PagingPolicy \<Rightarrow> u64 \<Rightarrow> u64 \<Rightarrow> bool \<Rightarrow> page_type \<Rightarrow> (u64 \<times> PagingPolicy) option" where
  "check_page_table_walk PagingPolicy_base virt phys is_remote pt = Some (0, PagingPolicy_base)"
| "check_page_table_walk (HugePage p) virt phys is_remote pt =
     map_option (\<lambda>(lat, p'). (lat, HugePage p')) (huge_check_page_table_walk p virt phys is_remote pt)"
| "check_page_table_walk (PageTableAware p) virt phys is_remote pt =
     (case aware_check_page_table_walk p virt phys is_remote pt of
        (lat, p') \<Rightarrow> Some (lat, PageTableAware p'))"

section \<open>Specification\<close>

definition tlb_keys :: "TLBCache \<Rightarrow> u64 list" where
  "tlb_keys t = list_values (tc_entries t)"

definition tlb_limit :: "TLBCache \<Rightarrow> nat" where
  "tlb_limit t = unat (tc_capacity t)"

definition tlb_inv :: "TLBCache \<Rightarrow> bool" where
  "tlb_inv t \<longleftrightarrow> nodes_ok (tc_entries t) (tc_index t) (tc_next t)
     \<and> length (tc_entries t) \<le> tlb_limit t"

fun tlb_size :: "page_type \<Rightarrow> nat" where
  "tlb_size CACHELINE = 64"
| "tlb_size PAGE = 64"
| "tlb_size HUGEPAGE_2M = 32"
| "tlb_size HUGEPAGE_1G = 4"

text \<open>The cost of a walk that misses the TLB.\<close>

definition walk_cost :: "HugePagePolicy \<Rightarrow> u64 \<Rightarrow> bool \<Rightarrow> page_type \<Rightarrow> u64" where
  "walk_cost p virt_addr is_remote pt =
     (let base = double_of_u64
            (if is_remote then hg_ptw_base_latency_remote p else hg_ptw_base_latency_local p)
      in u64_of_double (if hg_va_pa_cache p virt_addr \<noteq> None
                        then base * (2 / 10) * ptw_reduction pt else base * ptw_reduction pt))"

text \<open>A history of walks with one page size, the most recent first.\<close>

fun walk_run ::
  "page_type \<Rightarrow> HugePagePolicy \<Rightarrow> (u64 \<times> u64 \<times> bool) list \<Rightarrow> HugePagePolicy option" where
  "walk_run pt p [] = Some p"
| "walk_run pt p ((virt, phys, is_remote) # hist) =
     (case walk_run pt p hist of
        None \<Rightarrow> None
      | Some p1 \<Rightarrow> map_option snd (huge_check_page_table_walk p1 virt phys is_remote pt))"

definition walk_pages :: "page_type \<Rightarrow> (u64 \<times> u64 \<times> bool) list \<Rightarrow> u64 list" where
  "walk_pages pt hist = map (\<lambda>(virt, _, _). page_align (page_bits pt) virt) hist"

text \<open>
  What a history of walks tells: whether a page is among the most recently used ones, and whether an
  address has gone through a full walk, one whose page was not.
\<close>

definition page_recent :: "page_type \<Rightarrow> (u64 \<times> u64 \<times> bool) list \<Rightarrow> u64 \<Rightarrow> bool" where
  "page_recent pt hist virt \<longleftrightarrow>
     page_align (page_bits pt) virt \<in> set (take (tlb_size pt) (recent (walk_pages pt hist)))"

fun translated :: "page_type \<Rightarrow> (u64 \<times> u64 \<times> bool) list \<Rightarrow> u64 \<Rightarrow> bool" where
  "translated pt [] virt = False"
| "translated pt ((v, phys, is_remote) # hist) virt =
     (translated pt hist virt \<or> v = virt \<and> \<not> page_recent pt hist v)"

datatype aware_op =
    Check_walk u64 u64 bool page_type
  | Compute_once u64 "u64 list"

fun aware_step :: "PageTableAwarePolicy \<Rightarrow> aware_op \<Rightarrow> PageTableAwarePolicy" where
  "aware_step p (Check_walk virt phys is_remote pt) =
     snd (aware_check_page_table_walk p virt phys is_remote pt)"
| "aware_step p (Compute_once now keys) = snd (aware_compute_once p now keys)"

section \<open>A TLB is a recency cache\<close>

lemma tlb_fields [frame_simps]:
  "tlb_limit (tlb_push_front t k) = tlb_limit t"
  "tlb_limit (t\<lparr>tc_entries := l\<rparr>) = tlb_limit t"
  "tlb_limit (t\<lparr>tc_index := m\<rparr>) = tlb_limit t"
  by (simp_all add: tlb_limit_def tlb_push_front_def)

lemma tlb_push_inv:
  assumes "nodes_ok (tc_entries t) ((tc_index t)(k := None)) (tc_next t)"
    and "k \<notin> set (tlb_keys t)" and "length (tc_entries t) < tlb_limit t"
  shows "tlb_inv (tlb_push_front t k)" and "tlb_keys (tlb_push_front t k) = k # tlb_keys t"
  using assms nodes_push [of "tc_entries t" "tc_index t" k "tc_next t"]
  by (simp_all add: tlb_inv_def tlb_push_front_def tlb_keys_def tlb_limit_def)
    (simp add: list_values_def)

lemma in_tlb_keys: "tlb_inv t \<Longrightarrow> tc_index t k \<noteq> None \<longleftrightarrow> k \<in> set (tlb_keys t)"
  unfolding tlb_inv_def tlb_keys_def by (metis nodes_None_iff)

lemma tlb_erase:
  assumes "tlb_inv t" and "k \<in> set (tlb_keys t)"
  defines "l \<equiv> filter (\<lambda>x. snd x \<noteq> k) (tc_entries t)"
  shows "list_erase (tc_entries t) (tc_index t k) = Some l"
    and "nodes_ok l ((tc_index t)(k := None)) (tc_next t)"
    and "length l < tlb_limit t" and "list_values l = removeAll k (tlb_keys t)"
proof -
  have ok: "nodes_ok (tc_entries t) (tc_index t) (tc_next t)"
    using assms(1) by (simp add: tlb_inv_def)
  then show "list_erase (tc_entries t) (tc_index t k) = Some l"
    using nodes_erase [OF ok] assms(2) by (simp add: l_def tlb_keys_def)
  show "nodes_ok l ((tc_index t)(k := None)) (tc_next t)"
    unfolding l_def by (rule nodes_filter [OF ok])
  show vals: "list_values l = removeAll k (tlb_keys t)"
    by (simp add: l_def tlb_keys_def values_filter)
  then have "length (list_values l) < length (tlb_keys t)"
    using length_removeAll_less [OF assms(2)] by simp
  then show "length l < tlb_limit t"
    using assms(1) by (simp add: tlb_inv_def tlb_keys_def list_values_def)
qed

lemma tlb_lookup_keys:
  assumes "tlb_inv t"
  shows "\<exists>t'. tlb_lookup t k = Some (k \<in> set (tlb_keys t), t') \<and> tlb_inv t'
    \<and> tlb_limit t' = tlb_limit t \<and> tlb_keys t' = recency_touch (tlb_keys t) k"
proof (cases "k \<in> set (tlb_keys t)")
  case True
  let ?t1 = "t\<lparr>tc_entries := filter (\<lambda>x. snd x \<noteq> k) (tc_entries t)\<rparr>"
  note er = tlb_erase [OF assms True]
  have k1: "tlb_keys ?t1 = removeAll k (tlb_keys t)"
    using er(4) by (simp add: tlb_keys_def)
  have "tlb_inv (tlb_push_front ?t1 k)" "tlb_keys (tlb_push_front ?t1 k) = k # tlb_keys ?t1"
    using er k1 by (intro tlb_push_inv; simp add: frame_simps)+
  moreover have "tlb_lookup t k = Some (True, tlb_push_front ?t1 k)"
    using er(1) True in_tlb_keys [OF assms] by (simp add: tlb_lookup_def)
  ultimately show ?thesis
    using True k1 by (simp add: recency_touch_def frame_simps)
next
  case False
  then show ?thesis
    using assms in_tlb_keys [OF assms, of k] by (simp add: tlb_lookup_def recency_touch_def)
qed

lemma tlb_insert_keys:
  assumes "tlb_inv t" and "0 < tlb_limit t"
  shows "\<exists>t'. tlb_insert t k = Some t' \<and> tlb_inv t' \<and> tlb_limit t' = tlb_limit t
    \<and> tlb_keys t' = recency_add (tlb_limit t) (tlb_keys t) k"
proof -
  have ok: "nodes_ok (tc_entries t) (tc_index t) (tc_next t)"
    using assms(1) by (simp add: tlb_inv_def)
  have len: "length (tc_entries t) = length (tlb_keys t)"
    by (simp add: tlb_keys_def list_values_def)
  consider (present) "k \<in> set (tlb_keys t)"
    | (full) "k \<notin> set (tlb_keys t)" "length (tc_entries t) \<ge> tlb_limit t"
    | (room) "k \<notin> set (tlb_keys t)" "length (tc_entries t) < tlb_limit t"
    by linarith
  then show ?thesis
  proof cases
    case present
    let ?t1 = "t\<lparr>tc_entries := filter (\<lambda>x. snd x \<noteq> k) (tc_entries t), tc_index := (tc_index t)(k := None)\<rparr>"
    note er = tlb_erase [OF assms(1) present]
    have k1: "tlb_keys ?t1 = removeAll k (tlb_keys t)"
      using er(4) by (simp add: tlb_keys_def)
    have "tlb_inv (tlb_push_front ?t1 k)" "tlb_keys (tlb_push_front ?t1 k) = k # tlb_keys ?t1"
      using er k1 by (intro tlb_push_inv; simp add: frame_simps)+
    moreover have "tlb_insert t k = Some (tlb_push_front ?t1 k)"
      using er(1,3) present in_tlb_keys [OF assms(1), of k] by (simp add: tlb_insert_def tlb_limit_def)
    ultimately show ?thesis
      using present k1 by (simp add: recency_add_def frame_simps)
  next
    case full
    then have ne: "tc_entries t \<noteq> []"
      using assms(2) by auto
    define v where "v = last (tlb_keys t)"
    let ?t1 = "t\<lparr>tc_entries := butlast (tc_entries t), tc_index := (tc_index t)(v := None)\<rparr>"
    have v: "list_back (tc_entries t) = Some v" "snd (last (tc_entries t)) = v"
      using ne by (simp_all add: v_def tlb_keys_def list_values_def last_map list_back_def)
    note bl = nodes_butlast [OF ok ne, unfolded v(2)]
    have k1: "tlb_keys ?t1 = butlast (tlb_keys t)"
      using bl(2) by (simp add: tlb_keys_def)
    have nk: "k \<notin> set (tlb_keys ?t1)"
      using k1 full(1) by (metis in_set_butlastD)
    have "tc_index t k = None"
      using full(1) in_tlb_keys [OF assms(1)] by blast
    then have "((tc_index t)(v := None))(k := None) = (tc_index t)(v := None)"
      by (simp add: fun_upd_idem_iff)
    moreover have "length (butlast (tc_entries t)) < tlb_limit t"
      using assms by (auto simp: tlb_inv_def)
    ultimately have "tlb_inv (tlb_push_front ?t1 k)" "tlb_keys (tlb_push_front ?t1 k) = k # tlb_keys ?t1"
      using bl(1) nk by (intro tlb_push_inv; simp add: frame_simps)+
    moreover have "tlb_insert t k = Some (tlb_push_front ?t1 k)"
      using full v(1) in_tlb_keys [OF assms(1), of k] by (simp add: tlb_insert_def tlb_limit_def)
    ultimately show ?thesis
      using full k1 len by (simp add: recency_add_def frame_simps)
  next
    case room
    have idx: "tc_index t k = None"
      using room(1) in_tlb_keys [OF assms(1)] by blast
    then have "(tc_index t)(k := None) = tc_index t"
      by (simp add: fun_upd_idem)
    then have "tlb_inv (tlb_push_front t k)" "tlb_keys (tlb_push_front t k) = k # tlb_keys t"
      using ok room by (intro tlb_push_inv; simp)+
    moreover have "tlb_insert t k = Some (tlb_push_front t k)"
      using room idx by (simp add: tlb_insert_def tlb_limit_def)
    ultimately show ?thesis
      using room len by (simp add: recency_add_def frame_simps)
  qed
qed

interpretation tlb: recency_cache tlb_inv tlb_keys tlb_limit
  "\<lambda>_ :: unit. tlb_lookup" "\<lambda>_ :: unit. tlb_insert"
proof
  fix t :: TLBCache and k :: u64
  assume inv: "tlb_inv t"
  then show "length (tlb_keys t) \<le> tlb_limit t"
    by (simp add: tlb_inv_def tlb_keys_def list_values_def)
  show "\<exists>t'. tlb_lookup t k = Some (k \<in> set (tlb_keys t), t') \<and> tlb_inv t'
      \<and> tlb_limit t' = tlb_limit t \<and> tlb_keys t' = recency_touch (tlb_keys t) k"
    by (rule tlb_lookup_keys [OF inv])
  assume "0 < tlb_limit t"
  then show "\<exists>t'. tlb_insert t k = Some t' \<and> tlb_inv t' \<and> tlb_limit t' = tlb_limit t
      \<and> tlb_keys t' = recency_add (tlb_limit t) (tlb_keys t) k"
    by (rule tlb_insert_keys [OF inv])
qed

section \<open>Page-table walks\<close>

lemma set_tlb_fields [frame_simps]:
  "tlb_of pt (set_tlb pt t p) = t"
  "set_tlb pt t (set_tlb pt u p) = set_tlb pt t p"
  "hg_va_pa_cache (set_tlb pt t p) = hg_va_pa_cache p"
  "hg_stats (set_tlb pt t p) = hg_stats p"
  "hg_ptw_base_latency_local (set_tlb pt t p) = hg_ptw_base_latency_local p"
  "hg_ptw_base_latency_remote (set_tlb pt t p) = hg_ptw_base_latency_remote p"
  "tlb_of pt (p\<lparr>hg_stats := s\<rparr>) = tlb_of pt p"
  "tlb_of pt (p\<lparr>hg_va_pa_cache := m\<rparr>) = tlb_of pt p"
  by (cases pt; simp)+

lemma walk_tlb:
  fixes p :: HugePagePolicy and pt :: page_type
  defines "acc \<equiv> cache_access (\<lambda>_ :: unit. tlb_lookup) (\<lambda>_. tlb_insert)"
  assumes "acc (tlb_of pt p) ((), page_align (page_bits pt) virt) = Some (hit, t')"
  shows "\<exists>p'. huge_check_page_table_walk p virt phys is_remote pt
      = Some (if hit then 0 else walk_cost p virt is_remote pt, p') \<and> tlb_of pt p' = t'
    \<and> hg_ptw_base_latency_local p' = hg_ptw_base_latency_local p
    \<and> hg_ptw_base_latency_remote p' = hg_ptw_base_latency_remote p
    \<and> dom (hg_va_pa_cache p') = dom (hg_va_pa_cache p) \<union> (if hit then {} else {virt})"
proof -
  let ?page = "page_align (page_bits pt) virt"
  obtain h t1 where l: "tlb_lookup (tlb_of pt p) ?page = Some (h, t1)"
    using assms by (cases "tlb_lookup (tlb_of pt p) ?page") (auto simp: cache_access_def)
  show ?thesis
  proof (cases h)
    case True
    with assms l show ?thesis
      by (simp add: cache_access_def huge_check_page_table_walk_def Let_def frame_simps)
  next
    case False
    with assms l have "tlb_insert t1 ?page = Some t'" "\<not> hit"
      by (auto simp: cache_access_def)
    with False l show ?thesis
      by (auto simp: huge_check_page_table_walk_def Let_def frame_simps walk_cost_def insert_absorb domI)
  qed
qed

lemma tlb_size_pos [simp]: "0 < tlb_size pt"
  by (cases pt) simp_all

lemma tlb_of_new:
  "tlb_inv (tlb_of pt (new_HugePagePolicy l r))" "tlb_keys (tlb_of pt (new_HugePagePolicy l r)) = []"
  "tlb_limit (tlb_of pt (new_HugePagePolicy l r)) = tlb_size pt"
  by (cases pt; simp add: new_HugePagePolicy_def new_TLBCache_def tlb_inv_def nodes_ok_def
      tlb_keys_def list_values_def tlb_limit_def)+

lemma next_walk:
  assumes "cache_run (\<lambda>_ :: unit. tlb_lookup) (\<lambda>_. tlb_insert) (tlb_of pt (new_HugePagePolicy l r))
      (map (Pair ()) (walk_pages pt hist)) = Some (tlb_of pt p)"
  shows "\<exists>t'. cache_access (\<lambda>_ :: unit. tlb_lookup) (\<lambda>_. tlb_insert) (tlb_of pt p)
      ((), page_align (page_bits pt) virt) = Some (page_recent pt hist virt, t')"
  using tlb.run_hits [of "tlb_of pt (new_HugePagePolicy l r)" "map (Pair ()) (walk_pages pt hist)" "()"
      "page_align (page_bits pt) virt"] tlb_of_new [of pt l r] assms
  by (auto simp: comp_def page_recent_def)

lemma walk_run_tlb:
  fixes l r
  defines "p0 \<equiv> new_HugePagePolicy l r"
  shows "\<exists>p. walk_run pt p0 hist = Some p
    \<and> cache_run (\<lambda>_ :: unit. tlb_lookup) (\<lambda>_. tlb_insert) (tlb_of pt p0)
         (map (Pair ()) (walk_pages pt hist)) = Some (tlb_of pt p)
    \<and> hg_ptw_base_latency_local p = l \<and> hg_ptw_base_latency_remote p = r
    \<and> dom (hg_va_pa_cache p) = {a. translated pt hist a}"
proof (induction hist)
  case Nil
  show ?case by (simp add: p0_def walk_pages_def) (simp add: new_HugePagePolicy_def)
next
  case (Cons w hist)
  obtain virt phys rem where w: "w = (virt, phys, rem)"
    by (cases w)
  obtain p where p: "walk_run pt p0 hist = Some p"
      "cache_run (\<lambda>_ :: unit. tlb_lookup) (\<lambda>_. tlb_insert) (tlb_of pt p0)
         (map (Pair ()) (walk_pages pt hist)) = Some (tlb_of pt p)"
      "hg_ptw_base_latency_local p = l" "hg_ptw_base_latency_remote p = r" "dom (hg_va_pa_cache p) = {a. translated pt hist a}"
    using Cons.IH by blast
  obtain t' where a: "cache_access (\<lambda>_ :: unit. tlb_lookup) (\<lambda>_. tlb_insert) (tlb_of pt p)
      ((), page_align (page_bits pt) virt) = Some (page_recent pt hist virt, t')"
    using next_walk [OF p(2) [unfolded p0_def]] by blast
  have d: "{a. translated pt (w # hist) a} = {a. translated pt hist a} \<union> (if page_recent pt hist virt then {} else {virt})"
    by (auto simp: w)
  from walk_tlb [OF a, of phys rem] obtain p' where
    "huge_check_page_table_walk p virt phys rem pt = Some (if page_recent pt hist virt then 0 else walk_cost p virt rem pt, p')"
    "tlb_of pt p' = t'" "hg_ptw_base_latency_local p' = l" "hg_ptw_base_latency_remote p' = r"
    "dom (hg_va_pa_cache p') = {a. translated pt (w # hist) a}"
    using p(3,4,5) unfolding d by blast
  then show ?case using p(1,2) a by (simp add: w walk_pages_def)
qed

text \<open>
  C37. After any history of page-table walks with one page size, starting from a fresh policy, the
  next walk returns.  It costs nothing if its page is among the most recently used pages, 64 of 4 KB, 32
  of 2 MB or 4 of 1 GB.  Otherwise it costs the base latency times the factor of the page size, truncated, and a
  fifth of that when the virtual address has been walked before at a time its page was not among
  the most recently used ones.
\<close>

theorem huge_walk_latency:
  "\<exists>p p'. walk_run pt (new_HugePagePolicy l r) hist = Some p
    \<and> huge_check_page_table_walk p virt phys is_remote pt =
        Some (if page_recent pt hist virt then 0
              else u64_of_double (double_of_u64 (if is_remote then r else l)
                * (if translated pt hist virt then 2 / 10 else 1) * ptw_reduction pt), p')"
proof -
  obtain p where p: "walk_run pt (new_HugePagePolicy l r) hist = Some p"
      "cache_run (\<lambda>_ :: unit. tlb_lookup) (\<lambda>_. tlb_insert) (tlb_of pt (new_HugePagePolicy l r))
         (map (Pair ()) (walk_pages pt hist)) = Some (tlb_of pt p)"
      "hg_ptw_base_latency_local p = l" "hg_ptw_base_latency_remote p = r" "dom (hg_va_pa_cache p) = {a. translated pt hist a}"
    using walk_run_tlb by blast
  obtain t' where "cache_access (\<lambda>_ :: unit. tlb_lookup) (\<lambda>_. tlb_insert) (tlb_of pt p)
      ((), page_align (page_bits pt) virt) = Some (page_recent pt hist virt, t')"
    using next_walk [OF p(2)] by blast
  moreover have "hg_va_pa_cache p virt \<noteq> None \<longleftrightarrow> translated pt hist virt" using p(5) by auto
  ultimately show ?thesis
    using walk_tlb [of pt p virt "page_recent pt hist virt" t' phys is_remote] p(1,3,4)
    by (auto simp: walk_cost_def Let_def)
qed

lemma aware_step_counts:
  "pt_hit (pa_cache_stats p) + pt_miss (pa_cache_stats p) = pt_total (pa_cache_stats p) \<Longrightarrow>
   pt_hit (pa_cache_stats (aware_step p op)) + pt_miss (pa_cache_stats (aware_step p op))
     = pt_total (pa_cache_stats (aware_step p op))"
  by (cases op) (auto simp: aware_check_page_table_walk_def aware_compute_once_def Let_def
      pt_inc_total_def pt_inc_hit_def pt_inc_miss_def increment_def algebra_simps)

text \<open>
  \<open>PageTableAwarePolicy\<close> counts every walk once: after any sequence of walks and periodic
  adjustments, the hits and the misses add up to the total, whatever entries the adjustments drop.
\<close>

theorem aware_counts_walks:
  "pt_hit (pa_cache_stats (foldl aware_step (new_PageTableAwarePolicy l r i) ops))
     + pt_miss (pa_cache_stats (foldl aware_step (new_PageTableAwarePolicy l r i) ops))
   = pt_total (pa_cache_stats (foldl aware_step (new_PageTableAwarePolicy l r i) ops))"
  by (induction ops rule: rev_induct)
    (simp_all add: aware_step_counts new_PageTableAwarePolicy_def new_CXLPageTableEvent_def)

section \<open>Page sizes\<close>

lemma page_align_eq: "n < 64 \<Longrightarrow> page_align n a = push_bit n (drop_bit n a)"
proof -
  assume n: "n < 64"
  have m: "(push_bit n 1 - 1 :: u64) = mask n"
    by (simp add: mask_eq_exp_minus_1 push_bit_eq_mult)
  show ?thesis
    unfolding page_align_def m by (rule bit_word_eqI) (auto simp: bit_simps)
qed

lemma page_align_align: "m \<le> n \<Longrightarrow> n < 64 \<Longrightarrow> page_align n (page_align m a) = page_align n a"
  by (simp add: page_align_eq) (rule bit_word_eqI, auto simp: bit_simps)

lemma length_groups:
  assumes "distinct gs"
  shows "sum_list (map (\<lambda>g. length (filter (\<lambda>a. f a = g) xs)) gs) = length (filter (\<lambda>a. f a \<in> set gs) xs)"
  using assms
proof (induction gs)
  case (Cons g gs)
  have "length (filter (\<lambda>a. f a \<in> set (g # gs)) xs)
      = length (filter (\<lambda>a. f a = g) xs) + length (filter (\<lambda>a. f a \<in> set gs) xs)"
    using Cons.prems by (induction xs) auto
  with Cons show ?case
    by simp
qed simp

lemma gb_page_usage_eq:
  "gb_page_usage addrs gb = length (filter (\<lambda>a. page_align 30 a = gb) addrs)"
proof -
  have "gb_page_usage addrs gb
      = length (filter (\<lambda>a. page_align 21 a \<in> set (filter (\<lambda>h. page_align 30 h = gb) (page_groups addrs))) addrs)"
    unfolding gb_page_usage_def page_group_def
    by (intro length_groups) (simp add: page_groups_def)
  also have "\<dots> = length (filter (\<lambda>a. page_align 30 a = gb) addrs)"
    by (intro arg_cong [where f = length] filter_cong) (auto simp: page_groups_def page_align_align)
  finally show ?thesis .
qed

lemma remdups_replicate: "remdups (replicate n x) = (if n = 0 then [] else [x])"
  by (induction n) auto

text \<open>
  The 1 GB threshold, commented as a sixteenth of the 4 KB pages of a 1 GB page, counts recorded
  accesses, not pages: accesses to a single address reach it.
\<close>

lemma huge_page_from_one_address: "huge_compute_once (replicate 16385 0) pt = (2, HUGEPAGE_1G)"
proof -
  have g: "page_groups (replicate 16385 0) = [page_align 21 0]"
    by (simp add: page_groups_def remdups_replicate)
  have "length (remdups (map (page_align 12) (page_group (replicate 16385 0) (page_align 21 0)))) \<le> 1"
    by (simp add: page_group_def filter_replicate remdups_replicate)
  then have "potential_huge_pages (replicate 16385 0) \<le> 1"
    by (simp add: potential_huge_pages_def g)
  moreover have "gb_page_usage (replicate 16385 0) (page_align 30 (page_align 21 0)) = 16385"
    by (simp add: gb_page_usage_eq page_align_align filter_replicate)
  ultimately show ?thesis
    by (simp add: huge_compute_once_def g)
qed

end
