(* ===== verification/Remote_Expander.thy ===== *)
theory Remote_Expander
  imports Coherency_Engine Mem_Expander
begin

text \<open>
  The remote expander of \<open>include/cxlendpoint.h\<close> and \<open>src/cxlendpoint.cpp\<close>: an expander that stands
  for the memory of another node, with a fabric link to it, a pointer to the coherency engine of the
  local node, and a shadow directory.

  The base class is a field.  The engine is reached through a pointer: \<open>rm_coherency_engine\<close> is the
  identity of the engine the pointer was set to, and the environment holds the engine that is alive,
  with its identity; using a pointer to an engine that has been destroyed is undefined and gives
  \<^const>\<open>None\<close>.  The engine shares the controller's LogP model, which is part of the environment too.
  The pointers to the transport, the message manager and the decoder are never used by the class and
  are left out.

  The lemmas show what an insertion returns and records, that the latency of remote accesses covers
  every stage of the path, and that computing it acquires read permission for the lines it touches.
\<close>

section \<open>Data\<close>

record ShadowEntry =
  sh_local_state :: MHSLDCacheState
  sh_last_access_time :: u64
  sh_valid :: bool

record RemoteCXLExpander =
  rm_expander :: CXLMemExpander
  rm_remote_node_id :: u32
  rm_local_node_id :: u32
  rm_fabric_link :: FabricLink
  rm_coherency_engine :: "nat option"
  rm_remote_base_addr :: u64
  rm_remote_capacity :: u64
  rm_shadow_directory :: "u64 \<rightharpoonup> ShadowEntry"

record fabric_env =
  fe_engine :: "(nat \<times> CoherencyEngine) option"
  fe_logp :: LogPModel

text \<open>\<open>static_cast<int>(remote_capacity / (1024*1024))\<close>\<close>

definition capacity_mb :: "u64 \<Rightarrow> int" where
  "capacity_mb bytes = sint (ucast (bytes div (1024 * 1024)) :: u32)"

definition new_RemoteCXLExpander ::
  "int \<Rightarrow> u32 \<Rightarrow> u32 \<Rightarrow> u64 \<Rightarrow> u64 \<Rightarrow> FabricLinkConfig \<Rightarrow> RemoteCXLExpander" where
  "new_RemoteCXLExpander ident remote_node local_node remote_base remote_capacity link_cfg =
     \<lparr>rm_expander = new_CXLMemExpander 25 25 100 150 ident (capacity_mb remote_capacity),
      rm_remote_node_id = remote_node, rm_local_node_id = local_node,
      rm_fabric_link = new_FabricLink local_node remote_node link_cfg,
      rm_coherency_engine = None, rm_remote_base_addr = remote_base,
      rm_remote_capacity = remote_capacity, rm_shadow_directory = Map.empty\<rparr>"

definition in_remote_range :: "RemoteCXLExpander \<Rightarrow> u64 \<Rightarrow> bool" where
  "in_remote_range r addr \<longleftrightarrow>
     \<not> (addr < rm_remote_base_addr r \<or> addr \<ge> rm_remote_base_addr r + rm_remote_capacity r)"

section \<open>Shadow directory\<close>

definition invalidate_shadow :: "RemoteCXLExpander \<Rightarrow> u64 \<Rightarrow> RemoteCXLExpander" where
  "invalidate_shadow r addr =
     (case rm_shadow_directory r (cl_align addr) of
        None \<Rightarrow> r
      | Some s \<Rightarrow>
          r\<lparr>rm_shadow_directory := (rm_shadow_directory r)
              (cl_align addr \<mapsto> s\<lparr>sh_valid := False, sh_local_state := INVALID\<rparr>)\<rparr>)"

definition update_shadow :: "RemoteCXLExpander \<Rightarrow> u64 \<Rightarrow> MHSLDCacheState \<Rightarrow> u64 \<Rightarrow> RemoteCXLExpander" where
  "update_shadow r addr st ts =
     r\<lparr>rm_shadow_directory := (rm_shadow_directory r)
         (cl_align addr \<mapsto> \<lparr>sh_local_state = st, sh_last_access_time = ts, sh_valid = True\<rparr>)\<rparr>"

section \<open>Latency and bandwidth\<close>

text \<open>\<open>coherency_engine_->process_read(req)\<close>: the engine works on the shared LogP model.\<close>

definition engine_read ::
  "fabric_env \<Rightarrow> nat \<Rightarrow> CoherencyRequest \<Rightarrow> (real \<times> fabric_env) option" where
  "engine_read env ptr req =
     (case fe_engine env of
        None \<Rightarrow> None
      | Some (i, e) \<Rightarrow>
          if i \<noteq> ptr then None
          else
            let (resp, e1) = process_read (e\<lparr>ce_logp_model := Some (fe_logp env)\<rparr>) req
            in Some (rs_latency_ns resp,
                     \<lparr>fe_engine = Some (i, e1),
                      fe_logp = (case ce_logp_model e1 of Some m \<Rightarrow> m | None \<Rightarrow> fe_logp env)\<rparr>))"

text \<open>The body of the loop of \<open>calculate_latency\<close> for an access to the remote range.\<close>

definition remote_access ::
  "RemoteCXLExpander \<Rightarrow> fabric_env \<Rightarrow> u64 \<Rightarrow> u64 \<Rightarrow> (real \<times> RemoteCXLExpander \<times> fabric_env) option" where
  "remote_access r env ts addr =
     (let x = rm_expander r;
          (traversal, link) = calculate_traversal_latency (rm_fabric_link r) ts 64;
          r1 = r\<lparr>rm_fabric_link := link\<rparr>;
          before = me_frontend_latency x + me_forward_latency x + traversal;
          after = la_read (me_latency x) + me_response_latency x + calculate_congestion_delay x ts
      in case rm_coherency_engine r of
           None \<Rightarrow> Some (before + after, r1, env)
         | Some ptr \<Rightarrow>
             map_option (\<lambda>(coh, env1). (before + coh + after, r1, env1))
               (engine_read env ptr
                  \<lparr>cr_addr = addr, cr_requesting_node = rm_local_node_id r, cr_requesting_head = 0,
                   cr_is_write = False, cr_timestamp = ts\<rparr>))"

fun remote_latency_loop ::
  "RemoteCXLExpander \<Rightarrow> fabric_env \<Rightarrow> access list \<Rightarrow> real \<Rightarrow> nat
     \<Rightarrow> (real \<times> nat \<times> RemoteCXLExpander \<times> fabric_env) option" where
  "remote_latency_loop r env [] total_latency access_count = Some (total_latency, access_count, r, env)"
| "remote_latency_loop r env ((ts, addr) # elems) total_latency access_count =
     (if \<not> in_remote_range r addr then remote_latency_loop r env elems total_latency access_count
      else case remote_access r env ts addr of
             None \<Rightarrow> None
           | Some (access_latency, r1, env1) \<Rightarrow>
               remote_latency_loop r1 env1 elems (total_latency + access_latency) (access_count + 1))"

definition remote_calculate_latency ::
  "RemoteCXLExpander \<Rightarrow> fabric_env \<Rightarrow> access list \<Rightarrow> real
     \<Rightarrow> (real \<times> RemoteCXLExpander \<times> fabric_env) option" where
  "remote_calculate_latency r env elems dramlatency =
     (if elems = [] then Some (0, r, env)
      else
        map_option
          (\<lambda>(total_latency, access_count, r1, env1).
             (if access_count > 0 then total_latency / real access_count else 0, r1, env1))
          (remote_latency_loop r env elems 0 0))"

definition remote_calculate_bandwidth :: "RemoteCXLExpander \<Rightarrow> access list \<Rightarrow> real" where
  "remote_calculate_bandwidth r elems =
     (if elems = [] then 0
      else
        let current_time = fst (last elems);
            window_start = current_time - 20000000;
            access_count = length (filter
              (\<lambda>(ts, addr). ts \<ge> window_start \<and> addr \<ge> rm_remote_base_addr r
                 \<and> addr < rm_remote_base_addr r + rm_remote_capacity r) elems);
            total_data = of_nat access_count * 64
        in min (window_bandwidth total_data - fl_bandwidth_gbps (fl_config (rm_fabric_link r))) 0)"

section \<open>Insertion\<close>

definition remote_insert ::
  "RemoteCXLExpander \<Rightarrow> u64 \<Rightarrow> u64 \<Rightarrow> u64 \<Rightarrow> u64 \<Rightarrow> int \<Rightarrow> int \<times> RemoteCXLExpander" where
  "remote_insert r ts tid phys_addr virt_addr index =
     (let x = rm_expander r in
      if index \<noteq> me_id x then (0, r)
      else
        let x1 = x\<lparr>me_last_timestamp :=
                     (if me_last_timestamp x > ts then me_last_timestamp x else ts)\<rparr>
        in
        if phys_addr = 0
        then (1, r\<lparr>rm_expander := x1\<lparr>me_counter := expander_increment Store (me_counter x1)\<rparr>\<rparr>)
        else
          let page = \<lparr>oi_timestamp = ts, oi_address = phys_addr, oi_access_count = 0\<rparr>;
              found = (if phys_addr \<in> me_address_cache x1
                       then erase_address phys_addr (me_occupation x1) else None)
          in case found of
               Some occ \<Rightarrow>
                 (2, update_shadow
                       (r\<lparr>rm_expander := x1\<lparr>me_occupation := occ @ [page],
                            me_counter := expander_increment Load (me_counter x1)\<rparr>\<rparr>)
                       phys_addr SHARED ts)
             | None \<Rightarrow>
                 (1, update_shadow
                       (r\<lparr>rm_expander := x1\<lparr>me_occupation := me_occupation x1 @ [page],
                            me_address_cache := insert phys_addr (me_address_cache x1),
                            me_counter := expander_increment Store (me_counter x1)\<rparr>\<rparr>)
                       phys_addr SHARED ts))"

section \<open>Specification\<close>

definition env_ok :: "fabric_env \<Rightarrow> bool" where
  "env_ok env \<longleftrightarrow> logp_ok (fe_logp env) \<and> (\<forall>i e. fe_engine env = Some (i, e) \<longrightarrow> engine_inv e)"

text \<open>The pointer of a remote expander points at the engine that is alive, if it is set at all.\<close>

definition engine_alive :: "RemoteCXLExpander \<Rightarrow> fabric_env \<Rightarrow> bool" where
  "engine_alive r env \<longleftrightarrow>
     (\<forall>ptr. rm_coherency_engine r = Some ptr \<longrightarrow> (\<exists>e. fe_engine env = Some (ptr, e)))"

text \<open>What a remote access costs without congestion and coherency messages.\<close>

definition remote_base_latency :: "RemoteCXLExpander \<Rightarrow> real" where
  "remote_base_latency r =
     (let x = rm_expander r; cfg = fl_config (rm_fabric_link r)
      in me_frontend_latency x + me_forward_latency x + fl_latency_ns cfg
         + 64 / fl_bandwidth_gbps cfg + la_read (me_latency x) + me_response_latency x)"

definition env_perm :: "fabric_env \<Rightarrow> u64 \<Rightarrow> permissions" where
  "env_perm env l =
     (case fe_engine env of None \<Rightarrow> (\<lambda>_. NoAccess) | Some (i, e) \<Rightarrow> line_perm e l)"

text \<open>The lines a remote expander reads for a sequence of accesses.\<close>

definition remote_lines :: "RemoteCXLExpander \<Rightarrow> access list \<Rightarrow> u64 set" where
  "remote_lines r elems = (\<lambda>(ts, a). cl_align a) ` set (filter (\<lambda>(ts, a). in_remote_range r a) elems)"

text \<open>The fields of a remote expander that computing a latency does not change.\<close>

definition remote_frame :: "RemoteCXLExpander \<Rightarrow> RemoteCXLExpander \<Rightarrow> bool" where
  "remote_frame r r' \<longleftrightarrow>
     (\<exists>l. r' = r\<lparr>rm_fabric_link := l\<rparr> \<and> fl_config l = fl_config (rm_fabric_link r)
        \<and> (link_ok (rm_fabric_link r) \<longrightarrow> link_ok l))"

definition example_remote :: RemoteCXLExpander where
  "example_remote = (new_RemoteCXLExpander 0 1 0 0x40000000 0x40000000
     \<lparr>fl_latency_ns = 100, fl_bandwidth_gbps = 25, fl_max_credits = 32\<rparr>)
     \<lparr>rm_coherency_engine := Some 7\<rparr>"

definition example_env :: fabric_env where
  "example_env = \<lparr>fe_engine = Some (7, new_CoherencyEngine 0 (Some example_logp) 4 64),
                  fe_logp = example_logp\<rparr>"

section \<open>One access\<close>

lemma congestion_delay_nonneg: "0 \<le> calculate_congestion_delay x ts"
  by (simp add: calculate_congestion_delay_def Let_def)

lemma engine_logp_shared:
  "engine_inv e \<Longrightarrow> logp_ok m \<Longrightarrow> engine_inv (e\<lparr>ce_logp_model := Some m\<rparr>)"
  "line_perm (e\<lparr>ce_logp_model := Some m\<rparr>) l = line_perm e l"
  by (auto simp: engine_inv_def network_ok_def idle_heads_def line_perm_def entry_at_def)

lemma engine_read_spec:
  assumes "env_ok env" and "fe_engine env = Some (ptr, e)" and "cr_requesting_node req \<noteq> UINT32_MAX"
  obtains lat env' where "engine_read env ptr req = Some (lat, env')" "0 \<le> lat" "env_ok env'"
    "\<exists>e'. fe_engine env' = Some (ptr, e')"
    "\<And>l. env_perm env' l = (if l = cl_align (cr_addr req)
       then spec_read (cr_requesting_node req) (env_perm env l) else env_perm env l)"
proof -
  let ?e0 = "e\<lparr>ce_logp_model := Some (fe_logp env)\<rparr>"
  have inv: "engine_inv ?e0"
    using assms(1,2) by (intro engine_logp_shared) (auto simp: env_ok_def)
  note pr = process_read_inv [OF inv assms(3)]
  obtain resp e1 where r: "process_read ?e0 req = (resp, e1)"
    by (cases "process_read ?e0 req")
  define env' where "env' = \<lparr>fe_engine = Some (ptr, e1),
    fe_logp = (case ce_logp_model e1 of Some m \<Rightarrow> m | None \<Rightarrow> fe_logp env)\<rparr>"
  have "network_ok e1"
    using pr(1) r by (simp add: engine_inv_def)
  then have "env_ok env'"
    using assms(1) pr(1) r by (auto simp: env'_def env_ok_def network_ok_def split: option.splits)
  moreover have "engine_read env ptr req = Some (rs_latency_ns resp, env')"
    using assms(2) r by (simp add: engine_read_def env'_def)
  ultimately show ?thesis
    using pr(2,3) r assms(2)
    by (intro that [of "rs_latency_ns resp" env']) (simp_all add: env_perm_def env'_def engine_logp_shared(2))
qed

lemma traversal_ge:
  assumes "link_ok l"
  shows "fl_latency_ns (fl_config l) + 64 / fl_bandwidth_gbps (fl_config l)
      \<le> fst (calculate_traversal_latency l ts 64)"
    and "fl_config (snd (calculate_traversal_latency l ts 64)) = fl_config l"
  using congestion_delay_range(1) [OF assms, of ts]
  by (simp_all add: calculate_traversal_latency_def Let_def double_of_u64_def)

text \<open>
  An access to the remote range costs at least the stages of the path; it leaves the environment in
  order, and acquires read permission for its line when the expander has an engine.
\<close>

lemma remote_access_spec:
  assumes "env_ok env" and "engine_alive r env" and "link_ok (rm_fabric_link r)"
    and "rm_local_node_id r \<noteq> UINT32_MAX"
  shows "\<exists>lat r' env'. remote_access r env ts addr = Some (lat, r', env')
    \<and> remote_base_latency r \<le> lat \<and> remote_frame r r' \<and> env_ok env' \<and> engine_alive r' env'
    \<and> (\<forall>l. env_perm env' l =
       (if rm_coherency_engine r \<noteq> None \<and> l = cl_align addr
        then spec_read (rm_local_node_id r) (env_perm env l) else env_perm env l))"
proof -
  obtain tr link where t: "calculate_traversal_latency (rm_fabric_link r) ts 64 = (tr, link)"
    by (cases "calculate_traversal_latency (rm_fabric_link r) ts 64")
  have ge: "fl_latency_ns (fl_config (rm_fabric_link r)) + 64 / fl_bandwidth_gbps (fl_config (rm_fabric_link r))
      \<le> tr" "fl_config link = fl_config (rm_fabric_link r)" "link_ok link"
    using traversal_ge [OF assms(3), of ts] link_channel.transmit_ok [OF assms(3), of ts] t by simp_all
  let ?x = "rm_expander r"
  define rest where "rest = me_frontend_latency ?x + me_forward_latency ?x + tr
    + (la_read (me_latency ?x) + me_response_latency ?x + calculate_congestion_delay ?x ts)"
  have base: "remote_base_latency r \<le> rest"
    using ge(1) congestion_delay_nonneg [of ?x ts] by (simp add: remote_base_latency_def rest_def Let_def)
  have fr: "remote_frame r (r\<lparr>rm_fabric_link := link\<rparr>)"
    using ge by (auto simp: remote_frame_def)
  show ?thesis
  proof (cases "rm_coherency_engine r")
    case None
    show ?thesis
      using None t base fr assms(1,2)
      by (intro exI [of _ rest] exI [of _ "r\<lparr>rm_fabric_link := link\<rparr>"] exI [of _ env])
        (simp add: remote_access_def rest_def engine_alive_def Let_def)
  next
    case (Some ptr)
    let ?req = "\<lparr>cr_addr = addr, cr_requesting_node = rm_local_node_id r, cr_requesting_head = 0,
                 cr_is_write = False, cr_timestamp = ts\<rparr>"
    obtain e where e: "fe_engine env = Some (ptr, e)"
      using assms(2) Some by (auto simp: engine_alive_def)
    have "cr_requesting_node ?req \<noteq> UINT32_MAX"
      using assms(4) by simp
    then obtain coh env' where c: "engine_read env ptr ?req = Some (coh, env')" "0 \<le> coh" "env_ok env'"
        "\<exists>e'. fe_engine env' = Some (ptr, e')"
        "\<And>l. env_perm env' l = (if l = cl_align (cr_addr ?req)
           then spec_read (cr_requesting_node ?req) (env_perm env l) else env_perm env l)"
      using engine_read_spec [OF assms(1) e] by blast
    show ?thesis
      using Some t base fr c
      by (intro exI [of _ "rest + coh"] exI [of _ "r\<lparr>rm_fabric_link := link\<rparr>"] exI [of _ env'])
        (simp add: remote_access_def rest_def engine_alive_def Let_def)
  qed
qed

section \<open>Latency of a sequence of accesses\<close>

lemma remote_frame_fields [frame_simps]:
  assumes "remote_frame r r'"
  shows "rm_expander r' = rm_expander r" "rm_local_node_id r' = rm_local_node_id r"
    "rm_coherency_engine r' = rm_coherency_engine r" "remote_base_latency r' = remote_base_latency r"
    "in_remote_range r' addr = in_remote_range r addr" "link_ok (rm_fabric_link r) \<Longrightarrow> link_ok (rm_fabric_link r')"
  using assms by (auto simp: remote_frame_def remote_base_latency_def in_remote_range_def)

lemma remote_frame_refl: "remote_frame r r"
  unfolding remote_frame_def by (rule exI [of _ "rm_fabric_link r"]) simp

lemma remote_frame_trans: "remote_frame a b \<Longrightarrow> remote_frame b c \<Longrightarrow> remote_frame a c"
  by (fastforce simp: remote_frame_def)

lemma spec_read_NoAccess: "spec_read n p m = NoAccess \<Longrightarrow> m \<noteq> n \<and> p m = NoAccess"
  by (auto simp: spec_read_def split: if_splits)

lemma remote_lines_Cons [simp]:
  "remote_lines r [] = {}"
  "remote_lines r ((ts, a) # elems) =
     (if in_remote_range r a then insert (cl_align a) (remote_lines r elems) else remote_lines r elems)"
  by (simp_all add: remote_lines_def)

lemma remote_frame_lines: "remote_frame r r' \<Longrightarrow> remote_lines r' elems = remote_lines r elems"
  by (simp add: remote_lines_def frame_simps)

lemma spec_read_keeps: "p m \<noteq> NoAccess \<or> m = n \<Longrightarrow> spec_read n p m \<noteq> NoAccess"
  by (auto simp: spec_read_def)

lemma remote_loop_spec:
  assumes "env_ok env" and "engine_alive r env" and "link_ok (rm_fabric_link r)"
    and "rm_local_node_id r \<noteq> UINT32_MAX"
    and "real count * remote_base_latency r \<le> acc"
  shows "\<exists>tot cnt r' env'. remote_latency_loop r env elems acc count = Some (tot, cnt, r', env')
    \<and> cnt = count + length (filter (\<lambda>(ts, a). in_remote_range r a) elems)
    \<and> real cnt * remote_base_latency r \<le> tot \<and> remote_frame r r' \<and> env_ok env' \<and> engine_alive r' env'
    \<and> (\<forall>l n. env_perm env l n \<noteq> NoAccess
         \<or> rm_coherency_engine r \<noteq> None \<and> n = rm_local_node_id r \<and> l \<in> remote_lines r elems
         \<longrightarrow> env_perm env' l n \<noteq> NoAccess)"
  using assms
proof (induction elems arbitrary: r env acc count)
  case Nil
  then show ?case
    by (simp add: remote_frame_refl)
next
  case (Cons el elems)
  obtain ts addr where el: "el = (ts, addr)"
    by (cases el)
  show ?case
  proof (cases "in_remote_range r addr")
    case False
    with Cons.IH [OF Cons.prems] show ?thesis
      by (simp add: el)
  next
    case True
    obtain lat r1 env1 where a: "remote_access r env ts addr = Some (lat, r1, env1)"
      "remote_base_latency r \<le> lat" "remote_frame r r1" "env_ok env1" "engine_alive r1 env1"
      "\<forall>l. env_perm env1 l =
         (if rm_coherency_engine r \<noteq> None \<and> l = cl_align addr
          then spec_read (rm_local_node_id r) (env_perm env l) else env_perm env l)"
      using remote_access_spec [OF Cons.prems(1-4), of ts addr] by fast
    note f = remote_frame_fields [OF a(3)] remote_frame_lines [OF a(3)]
    have "real (count + 1) * remote_base_latency r1 \<le> acc + lat"
      using Cons.prems(5) a(2) f(4) by (simp add: algebra_simps)
    from Cons.IH [OF a(4,5) f(6) [OF Cons.prems(3)] Cons.prems(4) [folded f(2)] this]
    obtain tot cnt r' env' where *: "remote_latency_loop r1 env1 elems (acc + lat) (count + 1)
          = Some (tot, cnt, r', env')"
        "cnt = count + 1 + length (filter (\<lambda>(ts, a). in_remote_range r a) elems)"
        "real cnt * remote_base_latency r \<le> tot" "remote_frame r1 r'" "env_ok env'" "engine_alive r' env'"
        "\<And>l n. env_perm env1 l n \<noteq> NoAccess
         \<or> rm_coherency_engine r \<noteq> None \<and> n = rm_local_node_id r \<and> l \<in> remote_lines r elems
         \<Longrightarrow> env_perm env' l n \<noteq> NoAccess"
      unfolding f(2-5,7) by blast
    have "env_perm env1 l n \<noteq> NoAccess" if "env_perm env l n \<noteq> NoAccess
        \<or> rm_coherency_engine r \<noteq> None \<and> n = rm_local_node_id r \<and> l = cl_align addr" for l n
      using that spec_read_keeps [of "env_perm env l" n "rm_local_node_id r"] a(6) by metis
    then have "env_perm env' l n \<noteq> NoAccess" if "env_perm env l n \<noteq> NoAccess
        \<or> rm_coherency_engine r \<noteq> None \<and> n = rm_local_node_id r \<and> l \<in> remote_lines r (el # elems)" for l n
      using that *(7) [of l n] True unfolding el remote_lines_Cons by (metis insert_iff)
    with *(1-3,5,6) a(1) True remote_frame_trans [OF a(3) *(4)] show ?thesis
      by (simp add: el)
  qed
qed

text \<open>
  C34. The latency of accesses to remote memory is computed, and is at least the cost of the path:
  the stages of the device, the link latency and the transfer of a line.  The computation leaves the
  coherency engine consistent and gives the local node read permission for every line it accessed.
\<close>

theorem remote_latency_covers_path:
  assumes "env_ok env" and "engine_alive r env" and "link_ok (rm_fabric_link r)"
    and "rm_local_node_id r \<noteq> UINT32_MAX" and "rm_coherency_engine r = Some ptr"
    and "(ts, addr) \<in> set elems" and "in_remote_range r addr"
  shows "\<exists>lat r' env'. remote_calculate_latency r env elems dramlatency = Some (lat, r', env')
    \<and> remote_base_latency r \<le> lat \<and> env_ok env' \<and> engine_alive r' env'
    \<and> env_perm env' (cl_align addr) (rm_local_node_id r) \<noteq> NoAccess"
proof -
  have mem: "cl_align addr \<in> remote_lines r elems"
    using assms(6,7) by (force simp: remote_lines_def)
  have zero: "real 0 * remote_base_latency r \<le> 0"
    by simp
  from remote_loop_spec [OF assms(1-4) zero, of elems]
  obtain tot cnt r' env' where l: "remote_latency_loop r env elems 0 0 = Some (tot, cnt, r', env')"
      "cnt = 0 + length (filter (\<lambda>(ts, a). in_remote_range r a) elems)"
      "real cnt * remote_base_latency r \<le> tot" "env_ok env'" "engine_alive r' env'"
      "env_perm env' (cl_align addr) (rm_local_node_id r) \<noteq> NoAccess"
    using mem assms(5) by blast
  have "0 < cnt"
    using assms(6,7) l(2) by (auto simp: filter_empty_conv)
  then have "remote_base_latency r \<le> tot / real cnt"
    using l(3) by (simp add: le_divide_eq mult.commute)
  then show ?thesis
    using assms(6) l \<open>0 < cnt\<close> by (auto simp: remote_calculate_latency_def)
qed

lemma example_env_ok: "env_ok example_env"
  by (auto simp: env_ok_def example_env_def example_logp_ok intro!: engine_inv_new)

theorem remote_latency_covers_path_witness:
  "\<exists>lat r' env'. remote_calculate_latency example_remote example_env [(5, 0x40000040), (6, 0)] 80
      = Some (lat, r', env')
    \<and> remote_base_latency example_remote \<le> lat \<and> env_ok env' \<and> engine_alive r' env'
    \<and> env_perm env' (cl_align 0x40000040) (rm_local_node_id example_remote) \<noteq> NoAccess"
  by (rule remote_latency_covers_path [where ptr = 7 and ts = 5, OF example_env_ok])
    (simp_all add: engine_alive_def example_env_def example_remote_def
      new_RemoteCXLExpander_def link_ok_def new_FabricLink_def in_remote_range_def)

section \<open>Insertion\<close>

text \<open>
  What inserting an access with a real address, directed at this expander, does: a recorded
  address is a load and a new one a store; afterwards the address is recorded exactly once, last and
  with the time of this access, and its line is shared in the shadow directory.
\<close>

theorem remote_insert_result:
  fixes r ts tid phys virt index
  defines "x \<equiv> rm_expander r" and "res \<equiv> remote_insert r ts tid phys virt index"
  assumes "pages_ok (rm_expander r)" and "index = me_id (rm_expander r)" and "phys \<noteq> 0"
  shows "fst res = (if phys \<in> oi_address ` set (me_occupation x) then 2 else 1)
    \<and> me_occupation (rm_expander (snd res)) =
        filter (\<lambda>occ. oi_address occ \<noteq> phys) (me_occupation x)
          @ [\<lparr>oi_timestamp = ts, oi_address = phys, oi_access_count = 0\<rparr>]
    \<and> pages_ok (rm_expander (snd res))
    \<and> rm_shadow_directory (snd res) = (rm_shadow_directory r)
        (cl_align phys \<mapsto> \<lparr>sh_local_state = SHARED, sh_last_access_time = ts, sh_valid = True\<rparr>)"
proof -
  have d: "distinct (map oi_address (me_occupation x))"
    and sub: "oi_address ` set (me_occupation x) \<subseteq> me_address_cache x"
    using assms(3) by (simp_all add: x_def pages_ok_def)
  have keep: "filter (\<lambda>occ. oi_address occ \<noteq> phys) (me_occupation x) = me_occupation x"
    if "phys \<notin> oi_address ` set (me_occupation x)"
    using that by (auto simp: filter_id_conv)
  have dist: "distinct (map oi_address (filter (\<lambda>occ. oi_address occ \<noteq> phys) (me_occupation x)))"
    using d by (simp add: distinct_map_filter)
  show ?thesis
  proof (cases "phys \<in> oi_address ` set (me_occupation x)")
    case True
    then have "phys \<in> me_address_cache x"
      using sub by blast
    then have "res = (2, update_shadow (r\<lparr>rm_expander := x
        \<lparr>me_last_timestamp := (if me_last_timestamp x > ts then me_last_timestamp x else ts),
         me_occupation := filter (\<lambda>occ. oi_address occ \<noteq> phys) (me_occupation x)
           @ [\<lparr>oi_timestamp = ts, oi_address = phys, oi_access_count = 0\<rparr>],
         me_counter := expander_increment Load (me_counter x)\<rparr>\<rparr>) phys SHARED ts)"
      using assms(4,5) True erase_address_Some [OF d, of phys]
      by (simp add: res_def remote_insert_def x_def Let_def)
    with True dist sub \<open>phys \<in> me_address_cache x\<close> show ?thesis
      by (auto simp: update_shadow_def pages_ok_def)
  next
    case False
    then have "res = (1, update_shadow (r\<lparr>rm_expander := x
        \<lparr>me_last_timestamp := (if me_last_timestamp x > ts then me_last_timestamp x else ts),
         me_occupation := me_occupation x
           @ [\<lparr>oi_timestamp = ts, oi_address = phys, oi_access_count = 0\<rparr>],
         me_address_cache := insert phys (me_address_cache x),
         me_counter := expander_increment Store (me_counter x)\<rparr>\<rparr>) phys SHARED ts)"
      using assms(4,5) erase_address_Some [OF d, of phys]
      by (simp add: res_def remote_insert_def x_def Let_def)
    with False d sub keep [OF False] show ?thesis
      by (simp add: update_shadow_def pages_ok_def subset_iff)
  qed
qed

theorem remote_insert_result_witness:
  "fst (remote_insert example_remote 5 7 64 0 0) = 1"
  using remote_insert_result [where r = example_remote and index = 0 and phys = 64 and ts = 5
      and tid = 7 and virt = 0]
  by (simp add: example_remote_def new_RemoteCXLExpander_def new_CXLMemExpander_def pages_ok_def)

end
