(* ===== verification/CXL_Switch.thy ===== *)
theory CXL_Switch
  imports Remote_Expander "HOL-Library.Product_Lexorder"
begin

text \<open>
  The switches of \<open>include/cxlendpoint.h\<close> and \<open>src/cxlendpoint.cpp\<close>: trees whose nodes hold pointers
  to expanders and child switches, and the recursive operations over them.

  Expanders are shared objects: the controller, its device map and every switch may point at the same
  one.  They live in a heap, a function from addresses to endpoints, and a switch holds addresses.  An
  expander is local or remote, and the virtual methods dispatch on that.  Child switches are owned by
  their parent, so the tree itself is a value.  The field \<open>timeseries_map\<close> is never used and left out.

  The lemmas show that the recursive operations visit the endpoints in the order of a flat list, that
  an insertion reaches the one endpoint with the index and no other, that collecting the accesses
  twice per level gives what one pass gives, and how many conflicts the congestion scan can find.
\<close>

section \<open>Endpoints on the heap\<close>

datatype endpoint = Local_expander CXLMemExpander | Remote_expander RemoteCXLExpander

type_synonym heap = "nat \<Rightarrow> endpoint"

record fabric =
  fb_heap :: heap
  fb_env :: fabric_env

fun base_expander :: "endpoint \<Rightarrow> CXLMemExpander" where
  "base_expander (Local_expander x) = x"
| "base_expander (Remote_expander r) = rm_expander r"

fun map_base :: "(CXLMemExpander \<Rightarrow> CXLMemExpander) \<Rightarrow> endpoint \<Rightarrow> endpoint" where
  "map_base f (Local_expander x) = Local_expander (f x)"
| "map_base f (Remote_expander r) = Remote_expander (r\<lparr>rm_expander := f (rm_expander r)\<rparr>)"

fun endpoint_insert :: "endpoint \<Rightarrow> u64 \<Rightarrow> u64 \<Rightarrow> u64 \<Rightarrow> u64 \<Rightarrow> int \<Rightarrow> int \<times> endpoint" where
  "endpoint_insert (Local_expander x) ts tid phys virt index =
     map_prod id Local_expander (expander_insert x ts tid phys virt index)"
| "endpoint_insert (Remote_expander r) ts tid phys virt index =
     map_prod id Remote_expander (remote_insert r ts tid phys virt index)"

fun endpoint_calculate_latency ::
  "endpoint \<Rightarrow> fabric_env \<Rightarrow> access list \<Rightarrow> real \<Rightarrow> (real \<times> endpoint \<times> fabric_env) option" where
  "endpoint_calculate_latency (Local_expander x) env elems dram =
     (case calculate_latency x elems dram of (lat, x') \<Rightarrow> Some (lat, Local_expander x', env))"
| "endpoint_calculate_latency (Remote_expander r) env elems dram =
     map_option (\<lambda>(lat, r', env'). (lat, Remote_expander r', env'))
       (remote_calculate_latency r env elems dram)"

fun endpoint_calculate_bandwidth :: "endpoint \<Rightarrow> access list \<Rightarrow> real" where
  "endpoint_calculate_bandwidth (Local_expander x) elems = calculate_bandwidth x elems"
| "endpoint_calculate_bandwidth (Remote_expander r) elems = remote_calculate_bandwidth r elems"

definition endpoint_id :: "endpoint \<Rightarrow> int" where
  "endpoint_id x = me_id (base_expander x)"

definition endpoint_occupation :: "endpoint \<Rightarrow> occupation_info list" where
  "endpoint_occupation x = me_occupation (base_expander x)"

definition heap_base :: "heap \<Rightarrow> nat \<Rightarrow> (CXLMemExpander \<Rightarrow> CXLMemExpander) \<Rightarrow> heap" where
  "heap_base h p f = h(p := map_base f (h p))"

section \<open>Switches\<close>

datatype CXLSwitch =
  CXLSwitch (cs_expanders: "nat list") (cs_switches: "CXLSwitch list") (cs_counter: CXLSwitchEvent)
    (cs_id: int) (cs_epoch: int) (cs_last_timestamp: u64) (cs_congestion_latency: real)

definition new_CXLSwitch :: "int \<Rightarrow> CXLSwitch" where
  "new_CXLSwitch ident = CXLSwitch [] [] new_CXLSwitchEvent ident 0 0 (2 / 100)"

fun switch_delete_entry :: "heap \<Rightarrow> CXLSwitch \<Rightarrow> u64 \<Rightarrow> u64 \<Rightarrow> heap"
  and switches_delete_entry :: "heap \<Rightarrow> CXLSwitch list \<Rightarrow> u64 \<Rightarrow> u64 \<Rightarrow> heap" where
  "switch_delete_entry h (CXLSwitch es ss c i ep ts cl) addr len =
     switches_delete_entry
       (fold (\<lambda>p h. heap_base h p (\<lambda>x. delete_entry x addr len)) es h) ss addr len"
| "switches_delete_entry h [] addr len = h"
| "switches_delete_entry h (s # ss) addr len =
     switches_delete_entry (switch_delete_entry h s addr len) ss addr len"

text \<open>The loops add to the latency \<open>lat\<close> found so far.\<close>

fun expanders_latency ::
  "fabric \<Rightarrow> nat list \<Rightarrow> access list \<Rightarrow> real \<Rightarrow> real \<Rightarrow> (real \<times> fabric) option" where
  "expanders_latency fb [] elems dram lat = Some (lat, fb)"
| "expanders_latency fb (p # ps) elems dram lat =
     (case endpoint_calculate_latency (fb_heap fb p) (fb_env fb) elems dram of
        None \<Rightarrow> None
      | Some (l, x, env) \<Rightarrow>
          expanders_latency \<lparr>fb_heap = (fb_heap fb)(p := x), fb_env = env\<rparr> ps elems dram (lat + l))"

fun switch_calculate_latency ::
  "fabric \<Rightarrow> CXLSwitch \<Rightarrow> access list \<Rightarrow> real \<Rightarrow> (real \<times> fabric) option"
  and switches_latency ::
  "fabric \<Rightarrow> CXLSwitch list \<Rightarrow> access list \<Rightarrow> real \<Rightarrow> real \<Rightarrow> (real \<times> fabric) option" where
  "switch_calculate_latency fb (CXLSwitch es ss c i ep ts cl) elems dram =
     (case expanders_latency fb es elems dram 0 of
        None \<Rightarrow> None
      | Some (lat, fb1) \<Rightarrow> switches_latency fb1 ss elems dram lat)"
| "switches_latency fb [] elems dram lat = Some (lat, fb)"
| "switches_latency fb (s # ss) elems dram lat =
     (case switch_calculate_latency fb s elems dram of
        None \<Rightarrow> None
      | Some (l, fb1) \<Rightarrow> switches_latency fb1 ss elems dram (lat + l))"

fun switch_calculate_bandwidth :: "heap \<Rightarrow> CXLSwitch \<Rightarrow> access list \<Rightarrow> real"
  and switches_bandwidth :: "heap \<Rightarrow> CXLSwitch list \<Rightarrow> access list \<Rightarrow> real \<Rightarrow> real" where
  "switch_calculate_bandwidth h (CXLSwitch es ss c i ep ts cl) elems =
     switches_bandwidth h ss elems
       (fold (\<lambda>p bw. bw + endpoint_calculate_bandwidth (h p) elems) es 0)"
| "switches_bandwidth h [] elems bw = bw"
| "switches_bandwidth h (s # ss) elems bw =
     switches_bandwidth h ss elems (bw + switch_calculate_bandwidth h s elems)"

text \<open>
  \<open>get_access\<close> first asks every child for its accesses to know how many there are, and then asks
  again to collect them.
\<close>

fun expanders_get_access :: "heap \<Rightarrow> nat list \<Rightarrow> u64 \<Rightarrow> access list \<times> heap" where
  "expanders_get_access h [] ts = ([], h)"
| "expanders_get_access h (p # ps) ts =
     (let tmp = fst (get_access (base_expander (h p)) ts);
          (rest, h1) = expanders_get_access (heap_base h p (\<lambda>x. snd (get_access x ts))) ps ts
      in (tmp @ rest, h1))"

fun switch_get_access :: "heap \<Rightarrow> CXLSwitch \<Rightarrow> u64 \<Rightarrow> access list \<times> heap"
  and switches_get_access :: "heap \<Rightarrow> CXLSwitch list \<Rightarrow> u64 \<Rightarrow> access list \<times> heap" where
  "switch_get_access h (CXLSwitch es ss c i ep t cl) ts =
     (let (_, h1) = expanders_get_access h es ts;
          (_, h2) = switches_get_access h1 ss ts;
          (res1, h3) = expanders_get_access h2 es ts;
          (res2, h4) = switches_get_access h3 ss ts
      in (res1 @ res2, h4))"
| "switches_get_access h [] ts = ([], h)"
| "switches_get_access h (s # ss) ts =
     (let (tmp, h1) = switch_get_access h s ts;
          (rest, h2) = switches_get_access h1 ss ts
      in (tmp @ rest, h2))"

definition switch_set_epoch :: "CXLSwitch \<Rightarrow> int \<Rightarrow> CXLSwitch" where
  "switch_set_epoch s epoch =
     CXLSwitch (cs_expanders s) (cs_switches s) (cs_counter s) (cs_id s) epoch (cs_last_timestamp s)
       (cs_congestion_latency s)"

text \<open>\<open>dis k\<close> are the coin flips of the \<open>k\<close>-th expander.\<close>

definition switch_free_stats :: "heap \<Rightarrow> CXLSwitch \<Rightarrow> (nat \<Rightarrow> nat \<Rightarrow> bool) \<Rightarrow> heap" where
  "switch_free_stats h s dis =
     fold (\<lambda>(k, p) h. heap_base h p (\<lambda>x. free_stats x (dis k))) (enumerate 0 (cs_expanders s)) h"

section \<open>Insertion\<close>

fun expanders_insert ::
  "heap \<Rightarrow> nat list \<Rightarrow> u64 \<Rightarrow> u64 \<Rightarrow> u64 \<Rightarrow> u64 \<Rightarrow> int \<Rightarrow> int \<times> heap" where
  "expanders_insert h [] ts tid phys virt index = (0, h)"
| "expanders_insert h (p # ps) ts tid phys virt index =
     (case endpoint_insert (h p) ts tid phys virt index of
        (ret, x) \<Rightarrow>
          if ret = 1 \<or> ret = 2 then (ret, h(p := x))
          else expanders_insert (h(p := x)) ps ts tid phys virt index)"

fun count_insert :: "int \<Rightarrow> CXLSwitchEvent \<Rightarrow> CXLSwitchEvent" where
  "count_insert ret c =
     (if ret = 1 then switch_increment Store c else if ret = 2 then switch_increment Load c else c)"

fun switch_insert ::
  "heap \<Rightarrow> CXLSwitch \<Rightarrow> u64 \<Rightarrow> u64 \<Rightarrow> u64 \<Rightarrow> u64 \<Rightarrow> int \<Rightarrow> int \<times> CXLSwitch \<times> heap"
  and switches_insert ::
  "heap \<Rightarrow> CXLSwitch list \<Rightarrow> u64 \<Rightarrow> u64 \<Rightarrow> u64 \<Rightarrow> u64 \<Rightarrow> int \<Rightarrow> int \<times> CXLSwitch list \<times> heap" where
  "switch_insert h (CXLSwitch es ss c i ep t cl) ts tid phys virt index =
     (case expanders_insert h es ts tid phys virt index of
        (ret, h1) \<Rightarrow>
          if ret = 1 \<or> ret = 2 then (ret, CXLSwitch es ss (count_insert ret c) i ep t cl, h1)
          else
            (case switches_insert h1 ss ts tid phys virt index of
               (ret2, ss2, h2) \<Rightarrow> (ret2, CXLSwitch es ss2 (count_insert ret2 c) i ep t cl, h2)))"
| "switches_insert h [] ts tid phys virt index = (0, [], h)"
| "switches_insert h (s # ss) ts tid phys virt index =
     (case switch_insert h s ts tid phys virt index of
        (ret, s1, h1) \<Rightarrow>
          if ret = 1 \<or> ret = 2 then (ret, s1 # ss, h1)
          else
            (case switches_insert h1 ss ts tid phys virt index of
               (ret2, ss2, h2) \<Rightarrow> (ret2, s1 # ss2, h2)))"

section \<open>Congestion\<close>

text \<open>
  The scan for accesses close in time.  \<open>it\<close> is the position of the iterator; the iterator \<open>end\<close> is
  always at the last element.  A conflict swaps the element at \<open>it\<close> with the last one and drops it.
\<close>

function conflict_loop :: "u64 list \<Rightarrow> nat \<Rightarrow> nat \<Rightarrow> nat \<times> u64 list" where
  "conflict_loop xs it conflicts =
     (if it + 1 < length xs
      then (if xs ! (it + 1) - xs ! it < 2000
            then conflict_loop (butlast (xs[it := last xs])) it (conflicts + 1)
            else conflict_loop xs (it + 1) conflicts)
      else (conflicts, xs))"
  by pat_completeness auto

termination conflict_loop
  by (relation "measure (\<lambda>(xs, it, _). length xs - it)") auto

text \<open>Adjacent accesses to one address: the latency added, and the conflicts counted.\<close>

fun pair_conflicts :: "real \<Rightarrow> (u64 \<times> bool) list \<Rightarrow> real \<times> nat" where
  "pair_conflicts cl (current # next # rest) =
     (let (lat, n) = pair_conflicts cl (next # rest)
      in if fst next - fst current < 2000
         then (if snd current \<or> snd next
               then ((if snd current \<and> snd next then cl * 2 else cl * (3 / 2)) + lat, n + 1)
               else (cl * (1 / 2) + lat, n))
         else (lat, n))"
| "pair_conflicts cl _ = (0, 0)"

definition window_start :: "CXLSwitch \<Rightarrow> u64" where
  "window_start s = cs_last_timestamp s - word_of_int (cs_epoch s * 1000)"

definition recent_pages :: "heap \<Rightarrow> CXLSwitch \<Rightarrow> occupation_info list" where
  "recent_pages h s =
     concat (map (\<lambda>p. filter (\<lambda>o1. oi_timestamp o1 > window_start s) (endpoint_occupation (h p)))
       (cs_expanders s))"

definition page_accesses :: "occupation_info list \<Rightarrow> u64 \<Rightarrow> (u64 \<times> bool) list" where
  "page_accesses pages address =
     sort (map (\<lambda>o1. (oi_timestamp o1, oi_access_count o1 = 0))
       (filter (\<lambda>o1. oi_address o1 = address) pages))"

text \<open>
  The addresses are visited in some order of a hash map; the sums do not depend on it, and the order
  of the last occurrence is used here.
\<close>

definition page_conflicts :: "real \<Rightarrow> occupation_info list \<Rightarrow> real \<times> nat" where
  "page_conflicts cl pages =
     (let results = map (\<lambda>a. pair_conflicts cl (page_accesses pages a)) (remdups (map oi_address pages))
      in (sum_list (map fst results), sum_list (map snd results)))"

definition own_congestion ::
  "heap \<Rightarrow> CXLSwitch \<Rightarrow> real \<Rightarrow> u64 list \<Rightarrow> real \<times> u64 list \<times> nat" where
  "own_congestion h s lat con =
     (let pages = recent_pages h s;
          congestion = con @ map oi_timestamp pages;
          (n, congestion') = conflict_loop (sort congestion) 0 0;
          (lat2, n2) = page_conflicts (cs_congestion_latency s) pages
      in (lat + real n * cs_congestion_latency s + lat2, congestion', n + n2))"

fun switch_calculate_congestion :: "heap \<Rightarrow> CXLSwitch \<Rightarrow> real \<times> u64 list \<times> CXLSwitch"
  and switches_congestion ::
  "heap \<Rightarrow> CXLSwitch list \<Rightarrow> real \<Rightarrow> u64 list \<Rightarrow> real \<times> u64 list \<times> CXLSwitch list" where
  "switch_calculate_congestion h (CXLSwitch es ss c i ep ts cl) =
     (case switches_congestion h ss 0 [] of
        (lat, con, ss') \<Rightarrow>
          (case own_congestion h (CXLSwitch es ss c i ep ts cl) lat con of
             (lat', con', n) \<Rightarrow>
               (lat', con', CXLSwitch es ss' ((switch_increment Conflict ^^ n) c) i ep ts cl)))"
| "switches_congestion h [] lat con = (lat, con, [])"
| "switches_congestion h (s # ss) lat con =
     (case switch_calculate_congestion h s of
        (l, c, s') \<Rightarrow>
          (case switches_congestion h ss (lat + l) (con @ c) of
             (lat', con', ss') \<Rightarrow> (lat', con', s' # ss')))"

section \<open>Latency in the reorder buffer\<close>

abbreviation ROB_SIZE :: int where "ROB_SIZE \<equiv> 512"

record rob_info =
  ri_m_count :: "int \<rightharpoonup> int"
  ri_llcm_base :: int
  ri_llcm_count :: int
  ri_ins_count :: int

record thread_info =
  ti_rob :: rob_info
  ti_llcm_type :: "int list"
  ti_llcm_type_rob :: "int list"

definition new_thread_info :: thread_info where
  "new_thread_info =
     \<lparr>ti_rob = \<lparr>ri_m_count = Map.empty, ri_llcm_base = 0, ri_llcm_count = 0, ri_ins_count = 0\<rparr>,
      ti_llcm_type = [], ti_llcm_type_rob = []\<rparr>"

definition remote_ratio :: "rob_info \<Rightarrow> real" where
  "remote_ratio rob =
     (case (ri_m_count rob 0, ri_m_count rob 1) of
        (Some local_count, Some remote_count) \<Rightarrow>
          if local_count + remote_count > 0
          then of_int remote_count / of_int (local_count + remote_count) else 0
      | _ \<Rightarrow> 0)"

text \<open>The latency of one access; it depends on the endpoint and the buffer, not on the access.\<close>

definition rob_access_latency :: "CXLMemExpander \<Rightarrow> rob_info \<Rightarrow> real \<Rightarrow> real" where
  "rob_access_latency e rob dramlatency =
     (let base_latency = (la_read (me_latency e) + la_write (me_latency e)) / 2;
          llc_miss_ratio = (if ri_ins_count rob > 0
            then of_int (ri_llcm_count rob) / of_int (ri_ins_count rob) else 0);
          penalised = (if of_int (ri_ins_count rob) \<ge> of_int ROB_SIZE * (8 / 10 :: real)
            then base_latency * (1 + llc_miss_ratio * (1 / 2)) else base_latency);
          shared = (case ri_m_count rob 1 of
              Some n \<Rightarrow> if n > 0 then penalised * (1 + remote_ratio rob * (3 / 10)) else penalised
            | None \<Rightarrow> penalised)
      in shared + dramlatency * (remote_ratio rob + 1 / 10))"

fun rob_loop ::
  "CXLMemExpander \<Rightarrow> access list \<Rightarrow> rob_info \<Rightarrow> real \<Rightarrow> real \<Rightarrow> nat \<Rightarrow> real \<times> nat \<times> CXLMemExpander" where
  "rob_loop e [] rob dram total_latency access_count = (total_latency, access_count, e)"
| "rob_loop e ((ts, addr) # rest) rob dram total_latency access_count =
     (case is_address_local e addr of
        (is_endpoint_access, e1) \<Rightarrow>
          if is_endpoint_access then rob_loop e1 rest rob dram total_latency access_count
          else rob_loop e1 rest rob dram (total_latency + rob_access_latency e1 rob dram)
                 (access_count + 1))"

definition get_endpoint_rob_latency ::
  "CXLMemExpander \<Rightarrow> access list \<Rightarrow> thread_info \<Rightarrow> real \<Rightarrow> real \<times> CXLMemExpander" where
  "get_endpoint_rob_latency e accesses t_info dramlatency =
     (case rob_loop (update_address_cache e) accesses (ti_rob t_info) dramlatency 0 0 of
        (total_latency, access_count, e1) \<Rightarrow>
          (if access_count > 0 then total_latency / real access_count else 0, e1))"

section \<open>Specification\<close>

text \<open>The endpoints under a switch, in the order the operations visit them.\<close>

fun switch_endpoints :: "CXLSwitch \<Rightarrow> nat list"
  and switches_endpoints :: "CXLSwitch list \<Rightarrow> nat list" where
  "switch_endpoints (CXLSwitch es ss c i ep ts cl) = es @ switches_endpoints ss"
| "switches_endpoints [] = []"
| "switches_endpoints (s # ss) = switch_endpoints s @ switches_endpoints ss"

definition endpoint_accesses :: "endpoint \<Rightarrow> u64 \<Rightarrow> access list" where
  "endpoint_accesses x ts = fst (get_access (base_expander x) ts)"

definition endpoint_accessed :: "endpoint \<Rightarrow> u64 \<Rightarrow> endpoint" where
  "endpoint_accessed x ts = map_base (\<lambda>x. snd (get_access x ts)) x"

fun congestion_nonneg :: "CXLSwitch \<Rightarrow> bool"
  and congestions_nonneg :: "CXLSwitch list \<Rightarrow> bool" where
  "congestion_nonneg (CXLSwitch es ss c i ep ts cl) \<longleftrightarrow> 0 \<le> cl \<and> congestions_nonneg ss"
| "congestions_nonneg [] \<longleftrightarrow> True"
| "congestions_nonneg (s # ss) \<longleftrightarrow> congestion_nonneg s \<and> congestions_nonneg ss"

definition spaced :: "u64 list \<Rightarrow> bool" where
  "spaced xs \<longleftrightarrow> (\<forall>i. i + 1 < length xs \<longrightarrow> 2000 \<le> xs ! (i + 1) - xs ! i)"

definition example_switch :: CXLSwitch where
  "example_switch = CXLSwitch [0, 1] [CXLSwitch [2] [] new_CXLSwitchEvent 1 0 0 (2 / 100)]
     new_CXLSwitchEvent 0 0 0 (2 / 100)"

definition example_heap :: heap where
  "example_heap p = Local_expander (new_CXLMemExpander 50 50 100 150 (int p) 1024)"

declare conflict_loop.simps [simp del]

section \<open>Latency and accesses of the flat list of endpoints\<close>

lemma expanders_latency_append:
  "expanders_latency fb (ps @ qs) elems dram lat =
     (case expanders_latency fb ps elems dram lat of
        None \<Rightarrow> None | Some (l, fb1) \<Rightarrow> expanders_latency fb1 qs elems dram l)"
  by (induction ps arbitrary: fb lat) (auto split: option.splits)

lemma expanders_latency_shift:
  "expanders_latency fb ps elems dram (a + b) =
     map_option (\<lambda>(l, fb1). (a + l, fb1)) (expanders_latency fb ps elems dram b)"
  by (induction ps arbitrary: fb b) (auto simp: add.assoc split: option.splits)

lemma switch_latency_flat:
  "switch_calculate_latency fb s elems dram = expanders_latency fb (switch_endpoints s) elems dram 0"
  "switches_latency fb ss elems dram lat = expanders_latency fb (switches_endpoints ss) elems dram lat"
proof (induction fb s elems dram and fb ss elems dram lat
    rule: switch_calculate_latency_switches_latency.induct)
  case (3 fb s ss elems dram lat)
  have "expanders_latency fb (switch_endpoints s) elems dram lat
      = map_option (\<lambda>(l, fb1). (lat + l, fb1)) (expanders_latency fb (switch_endpoints s) elems dram 0)"
    using expanders_latency_shift [of fb "switch_endpoints s" elems dram lat 0] by simp
  with 3 show ?case
    by (auto simp: expanders_latency_append split: option.splits)
qed (auto simp: expanders_latency_append split: option.splits)

lemma base_map_base [simp]: "base_expander (map_base f x) = f (base_expander x)"
  by (cases x) simp_all

lemma map_base_map_base [simp]: "map_base f (map_base g x) = map_base (f \<circ> g) x"
  by (cases x) simp_all

lemma endpoint_accessed_again [simp]:
  "endpoint_accesses (endpoint_accessed x ts) ts = endpoint_accesses x ts"
  "endpoint_accessed (endpoint_accessed x ts) ts = endpoint_accessed x ts"
  by (cases x; simp add: endpoint_accesses_def endpoint_accessed_def get_access_def)+

lemma endpoint_accesses_if [simp]:
  "endpoint_accesses (if b then endpoint_accessed x ts else x) ts = endpoint_accesses x ts"
  by simp

lemma expanders_get_access_eq:
  "expanders_get_access h ps ts =
     (concat (map (\<lambda>p. endpoint_accesses (h p) ts) ps),
      \<lambda>q. if q \<in> set ps then endpoint_accessed (h q) ts else h q)"
proof (induction ps arbitrary: h)
  case (Cons p ps)
  let ?h1 = "\<lambda>q. if q = p then endpoint_accessed (h q) ts else h q"
  have h1: "heap_base h p (\<lambda>x. snd (get_access x ts)) = ?h1"
    by (auto simp: heap_base_def endpoint_accessed_def)
  have "endpoint_accesses (?h1 q) ts = endpoint_accesses (h q) ts" for q
    by simp
  then have "concat (map (\<lambda>p. endpoint_accesses (?h1 p) ts) ps)
      = concat (map (\<lambda>p. endpoint_accesses (h p) ts) ps)"
    by presburger
  then show ?case
    unfolding expanders_get_access.simps h1 Cons.IH [of ?h1]
    by (auto simp: endpoint_accesses_def)
qed auto

lemma switches_get_access_flat:
  assumes "\<And>s h. s \<in> set ss \<Longrightarrow> switch_get_access h s ts = expanders_get_access h (switch_endpoints s) ts"
  shows "switches_get_access h ss ts = expanders_get_access h (switches_endpoints ss) ts"
  using assms by (induction ss arbitrary: h) (auto simp: expanders_get_access_eq)

lemma switch_get_access_flat:
  "switch_get_access h s ts = expanders_get_access h (switch_endpoints s) ts"
proof (induction s arbitrary: h)
  case (CXLSwitch es ss c i ep t cl)
  note flat = switches_get_access_flat [of ss, OF CXLSwitch.IH]
  show ?case
    by (auto simp: flat expanders_get_access_eq)
qed

section \<open>Insertion\<close>

lemma expanders_insert_append:
  "expanders_insert h (ps @ qs) ts tid phys virt index =
     (case expanders_insert h ps ts tid phys virt index of
        (ret, h1) \<Rightarrow> if ret = 1 \<or> ret = 2 then (ret, h1)
                     else expanders_insert h1 qs ts tid phys virt index)"
  by (induction ps arbitrary: h) (auto split: prod.splits)

lemma expanders_insert_ret: "fst (expanders_insert h ps ts tid phys virt index) \<in> {0, 1, 2}"
  by (induction ps arbitrary: h) (auto split: prod.splits)

lemma switches_insert_flat:
  assumes "\<And>s h. s \<in> set ss \<Longrightarrow> map_prod id snd (switch_insert h s ts tid phys virt index)
      = expanders_insert h (switch_endpoints s) ts tid phys virt index"
  shows "map_prod id snd (switches_insert h ss ts tid phys virt index)
      = expanders_insert h (switches_endpoints ss) ts tid phys virt index"
  using assms
proof (induction ss arbitrary: h)
  case (Cons s ss)
  obtain ret s1 h1 where s: "switch_insert h s ts tid phys virt index = (ret, s1, h1)"
    by (metis prod_cases3)
  then have "expanders_insert h (switch_endpoints s) ts tid phys virt index = (ret, h1)"
    using Cons.prems [of s h] by simp
  with s Cons.IH [of h1] Cons.prems show ?case
    by (auto simp: expanders_insert_append split: prod.splits)
qed simp

text \<open>An insertion into a tree is an insertion into the flat list of its endpoints.\<close>

lemma switch_insert_flat:
  "map_prod id snd (switch_insert h s ts tid phys virt index)
     = expanders_insert h (switch_endpoints s) ts tid phys virt index"
proof (induction s arbitrary: h)
  case (CXLSwitch es ss c i ep t cl)
  obtain ret h1 where e: "expanders_insert h es ts tid phys virt index = (ret, h1)"
    by (cases "expanders_insert h es ts tid phys virt index")
  have "map_prod id snd (switches_insert h1 ss ts tid phys virt index)
      = expanders_insert h1 (switches_endpoints ss) ts tid phys virt index"
    by (rule switches_insert_flat) (rule CXLSwitch.IH)
  with e show ?case
    by (auto simp: expanders_insert_append split: prod.splits)
qed

lemma switch_insert_counts:
  "cs_counter (fst (snd (switch_insert h s ts tid phys virt index))) =
     count_insert (fst (switch_insert h s ts tid phys virt index)) (cs_counter s)"
  by (cases s) (auto split: prod.splits)

lemma endpoint_insert_other: "index \<noteq> endpoint_id x \<Longrightarrow> endpoint_insert x ts tid phys virt index = (0, x)"
  by (cases x) (simp_all add: endpoint_id_def expander_insert_def remote_insert_def Let_def)

lemma endpoint_insert_ret: "fst (endpoint_insert x ts tid phys virt index) \<in> {0, 1, 2}"
  by (cases x) (auto simp: expander_insert_def insert_page_def remote_insert_def Let_def split: option.splits)

lemma expanders_insert_other:
  assumes "\<forall>p \<in> set ps. endpoint_id (h p) \<noteq> index"
  shows "expanders_insert h ps ts tid phys virt index = (0, h)"
  using assms by (induction ps) (auto simp: endpoint_insert_other fun_upd_idem)

lemma expanders_insert_unique:
  assumes "distinct ps" and "inj_on (\<lambda>p. endpoint_id (h p)) (set ps)" and "p \<in> set ps"
    and "endpoint_id (h p) = index"
  shows "expanders_insert h ps ts tid phys virt index =
     (fst (endpoint_insert (h p) ts tid phys virt index),
      h(p := snd (endpoint_insert (h p) ts tid phys virt index)))"
proof -
  obtain qs rs where ps: "ps = qs @ p # rs"
    using assms(3) by (meson split_list)
  have other: "\<forall>q \<in> set qs \<union> set rs. endpoint_id (h q) \<noteq> index"
    using assms ps by (auto simp: inj_on_def)
  let ?r = "endpoint_insert (h p) ts tid phys virt index"
  have qs: "expanders_insert h qs ts tid phys virt index = (0, h)"
    using other by (intro expanders_insert_other) auto
  have "p \<notin> set rs"
    using assms(1) ps by simp
  then have rs: "expanders_insert (h(p := snd ?r)) rs ts tid phys virt index = (0, h(p := snd ?r))"
    using other by (intro expanders_insert_other) auto
  show ?thesis
    using endpoint_insert_ret [of "h p" ts tid phys virt index] rs
    by (auto simp: ps expanders_insert_append qs split: prod.splits)
qed

text \<open>
  C23. An insertion into a switch reaches the endpoint with the given index, wherever it is in the
  tree, and no other: when the identifiers are unique, it returns what that endpoint returns, changes
  only that endpoint, and the switch counts a load or a store accordingly.
\<close>

theorem switch_insert_routes:
  assumes "distinct (switch_endpoints s)" and "inj_on (\<lambda>p. endpoint_id (h p)) (set (switch_endpoints s))"
    and "p \<in> set (switch_endpoints s)" and "endpoint_id (h p) = index"
  shows "\<exists>ret s'. switch_insert h s ts tid phys virt index =
      (ret, s', h(p := snd (endpoint_insert (h p) ts tid phys virt index)))
    \<and> ret = fst (endpoint_insert (h p) ts tid phys virt index) \<and> ret \<in> {0, 1, 2}
    \<and> cs_counter s' = count_insert ret (cs_counter s)"
proof -
  obtain ret s' h' where r: "switch_insert h s ts tid phys virt index = (ret, s', h')"
    by (metis prod_cases3)
  with switch_insert_flat [of h s ts tid phys virt index] expanders_insert_unique [OF assms]
  have "ret = fst (endpoint_insert (h p) ts tid phys virt index)"
    "h' = h(p := snd (endpoint_insert (h p) ts tid phys virt index))"
    by simp_all
  with r show ?thesis
    using switch_insert_counts [of h s ts tid phys virt index]
      endpoint_insert_ret [of "h p" ts tid phys virt index] by simp
qed

theorem switch_insert_routes_witness:
  "\<exists>ret s'. switch_insert example_heap example_switch 5 7 64 64 2 =
      (ret, s', example_heap(2 := snd (endpoint_insert (example_heap 2) 5 7 64 64 2)))
    \<and> ret = fst (endpoint_insert (example_heap 2) 5 7 64 64 2) \<and> ret \<in> {0, 1, 2}
    \<and> cs_counter s' = count_insert ret (cs_counter example_switch)"
  by (rule switch_insert_routes)
    (simp_all add: example_switch_def example_heap_def endpoint_id_def new_CXLMemExpander_def inj_on_def)

text \<open>
  C38. Asking every child twice for its accesses is harmless: the accesses of a tree are those of its
  endpoints in the order of a flat list, and every endpoint's counters are recorded once.
\<close>

theorem switch_get_access_once:
  "switch_get_access h s ts =
     (concat (map (\<lambda>p. fst (get_access (base_expander (h p)) ts)) (switch_endpoints s)),
      \<lambda>q. if q \<in> set (switch_endpoints s) then map_base (\<lambda>x. snd (get_access x ts)) (h q) else h q)"
  unfolding switch_get_access_flat expanders_get_access_eq endpoint_accesses_def endpoint_accessed_def ..

section \<open>Congestion\<close>

lemma conflict_loop_cases:
  "\<not> it + 1 < length xs \<Longrightarrow> conflict_loop xs it conflicts = (conflicts, xs)"
  "it + 1 < length xs \<Longrightarrow> xs ! (it + 1) - xs ! it < 2000 \<Longrightarrow>
     conflict_loop xs it conflicts = conflict_loop (butlast (xs[it := last xs])) it (conflicts + 1)"
  "it + 1 < length xs \<Longrightarrow> \<not> xs ! (it + 1) - xs ! it < 2000 \<Longrightarrow>
     conflict_loop xs it conflicts = conflict_loop xs (it + 1) conflicts"
  by (subst conflict_loop.simps; simp)+

lemma conflict_loop_induct [case_names stop close far]:
  fixes P :: "u64 list \<Rightarrow> nat \<Rightarrow> nat \<Rightarrow> bool"
  assumes "\<And>xs it conflicts. \<not> it + 1 < length xs \<Longrightarrow> P xs it conflicts"
    and "\<And>xs it conflicts. it + 1 < length xs \<Longrightarrow> xs ! (it + 1) - xs ! it < 2000 \<Longrightarrow>
      P (butlast (xs[it := last xs])) it (conflicts + 1) \<Longrightarrow> P xs it conflicts"
    and "\<And>xs it conflicts. it + 1 < length xs \<Longrightarrow> \<not> xs ! (it + 1) - xs ! it < 2000 \<Longrightarrow>
      P xs (it + 1) conflicts \<Longrightarrow> P xs it conflicts"
  shows "P xs it conflicts"
  by (induction xs it conflicts rule: conflict_loop.induct) (use assms in metis)

lemma conflict_loop_mono: "conflicts \<le> fst (conflict_loop xs it conflicts)"
proof (induction xs it conflicts rule: conflict_loop_induct)
  case (close xs it conflicts)
  then show ?case
    by (simp add: conflict_loop_cases(2) [OF close(1,2)])
qed (simp_all only: conflict_loop_cases fst_conv order_refl not_False_eq_True)

lemma conflict_loop_length:
  "fst (conflict_loop xs it conflicts) + length (snd (conflict_loop xs it conflicts))
     = conflicts + length xs"
proof (induction xs it conflicts rule: conflict_loop_induct)
  case (close xs it conflicts)
  then show ?case
    by (simp add: conflict_loop_cases(2) [OF close(1,2)])
qed (simp_all only: conflict_loop_cases fst_conv snd_conv not_False_eq_True)

lemma conflict_loop_nonempty: "xs \<noteq> [] \<Longrightarrow> snd (conflict_loop xs it conflicts) \<noteq> []"
proof (induction xs it conflicts rule: conflict_loop_induct)
  case (close xs it conflicts)
  have "length (butlast (xs[it := last xs])) > 0"
    using close(1) by simp
  then have "butlast (xs[it := last xs]) \<noteq> []"
    by (rule length_greater_0_conv [THEN iffD1])
  with close(3) show ?case
    by (simp add: conflict_loop_cases(2) [OF close(1,2)])
qed (simp_all only: conflict_loop_cases snd_conv not_False_eq_True)

lemma conflict_loop_none:
  "fst (conflict_loop xs it conflicts) = conflicts \<longleftrightarrow>
     (\<forall>i \<ge> it. i + 1 < length xs \<longrightarrow> \<not> xs ! (i + 1) - xs ! i < 2000)"
proof (induction xs it conflicts rule: conflict_loop_induct)
  case (stop xs it conflicts)
  then show ?case
    unfolding conflict_loop_cases(1) [OF stop] by auto
next
  case (close xs it conflicts)
  have "conflicts + 1 \<le> fst (conflict_loop (butlast (xs[it := last xs])) it (conflicts + 1))"
    by (rule conflict_loop_mono)
  then have "fst (conflict_loop xs it conflicts) \<noteq> conflicts"
    unfolding conflict_loop_cases(2) [OF close(1,2)] by linarith
  with close(1,2) show ?case
    by blast
next
  case (far xs it conflicts)
  have "(\<forall>i \<ge> it. i + 1 < length xs \<longrightarrow> \<not> xs ! (i + 1) - xs ! i < 2000) \<longleftrightarrow>
      (\<forall>i \<ge> it + 1. i + 1 < length xs \<longrightarrow> \<not> xs ! (i + 1) - xs ! i < 2000)"
    using far(2) by (metis Suc_eq_plus1 Suc_leD le_antisym not_less_eq_eq)
  with far(3) show ?case
    unfolding conflict_loop_cases(3) [OF far(1,2)] by simp
qed

text \<open>
  What the congestion scan of a switch counts: every conflict drops one timestamp, at least one
  timestamp is kept, and there is no conflict if and only if the sorted timestamps are at least 2000
  apart.
\<close>

theorem conflict_scan:
  fixes xs :: "u64 list"
  defines "r \<equiv> conflict_loop (sort xs) 0 0"
  assumes "xs \<noteq> []"
  shows "fst r + length (snd r) = length xs \<and> fst r < length xs
    \<and> (fst r = 0 \<longleftrightarrow> spaced (sort xs))"
proof -
  have "sort xs \<noteq> []"
    using assms(2) by (metis length_0_conv length_sort)
  then have "snd r \<noteq> []"
    unfolding r_def by (rule conflict_loop_nonempty)
  moreover have "fst r + length (snd r) = length xs"
    unfolding r_def using conflict_loop_length [of "sort xs" 0 0] by simp
  moreover have "fst r = 0 \<longleftrightarrow> spaced (sort xs)"
    unfolding r_def conflict_loop_none spaced_def by (simp add: not_less)
  ultimately show ?thesis
    by (metis length_greater_0_conv less_add_same_cancel1)
qed

theorem conflict_scan_witness:
  "fst (conflict_loop (sort [5000, 10]) 0 0) = 0"
  using conflict_scan [of "[5000, 10]"] by (simp add: spaced_def less_Suc_eq)

text \<open>
  The scan swaps the last timestamp to the front, which breaks the order it relies on: of four
  accesses at consecutive times it counts two conflicts instead of three.
\<close>

lemma conflict_scan_undercounts: "fst (conflict_loop (sort [10, 11, 12, 13]) 0 0) = 2"
  by (simp add: conflict_loop.simps)

lemma pair_conflicts_nonneg: "0 \<le> cl \<Longrightarrow> 0 \<le> fst (pair_conflicts cl xs)"
  by (induction cl xs rule: pair_conflicts.induct) (auto simp: split_beta Let_def)

lemma own_congestion_nonneg:
  "0 \<le> cs_congestion_latency s \<Longrightarrow> 0 \<le> lat \<Longrightarrow> 0 \<le> fst (own_congestion h s lat con)"
  by (auto simp: own_congestion_def page_conflicts_def Let_def split_beta comp_def
      intro!: add_nonneg_nonneg sum_list_nonneg pair_conflicts_nonneg)

lemma switches_congestion_nonneg:
  assumes "\<And>s. s \<in> set ss \<Longrightarrow> congestion_nonneg s \<Longrightarrow> 0 \<le> fst (switch_calculate_congestion h s)"
    and "congestions_nonneg ss" and "0 \<le> lat"
  shows "0 \<le> fst (switches_congestion h ss lat con)"
  using assms by (induction ss arbitrary: lat con) (force simp: split_beta split: prod.splits)+

lemma switch_congestion_nonneg: "congestion_nonneg s \<Longrightarrow> 0 \<le> fst (switch_calculate_congestion h s)"
proof (induction s)
  case (CXLSwitch es ss c i ep t cl)
  have "0 \<le> fst (switches_congestion h ss 0 [])"
    using CXLSwitch by (intro switches_congestion_nonneg) auto
  with CXLSwitch.prems own_congestion_nonneg [of "CXLSwitch es ss c i ep t cl"
      "fst (switches_congestion h ss 0 [])" h] show ?case
    by (auto split: prod.splits simp: split_beta)
qed

section \<open>Reorder buffer\<close>

text \<open>
  The reorder-buffer latency skips the accesses that belong to the endpoint, the opposite of what it
  announces; and since the address ranges of an endpoint are never built, none does.  So every
  endpoint charges every access, whatever its address.
\<close>

lemma rob_loop_blind:
  assumes "me_cache_valid e" and "me_address_ranges e = []"
  shows "rob_loop e accesses rob dram tot n =
     (tot + real (length accesses) * rob_access_latency e rob dram, n + length accesses, e)"
proof -
  have "is_address_local e a = (False, e)" for a
    using assms by (simp add: is_address_local_def in_ranges_def)
  then show ?thesis
    by (induction accesses arbitrary: tot n) (auto simp: algebra_simps)
qed

lemma rob_latency_blind:
  assumes "expander_inv e" and "accesses \<noteq> []"
  shows "fst (get_endpoint_rob_latency e accesses t_info dram) = rob_access_latency e (ti_rob t_info) dram"
proof -
  have "me_cache_valid (update_address_cache e)" "me_address_ranges (update_address_cache e) = []"
    "rob_access_latency (update_address_cache e) = rob_access_latency e"
    using assms(1) by (auto simp: update_address_cache_def expander_inv_def rob_access_latency_def fun_eq_iff)
  then show ?thesis
    using assms(2) by (simp add: get_endpoint_rob_latency_def rob_loop_blind)
qed

end
