(* ===== verification/Policies.thy ===== *)
theory Policies
  imports CXL_Switch Paging_Policy HDM_Decoder MHSLD_Device
begin

text \<open>
  The controller's state (\<open>include/cxlcontroller.h\<close>) and the policies that work on it
  (\<open>include/policy.h\<close>, \<open>src/policy.cpp\<close>): where a page is allocated, which pages migrate, and what is
  cached and invalidated.  The operations of the controller itself are in \<open>CXL_Controller\<close>.

  A policy object is its data; the class hierarchy is a datatype per kind of policy, and a null
  pointer is \<^const>\<open>None\<close>.  The hash maps a policy iterates over are kept in ascending order of their
  keys; C++ leaves the order open, and no lemma depends on it.  Expanders are heap addresses, as in
  \<open>CXL_Switch\<close>.  Reading past the end of a vector and a loop that does not end are \<^const>\<open>None\<close>.

  The lemmas show that the allocation policies return an expander with room or stay local, when the
  interleaving policy fails to return, that the pages a policy selects are those over its thresholds, and
  that no policy's migration list ever reaches the controller.
\<close>

section \<open>Data\<close>

record lbr =
  lb_from :: u64
  lb_to :: u64
  lb_flags :: u64

record InterleavePolicy =
  ip_last_remote :: int
  ip_all_size :: int
  ip_percentage :: "int list"

record NUMAPolicy =
  np_latency_scores :: "real list"

datatype AllocationPolicy =
    AllocationPolicy_base
  | Interleave InterleavePolicy
  | NUMA NUMAPolicy

type_synonym counts = "(u64 \<times> u64) list"

record HeatAwareMigrationPolicy =
  hm_access_count :: counts
  hm_hot_threshold :: u64

record FrequencyBasedMigrationPolicy =
  fm_access_count :: counts
  fm_hot_threshold :: u64
  fm_cold_threshold :: u64
  fm_last_cleanup :: u64
  fm_cleanup_interval :: u64

record LoadBalancingMigrationPolicy =
  lb_imbalance_threshold :: real
  lb_migration_interval :: u64
  lb_last_migration :: u64

record LocalityBasedMigrationPolicy =
  lo_page_access_pattern :: "(u64 \<times> u64 list) list"
  lo_pattern_threshold :: u64
  lo_page_size :: u64

record LifetimeBasedMigrationPolicy =
  li_lifetime_threshold :: u64

datatype MigrationPolicy =
    MigrationPolicy_base
  | HeatAware HeatAwareMigrationPolicy
  | FrequencyMigration FrequencyBasedMigrationPolicy
  | LoadBalancing LoadBalancingMigrationPolicy
  | LocalityBased LocalityBasedMigrationPolicy
  | LifetimeBased LifetimeBasedMigrationPolicy
  | HybridMigration "MigrationPolicy list"

record FrequencyBasedInvalidationPolicy =
  fi_access_count :: counts
  fi_access_threshold :: u64
  fi_last_cleanup :: u64
  fi_cleanup_interval :: u64

datatype CachingPolicy =
    CachingPolicy_base
  | FIFO
  | FrequencyInvalidation FrequencyBasedInvalidationPolicy

text \<open>
  The controller.  \<open>ct_switch\<close> is its base class, the root of the tree; \<open>ct_occupation\<close> is a
  \<open>std::map\<close>; the coherency engine has an identity, which the pointers of remote expanders hold;
  \<open>ct_request_counter\<close> is the static counter of \<open>insert\<close>; \<open>ct_next_ptr\<close> and \<open>ct_next_engine\<close> are
  the next fresh addresses.
\<close>

record CXLController =
  ct_switch :: CXLSwitch
  ct_heap :: heap
  ct_next_ptr :: nat
  ct_cur_expanders :: "nat list"
  ct_capacity :: int
  ct_allocation_policy :: "AllocationPolicy option"
  ct_migration_policy :: "MigrationPolicy option"
  ct_paging_policy :: "PagingPolicy option"
  ct_caching_policy :: "CachingPolicy option"
  ct_counter :: CXLCounter
  ct_occupation :: "(u64 \<times> occupation_info) list"
  ct_page_type :: page_type
  ct_num_switches :: int
  ct_num_end_points :: int
  ct_last_index :: int
  ct_latency_lat :: real
  ct_bandwidth_lat :: real
  ct_dramlatency :: real
  ct_device_map :: "int \<rightharpoonup> nat"
  ct_ring_buffer :: "lbr list"
  ct_thread_map :: "u64 \<rightharpoonup> thread_info"
  ct_lru_cache :: LRUCache
  ct_logp_model :: LogPModel
  ct_mhsld_device :: "MHSLDDevice option"
  ct_local_node_id :: u32
  ct_hdm_decoder :: "HDMDecoder option"
  ct_coherency :: "(nat \<times> CoherencyEngine) option"
  ct_next_engine :: nat
  ct_remote_expanders :: "nat list"
  ct_request_counter :: int

text \<open>
  The constructor.  It passes the epoch on to the switches and expanders of the tree, which is empty
  at this point, so the epoch has no effect.  No address of the heap is in use yet.
\<close>

definition new_CXLController ::
  "AllocationPolicy option \<Rightarrow> MigrationPolicy option \<Rightarrow> PagingPolicy option \<Rightarrow> CachingPolicy option
     \<Rightarrow> int \<Rightarrow> page_type \<Rightarrow> int \<Rightarrow> real \<Rightarrow> CXLController" where
  "new_CXLController allocation migration paging caching capacity pt epoch dramlatency =
     \<lparr>ct_switch = new_CXLSwitch 0,
      ct_heap = (\<lambda>_. Local_expander (new_CXLMemExpander 0 0 0 0 (- 1) 0)), ct_next_ptr = 0,
      ct_cur_expanders = [], ct_capacity = capacity, ct_allocation_policy = allocation,
      ct_migration_policy = migration, ct_paging_policy = paging, ct_caching_policy = caching,
      ct_counter = new_CXLCounter, ct_occupation = [], ct_page_type = pt, ct_num_switches = 0,
      ct_num_end_points = 0, ct_last_index = 0, ct_latency_lat = 0, ct_bandwidth_lat = 0,
      ct_dramlatency = dramlatency, ct_device_map = Map.empty, ct_ring_buffer = [],
      ct_thread_map = Map.empty, ct_lru_cache = new_LRUCache (32 * 1024 * 1024 div 64),
      ct_logp_model = default_LogPModel, ct_mhsld_device = None, ct_local_node_id = 0,
      ct_hdm_decoder = None, ct_coherency = None, ct_next_engine = 0, ct_remote_expanders = [],
      ct_request_counter = 0\<rparr>"

abbreviation ct_last_timestamp :: "CXLController \<Rightarrow> u64" where
  "ct_last_timestamp c \<equiv> cs_last_timestamp (ct_switch c)"

abbreviation occupation_addresses :: "CXLController \<Rightarrow> u64 list" where
  "occupation_addresses c \<equiv> map (\<lambda>(ts, info). oi_address info) (ct_occupation c)"

definition cur_expander_objects :: "CXLController \<Rightarrow> CXLMemExpander list" where
  "cur_expander_objects c = map (\<lambda>p. base_expander (ct_heap c p)) (ct_cur_expanders c)"

fun per_size :: "page_type \<Rightarrow> u64" where
  "per_size CACHELINE = 64"
| "per_size PAGE = 4096"
| "per_size HUGEPAGE_2M = 2 * 1024 * 1024"
| "per_size HUGEPAGE_1G = 1024 * 1024 * 1024"

text \<open>\<open>size * per_size / 1024 / 1024\<close>\<close>

definition used_mb :: "nat \<Rightarrow> page_type \<Rightarrow> u64" where
  "used_mb n pt = of_nat n * per_size pt div 1024 div 1024"

definition has_room :: "page_type \<Rightarrow> CXLMemExpander \<Rightarrow> bool" where
  "has_room pt x \<longleftrightarrow> used_mb (length (me_occupation x)) pt < me_capacity x"

definition local_has_room :: "CXLController \<Rightarrow> bool" where
  "local_has_room c \<longleftrightarrow>
     double_of_u64 (used_mb (length (ct_occupation c)) (ct_page_type c)) < of_int (ct_capacity c) * (9 / 10)"

section \<open>Allocation\<close>

definition trunc_int :: "real \<Rightarrow> int" where
  "trunc_int x = (if 0 \<le> x then \<lfloor>x\<rfloor> else \<lceil>x\<rceil>)"

definition interleave_percentage :: "CXLMemExpander list \<Rightarrow> int list" where
  "interleave_percentage xs =
     (let to_store = map (\<lambda>x. 1 / la_write (me_latency x)) xs
      in map (\<lambda>i. trunc_int (i / sum_list to_store * 10)) to_store)"

text \<open>The loop over \<open>index\<close>: the first position at which the sum of the percentages exceeds the target.\<close>

fun find_slot :: "int list \<Rightarrow> int \<Rightarrow> int \<Rightarrow> nat \<Rightarrow> nat option" where
  "find_slot [] last_remote acc index = None"
| "find_slot (q # qs) last_remote acc index =
     (if acc + q > last_remote then Some index
      else find_slot qs last_remote (acc + q) (index + 1))"

partial_function (option) interleave_next ::
  "int list \<Rightarrow> int \<Rightarrow> (nat \<Rightarrow> bool) \<Rightarrow> int \<Rightarrow> (int \<times> int) option" where
  "interleave_next percentage all_size room last_remote =
     (if all_size = 0 then Some (- 1, last_remote)
      else
        let lr = (last_remote + 1) mod all_size
        in case find_slot percentage lr 0 0 of
             None \<Rightarrow> None
           | Some index \<Rightarrow>
               if room index then Some (int index, lr)
               else interleave_next percentage all_size room lr)"

text \<open>
  The shares are computed once, for the expanders of the first call.  The list of expanders only grows, so
  that a share without an expander, here one that has no room, does not arise.
\<close>

definition interleave_compute_once ::
  "InterleavePolicy \<Rightarrow> CXLController \<Rightarrow> (int \<times> InterleavePolicy) option" where
  "interleave_compute_once p c =
     (if local_has_room c then Some (- 1, p)
      else
        let xs = cur_expander_objects c;
            p1 = (if ip_percentage p = []
                  then p\<lparr>ip_percentage := interleave_percentage xs,
                         ip_all_size := sum_list (interleave_percentage xs)\<rparr>
                  else p)
        in map_option (\<lambda>(index, lr). (index, p1\<lparr>ip_last_remote := lr\<rparr>))
             (interleave_next (ip_percentage p1) (ip_all_size p1)
                (\<lambda>i. i < length xs \<and> has_room (ct_page_type c) (xs ! i)) (ip_last_remote p1)))"

definition latency_score :: "CXLMemExpander \<Rightarrow> real" where
  "latency_score x = 1 / (7 / 10 * la_read (me_latency x) + 3 / 10 * la_write (me_latency x))"

definition current_score :: "page_type \<Rightarrow> real \<Rightarrow> CXLMemExpander \<Rightarrow> real" where
  "current_score pt score x =
     score * (1 - double_of_u64 (of_nat (length (me_occupation x)) * per_size pt)
                    / double_of_u64 (me_capacity x * 1024 * 1024))"

fun numa_scan ::
  "page_type \<Rightarrow> real list \<Rightarrow> CXLMemExpander list \<Rightarrow> nat \<Rightarrow> int \<Rightarrow> real \<Rightarrow> int option" where
  "numa_scan pt scores [] i best_node best_score = Some best_node"
| "numa_scan pt scores (x # xs) i best_node best_score =
     (if \<not> has_room pt x then numa_scan pt scores xs (i + 1) best_node best_score
      else if i \<ge> length scores then None
      else
        let score = current_score pt (scores ! i) x
        in if score > best_score then numa_scan pt scores xs (i + 1) (int i) score
           else numa_scan pt scores xs (i + 1) best_node best_score)"

fun first_with_room :: "page_type \<Rightarrow> CXLMemExpander list \<Rightarrow> nat \<Rightarrow> int \<Rightarrow> int" where
  "first_with_room pt [] i best_node = best_node"
| "first_with_room pt (x # xs) i best_node =
     (if has_room pt x then int i else first_with_room pt xs (i + 1) best_node)"

definition numa_compute_once :: "NUMAPolicy \<Rightarrow> CXLController \<Rightarrow> (int \<times> NUMAPolicy) option" where
  "numa_compute_once p c =
     (if local_has_room c then Some (- 1, p)
      else
        let xs = cur_expander_objects c; pt = ct_page_type c;
            p1 = (if np_latency_scores p = [] then p\<lparr>np_latency_scores := map latency_score xs\<rparr> else p)
        in map_option
             (\<lambda>best. (if best = - 1 then first_with_room pt xs 0 best else best, p1))
             (numa_scan pt (np_latency_scores p1) xs 0 (- 1) (- 1)))"

fun allocation_compute_once ::
  "AllocationPolicy \<Rightarrow> CXLController \<Rightarrow> (int \<times> AllocationPolicy) option" where
  "allocation_compute_once AllocationPolicy_base c = Some (0, AllocationPolicy_base)"
| "allocation_compute_once (Interleave p) c = map_option (map_prod id Interleave) (interleave_compute_once p c)"
| "allocation_compute_once (NUMA p) c = map_option (map_prod id NUMA) (numa_compute_once p c)"

section \<open>Caching\<close>

definition count_of :: "counts \<Rightarrow> u64 \<Rightarrow> u64" where
  "count_of m addr = (case map_of m addr of Some n \<Rightarrow> n | None \<Rightarrow> 0)"

text \<open>\<open>access_count[addr]++\<close>\<close>

definition record_count :: "u64 \<Rightarrow> counts \<Rightarrow> counts" where
  "record_count addr m = map_set addr (count_of m addr + 1) m"

text \<open>
  The scan for the entry with the smallest timestamp, starting from \<open>UINT64_MAX\<close> and address 0.
\<close>

definition fifo_oldest :: "LRUCache \<Rightarrow> u64 \<times> u64" where
  "fifo_oldest cache =
     foldl (\<lambda>(ts, addr) a.
        case lc_cache cache a of
          None \<Rightarrow> (ts, addr)
        | Some entry \<Rightarrow> if le_timestamp entry < ts then (le_timestamp entry, a) else (ts, addr))
       (UINT64_MAX, 0) (sorted_list_of_set (dom (lc_cache cache)))"

definition fifo_compute_once :: "CXLController \<Rightarrow> (int \<times> CXLController) option" where
  "fifo_compute_once c =
     (if used_mb (lru_size (ct_lru_cache c)) (ct_page_type c) \<ge> word_of_int (ct_capacity c)
         \<and> snd (fifo_oldest (ct_lru_cache c)) \<noteq> 0
      then map_option (\<lambda>(_, cache). (1, c\<lparr>ct_lru_cache := cache\<rparr>))
             (lru_remove (ct_lru_cache c) (snd (fifo_oldest (ct_lru_cache c))))
      else Some (0, c))"

definition frequency_should_invalidate :: "FrequencyBasedInvalidationPolicy \<Rightarrow> u64 \<Rightarrow> bool" where
  "frequency_should_invalidate p addr =
     (case map_of (fi_access_count p) addr of
        Some n \<Rightarrow> n < fi_access_threshold p
      | None \<Rightarrow> False)"

definition frequency_invalidation_list ::
  "FrequencyBasedInvalidationPolicy \<Rightarrow> CXLController \<Rightarrow> u64 list \<times> FrequencyBasedInvalidationPolicy" where
  "frequency_invalidation_list p c =
     (let to_invalidate = filter (frequency_should_invalidate p)
            (sorted_list_of_set (dom (lc_cache (ct_lru_cache c))));
          current_time = ct_last_timestamp c
      in (to_invalidate,
          if current_time - fi_last_cleanup p > fi_cleanup_interval p
          then p\<lparr>fi_access_count := [], fi_last_cleanup := current_time\<rparr> else p))"

fun should_cache :: "CachingPolicy \<Rightarrow> u64 \<Rightarrow> u64 \<Rightarrow> bool \<times> CachingPolicy" where
  "should_cache CachingPolicy_base addr ts = (True, CachingPolicy_base)"
| "should_cache FIFO addr ts = (False, FIFO)"
| "should_cache (FrequencyInvalidation p) addr ts =
     (True, FrequencyInvalidation (p\<lparr>fi_access_count := record_count addr (fi_access_count p)\<rparr>))"

fun get_invalidation_list :: "CachingPolicy \<Rightarrow> CXLController \<Rightarrow> u64 list \<times> CachingPolicy" where
  "get_invalidation_list CachingPolicy_base c = ([], CachingPolicy_base)"
| "get_invalidation_list FIFO c = (occupation_addresses c, FIFO)"
| "get_invalidation_list (FrequencyInvalidation p) c =
     map_prod id FrequencyInvalidation (frequency_invalidation_list p c)"

text \<open>The result, the policy afterwards and the controller afterwards.\<close>

fun caching_compute_once ::
  "CachingPolicy \<Rightarrow> CXLController \<Rightarrow> (int \<times> CachingPolicy \<times> CXLController) option" where
  "caching_compute_once CachingPolicy_base c = Some (0, CachingPolicy_base, c)"
| "caching_compute_once FIFO c = map_option (\<lambda>(r, c1). (r, FIFO, c1)) (fifo_compute_once c)"
| "caching_compute_once (FrequencyInvalidation p) c =
     (case frequency_invalidation_list p c of
        (l, p1) \<Rightarrow> Some (if l = [] then 0 else 1, FrequencyInvalidation p1, c))"

section \<open>Migration\<close>

type_synonym migration_list = "(u64 \<times> u64) list"

definition heat_migration_list :: "HeatAwareMigrationPolicy \<Rightarrow> CXLController \<Rightarrow> migration_list" where
  "heat_migration_list p c =
     map (\<lambda>(addr, n). (addr, per_size (ct_page_type c)))
       (filter (\<lambda>(addr, n). n > hm_hot_threshold p) (hm_access_count p))"

definition heat_compute_once ::
  "HeatAwareMigrationPolicy \<Rightarrow> CXLController \<Rightarrow> int \<times> HeatAwareMigrationPolicy" where
  "heat_compute_once p c =
     (let p1 = p\<lparr>hm_access_count := fold record_count (occupation_addresses c) (hm_access_count p)\<rparr>
      in (if heat_migration_list p1 c = [] then 0 else 1, p1))"

text \<open>
  Reading \<open>access_count[addr]\<close> creates the entry; the addresses whose count satisfies a condition.
\<close>

fun collect_counts :: "(u64 \<Rightarrow> bool) \<Rightarrow> u64 list \<Rightarrow> counts \<Rightarrow> u64 list \<times> counts" where
  "collect_counts P [] m = ([], m)"
| "collect_counts P (addr # addrs) m =
     (let n = count_of m addr;
          (rest, m1) = collect_counts P addrs (map_set addr n m)
      in (if P n then addr # rest else rest, m1))"

text \<open>
  The expanders the policies visit: those of the controller, and then all of the tree, which starts
  with those of the controller again.
\<close>

definition visited_expanders :: "CXLController \<Rightarrow> nat list" where
  "visited_expanders c = cs_expanders (ct_switch c) @ switch_endpoints (ct_switch c)"

definition frequency_migration_list ::
  "FrequencyBasedMigrationPolicy \<Rightarrow> CXLController \<Rightarrow> migration_list \<times> FrequencyBasedMigrationPolicy" where
  "frequency_migration_list p c =
     (let (cold, m1) = collect_counts (\<lambda>n. n < fm_cold_threshold p) (occupation_addresses c)
                         (fm_access_count p);
          pages = concat (map (\<lambda>x. map oi_address (endpoint_occupation (ct_heap c x))) (visited_expanders c));
          (hot, m2) = collect_counts (\<lambda>n. n > fm_hot_threshold p) pages m1
      in (map (\<lambda>addr. (addr, per_size (ct_page_type c))) (cold @ hot), p\<lparr>fm_access_count := m2\<rparr>))"

definition frequency_compute_once ::
  "FrequencyBasedMigrationPolicy \<Rightarrow> CXLController \<Rightarrow> int \<times> FrequencyBasedMigrationPolicy" where
  "frequency_compute_once p c =
     (let p1 = p\<lparr>fm_access_count := fold record_count (occupation_addresses c) (fm_access_count p)\<rparr>;
          current_time = ct_last_timestamp c;
          p2 = (if current_time - fm_last_cleanup p1 > fm_cleanup_interval p1
                then p1\<lparr>fm_access_count := [], fm_last_cleanup := current_time\<rparr> else p1);
          (l, p3) = frequency_migration_list p2 c
      in (if l = [] then 0 else 1, p3))"

definition expander_load :: "CXLController \<Rightarrow> nat \<Rightarrow> u64" where
  "expander_load c p =
     (let counter = me_counter (base_expander (ct_heap c p)) in ev_load counter + ev_store counter)"

definition expander_loads :: "CXLController \<Rightarrow> (nat \<times> u64) list" where
  "expander_loads c = map (\<lambda>p. (p, expander_load c p)) (visited_expanders c)"

text \<open>\<open>std::max_element\<close> and \<open>std::min_element\<close>: the first of the largest, the first of the smallest.\<close>

fun max_load :: "(nat \<times> u64) \<Rightarrow> (nat \<times> u64) list \<Rightarrow> nat \<times> u64" where
  "max_load best [] = best"
| "max_load best (x # xs) = max_load (if snd best < snd x then x else best) xs"

fun min_load :: "(nat \<times> u64) \<Rightarrow> (nat \<times> u64) list \<Rightarrow> nat \<times> u64" where
  "min_load best [] = best"
| "min_load best (x # xs) = min_load (if snd x < snd best then x else best) xs"

definition balancing_compute_once ::
  "LoadBalancingMigrationPolicy \<Rightarrow> CXLController \<Rightarrow> int \<times> LoadBalancingMigrationPolicy" where
  "balancing_compute_once p c =
     (let current_time = ct_last_timestamp c in
      if current_time - lb_last_migration p < lb_migration_interval p then (0, p)
      else
        case expander_loads c of
          [] \<Rightarrow> (0, p)
        | x # xs \<Rightarrow>
            let highest = snd (max_load x xs); lowest = snd (min_load x xs)
            in if highest > 0
                  \<and> double_of_u64 (highest - lowest) / double_of_u64 highest > lb_imbalance_threshold p
               then (1, p\<lparr>lb_last_migration := current_time\<rparr>) else (0, p))"

definition balancing_migration_list ::
  "LoadBalancingMigrationPolicy \<Rightarrow> CXLController \<Rightarrow> migration_list" where
  "balancing_migration_list p c =
     (case expander_loads c of
        [] \<Rightarrow> []
      | x # xs \<Rightarrow>
          map (\<lambda>info. (oi_address info, per_size (ct_page_type c)))
            (take 5 (endpoint_occupation (ct_heap c (fst (max_load x xs))))))"

definition page_of :: "u64 \<Rightarrow> u64 \<Rightarrow> u64" where
  "page_of page_size addr = addr AND NOT (page_size - 1)"

definition pattern_of :: "(u64 \<times> u64 list) list \<Rightarrow> u64 \<Rightarrow> u64 list" where
  "pattern_of m page = (case map_of m page of Some l \<Rightarrow> l | None \<Rightarrow> [])"

definition record_pattern ::
  "u64 \<Rightarrow> LocalityBasedMigrationPolicy \<Rightarrow> LocalityBasedMigrationPolicy" where
  "record_pattern addr p =
     (let page_addr = page_of (lo_page_size p) addr;
          l = pattern_of (lo_page_access_pattern p) page_addr @ [addr];
          l1 = (if length l > 100 then tl l else l)
      in p\<lparr>lo_page_access_pattern := map_set page_addr l1 (lo_page_access_pattern p)\<rparr>)"

text \<open>Whether an address reaches the threshold while the accesses are counted one after the other.\<close>

fun repeats :: "u64 \<Rightarrow> u64 list \<Rightarrow> u64 list \<Rightarrow> bool" where
  "repeats threshold seen [] \<longleftrightarrow> False"
| "repeats threshold seen (addr # addrs) \<longleftrightarrow>
     of_nat (count_list (addr # seen) addr) \<ge> threshold \<or> repeats threshold (addr # seen) addrs"

definition has_locality_pattern :: "LocalityBasedMigrationPolicy \<Rightarrow> u64 \<Rightarrow> bool" where
  "has_locality_pattern p page_addr =
     repeats (lo_pattern_threshold p) [] (pattern_of (lo_page_access_pattern p) page_addr)"

definition locality_migration_list ::
  "LocalityBasedMigrationPolicy \<Rightarrow> CXLController \<Rightarrow> migration_list" where
  "locality_migration_list p c =
     map (\<lambda>(page_addr, _). (page_addr, lo_page_size p))
       (filter (\<lambda>(page_addr, _). has_locality_pattern p page_addr
            \<and> \<not> list_ex (\<lambda>a. page_of (lo_page_size p) a = page_addr) (occupation_addresses c))
         (lo_page_access_pattern p))"

definition locality_compute_once ::
  "LocalityBasedMigrationPolicy \<Rightarrow> CXLController \<Rightarrow> int \<times> LocalityBasedMigrationPolicy" where
  "locality_compute_once p c =
     (let p1 = fold record_pattern (occupation_addresses c) p
      in (if locality_migration_list p1 c = [] then 0 else 1, p1))"

definition lifetime_migration_list ::
  "LifetimeBasedMigrationPolicy \<Rightarrow> CXLController \<Rightarrow> migration_list" where
  "lifetime_migration_list p c =
     map (\<lambda>(ts, info). (oi_address info, per_size (ct_page_type c)))
       (filter (\<lambda>(ts, info). ct_last_timestamp c - ts > li_lifetime_threshold p) (ct_occupation c))"

definition lifetime_compute_once ::
  "LifetimeBasedMigrationPolicy \<Rightarrow> CXLController \<Rightarrow> int \<times> LifetimeBasedMigrationPolicy" where
  "lifetime_compute_once p c = (if lifetime_migration_list p c = [] then 0 else 1, p)"

text \<open>
  \<open>get_migration_list\<close> is not virtual: a call through a pointer to the base class, which is what the
  controller and the hybrid policy make, runs the base version whatever the policy is.
\<close>

definition get_migration_list :: "MigrationPolicy \<Rightarrow> CXLController \<Rightarrow> migration_list" where
  "get_migration_list p c = []"

definition hybrid_migration_list :: "MigrationPolicy list \<Rightarrow> CXLController \<Rightarrow> migration_list" where
  "hybrid_migration_list policies c =
     remdups_adj (sort (concat (map (\<lambda>p. get_migration_list p c) policies)))"

fun migration_compute_once :: "MigrationPolicy \<Rightarrow> CXLController \<Rightarrow> int \<times> MigrationPolicy"
  and migrations_compute_once ::
  "MigrationPolicy list \<Rightarrow> CXLController \<Rightarrow> int \<Rightarrow> int \<times> MigrationPolicy list" where
  "migration_compute_once MigrationPolicy_base c =
     (if get_migration_list MigrationPolicy_base c = [] then 0 else 1, MigrationPolicy_base)"
| "migration_compute_once (HeatAware p) c = map_prod id HeatAware (heat_compute_once p c)"
| "migration_compute_once (FrequencyMigration p) c =
     map_prod id FrequencyMigration (frequency_compute_once p c)"
| "migration_compute_once (LoadBalancing p) c = map_prod id LoadBalancing (balancing_compute_once p c)"
| "migration_compute_once (LocalityBased p) c = map_prod id LocalityBased (locality_compute_once p c)"
| "migration_compute_once (LifetimeBased p) c = map_prod id LifetimeBased (lifetime_compute_once p c)"
| "migration_compute_once (HybridMigration ps) c =
     map_prod id HybridMigration (migrations_compute_once ps c 0)"
| "migrations_compute_once [] c result = (result, [])"
| "migrations_compute_once (p # ps) c result =
     (let (r, p1) = migration_compute_once p c;
          (result1, ps1) = migrations_compute_once ps c (result OR r)
      in (result1, p1 # ps1))"

section \<open>Specification\<close>

text \<open>The percentages an interleaving policy works with, and that they add up.\<close>

definition interleave_shares :: "InterleavePolicy \<Rightarrow> CXLController \<Rightarrow> int list" where
  "interleave_shares p c =
     (if ip_percentage p = [] then interleave_percentage (cur_expander_objects c) else ip_percentage p)"

definition interleave_ok :: "InterleavePolicy \<Rightarrow> bool" where
  "interleave_ok p \<longleftrightarrow> (\<forall>q \<in> set (ip_percentage p). 0 \<le> q)
     \<and> (ip_percentage p = [] \<or> ip_all_size p = sum_list (ip_percentage p))"

definition expander_sizes_ok :: "page_type \<Rightarrow> CXLMemExpander \<Rightarrow> bool" where
  "expander_sizes_ok pt x \<longleftrightarrow>
     0 < la_read (me_latency x) \<and> 0 < la_write (me_latency x)
     \<and> length (me_occupation x) * unat (per_size pt) < 2 ^ 64
     \<and> unat (me_capacity x) * 2 ^ 20 < 2 ^ 64"

definition example_controller :: CXLController where
  "example_controller =
     (new_CXLController (Some (NUMA \<lparr>np_latency_scores = []\<rparr>)) None None (Some CachingPolicy_base) 0 PAGE 0 80)
       \<lparr>ct_heap := (\<lambda>_. Local_expander example_expander), ct_next_ptr := 1, ct_cur_expanders := [0]\<rparr>"

section \<open>Interleaving\<close>

lemma find_slot_Some:
  assumes "\<forall>q \<in> set qs. 0 \<le> q" and "acc \<le> lr" and "lr < acc + sum_list qs"
  shows "\<exists>i < length qs. find_slot qs lr acc index = Some (index + i) \<and> 0 < qs ! i
    \<and> acc + sum_list (take i qs) \<le> lr \<and> lr < acc + sum_list (take (Suc i) qs)"
  using assms
proof (induction qs arbitrary: acc index)
  case (Cons q qs)
  show ?case
  proof (cases "acc + q > lr")
    case True
    then show ?thesis
      using Cons.prems by (intro exI [of _ 0]) auto
  next
    case False
    then obtain i where "i < length qs" "find_slot qs lr (acc + q) (index + 1) = Some (index + 1 + i)"
        "0 < qs ! i" "acc + q + sum_list (take i qs) \<le> lr" "lr < acc + q + sum_list (take (Suc i) qs)"
      using Cons.IH [of "acc + q" "index + 1"] Cons.prems by (auto simp: add.assoc)
    then show ?thesis
      using False by (intro exI [of _ "Suc i"]) (auto simp: add.assoc)
  qed
qed simp

text \<open>The slots are disjoint: a target in the interval of a position finds that position.\<close>

lemma sum_take_mono:
  fixes qs :: "int list"
  assumes "\<forall>q \<in> set qs. 0 \<le> q" and "i \<le> j"
  shows "sum_list (take i qs) \<le> sum_list (take j qs)"
proof -
  have "take j qs = take i qs @ take (j - i) (drop i qs)"
    using assms(2) by (metis le_add_diff_inverse take_add)
  moreover have "0 \<le> sum_list (take (j - i) (drop i qs))"
    using assms(1) by (intro sum_list_nonneg) (meson in_set_dropD in_set_takeD)
  ultimately show ?thesis
    by simp
qed

lemma find_slot_unique:
  assumes "\<forall>q \<in> set qs. 0 \<le> q" and "i < length qs"
    and "sum_list (take i qs) \<le> lr" and "lr < sum_list (take (Suc i) qs)"
  shows "find_slot qs lr 0 0 = Some i"
proof -
  have "0 \<le> lr" "lr < sum_list qs"
    using assms sum_take_mono [OF assms(1), of 0 i] sum_take_mono [OF assms(1), of "Suc i" "length qs"]
    by auto
  then obtain j where j: "j < length qs" "find_slot qs lr 0 0 = Some j"
      "sum_list (take j qs) \<le> lr" "lr < sum_list (take (Suc j) qs)"
    using find_slot_Some [OF assms(1), of 0 lr 0] by auto
  have "\<not> i < j"
    using sum_take_mono [OF assms(1), of "Suc i" j] assms(4) j(3) by auto
  moreover have "\<not> j < i"
    using sum_take_mono [OF assms(1), of "Suc j" i] assms(3) j(4) by auto
  ultimately show ?thesis
    using j(2) by simp
qed

lemma interleave_next_sound:
  assumes "interleave_next pct all_size room lr = Some r"
  shows "all_size = 0 \<and> fst r = - 1 \<or>
    (all_size \<noteq> 0 \<and> (\<exists>i t. fst r = int i \<and> room i \<and> snd r = t mod all_size
       \<and> find_slot pct (t mod all_size) 0 0 = Some i))"
  using assms
proof (induction rule: interleave_next.raw_induct [rotated, consumes 1, case_names step])
  case (step f pct all_size room lr r)
  show ?case
  proof (cases "all_size = 0")
    case False
    let ?lr = "(lr + 1) mod all_size"
    obtain i where i: "find_slot pct ?lr 0 0 = Some i"
      using step(2) False by (auto simp: Let_def split: option.splits)
    show ?thesis
    proof (cases "room i")
      case True
      then have "r = (int i, ?lr)"
        using step(2) False i by (simp add: Let_def)
      with False True i show ?thesis
        by auto
    next
      case not_room: False
      then have "f pct all_size room ?lr = Some r"
        using step(2) False i by (simp add: Let_def)
      then show ?thesis
        by (rule step(1))
    qed
  qed (use step(2) in auto)
qed

text \<open>
  From any starting point the targets run through all values below \<open>all_size\<close>, so they reach the slot
  of an expander with room.
\<close>

lemma interleave_next_reaches:
  assumes "\<forall>q \<in> set pct. 0 \<le> q" and "i < length pct" and "0 < pct ! i" and "room i"
    and "(sum_list (take i pct) - 1 - lr) mod sum_list pct = int d"
  shows "interleave_next pct (sum_list pct) room lr \<noteq> None"
  using assms(5)
proof (induction d arbitrary: lr)
  have take: "sum_list (take (Suc i) pct) = sum_list (take i pct) + pct ! i"
    using assms(2) by (simp add: take_Suc_conv_app_nth)
  have bounds: "0 \<le> sum_list (take i pct)" "sum_list (take i pct) < sum_list pct"
    using sum_take_mono [OF assms(1), of 0 i] sum_take_mono [OF assms(1), of "Suc i" "length pct"]
      assms(2,3) take by auto
  have slot: "find_slot pct (sum_list (take i pct)) 0 0 = Some i"
    using assms(3) take by (intro find_slot_unique [OF assms(1,2)]) auto
  have some: "\<exists>j. find_slot pct ((lr + 1) mod sum_list pct) 0 0 = Some j" for lr
    using find_slot_Some [OF assms(1), of 0 "(lr + 1) mod sum_list pct" 0] bounds by auto
  {
    case 0
    then have "sum_list pct dvd sum_list (take i pct) - (lr + 1)"
      by (simp add: mod_eq_0_iff_dvd diff_diff_eq add.commute)
    then have "sum_list (take i pct) mod sum_list pct = (lr + 1) mod sum_list pct"
      by (simp add: mod_eq_dvd_iff)
    then have "(lr + 1) mod sum_list pct = sum_list (take i pct)"
      using bounds by simp
    with slot assms(4) bounds show ?case
      by (subst interleave_next.simps) (simp add: Let_def)
  next
    case (Suc d)
    let ?lr = "(lr + 1) mod sum_list pct"
    have "(sum_list (take i pct) - 1 - ?lr) mod sum_list pct
        = (sum_list (take i pct) - 1 - (lr + 1)) mod sum_list pct"
      by (rule mod_diff_right_eq)
    also have "sum_list (take i pct) - 1 - (lr + 1) = (sum_list (take i pct) - 1 - lr) - 1"
      by simp
    also have "((sum_list (take i pct) - 1 - lr) - 1) mod sum_list pct
        = ((sum_list (take i pct) - 1 - lr) mod sum_list pct - 1) mod sum_list pct"
      by (rule mod_diff_left_eq [symmetric])
    also have "\<dots> = int d"
    proof -
      have "int (Suc d) < sum_list pct"
        using Suc.prems bounds by (metis order_le_less_trans pos_mod_bound)
      then show ?thesis
        unfolding Suc.prems by simp
    qed
    finally have "interleave_next pct (sum_list pct) room ?lr \<noteq> None"
      by (rule Suc.IH)
    with some [of lr] show ?case
      by (subst interleave_next.simps) (auto simp: Let_def split: option.splits)
  }
qed

lemma trunc_int_nonneg: "0 \<le> x \<Longrightarrow> 0 \<le> trunc_int x"
  by (simp add: trunc_int_def)

lemma interleave_percentage_nonneg:
  assumes "\<forall>x \<in> set xs. 0 < la_write (me_latency x)" and "q \<in> set (interleave_percentage xs)"
  shows "0 \<le> q"
proof -
  define S where "S = sum_list (map (\<lambda>x. 1 / la_write (me_latency x)) xs)"
  have "0 \<le> S"
    unfolding S_def using assms(1) by (intro sum_list_nonneg) (auto simp: less_imp_le)
  obtain x where x: "x \<in> set xs" "q = trunc_int (1 / la_write (me_latency x) / S * 10)"
    using assms(2) by (auto simp: interleave_percentage_def Let_def S_def)
  have "0 \<le> 1 / la_write (me_latency x) / S * 10"
    using x(1) assms(1) \<open>0 \<le> S\<close> by (simp add: less_imp_le)
  then show ?thesis
    unfolding x(2) by (rule trunc_int_nonneg)
qed

text \<open>
  C35. Once local memory is full, the interleaving policy returns an expander that has a share of the
  traffic and room for a page; it falls back to local memory only when every share is rounded to
  zero, and it never returns, spinning on its \<open>goto\<close>, exactly when no expander with a share has
  room.
\<close>

theorem interleave_outcome:
  fixes p c
  defines "pct \<equiv> interleave_shares p c" and "xs \<equiv> cur_expander_objects c"
  assumes "interleave_ok p" and "\<not> local_has_room c"
    and "\<forall>x \<in> set (cur_expander_objects c). 0 < la_write (me_latency x)"
  shows "case interleave_compute_once p c of
      None \<Rightarrow> sum_list pct \<noteq> 0
        \<and> \<not> (\<exists>i < length pct. 0 < pct ! i \<and> i < length xs \<and> has_room (ct_page_type c) (xs ! i))
    | Some (r, p') \<Rightarrow>
        if sum_list pct = 0 then r = - 1
        else \<exists>i < length pct. r = int i \<and> 0 < pct ! i \<and> i < length xs \<and> has_room (ct_page_type c) (xs ! i)"
proof -
  let ?room = "\<lambda>i. i < length xs \<and> has_room (ct_page_type c) (xs ! i)"
  have nonneg: "\<forall>q \<in> set pct. 0 \<le> q"
    using assms(3,5) interleave_percentage_nonneg
    by (auto simp: pct_def interleave_shares_def interleave_ok_def split: if_splits)
  define p1 where "p1 = (if ip_percentage p = []
    then p\<lparr>ip_percentage := interleave_percentage xs, ip_all_size := sum_list (interleave_percentage xs)\<rparr>
    else p)"
  define f where "f = (\<lambda>(index :: int, lr). (index, p1\<lparr>ip_last_remote := lr\<rparr>))"
  define lr where "lr = ip_last_remote p1"
  have "ip_percentage p1 = pct" "ip_all_size p1 = sum_list pct"
    using assms(3) by (auto simp: p1_def pct_def interleave_shares_def xs_def interleave_ok_def)
  then have run: "interleave_compute_once p c = map_option f (interleave_next pct (sum_list pct) ?room lr)"
    using assms(4)
    unfolding interleave_compute_once_def Let_def xs_def [symmetric] p1_def [symmetric] f_def lr_def
    by simp
  have f: "fst (f r) = fst r" for r
    by (simp add: f_def split_beta)
  show ?thesis
  proof (cases "interleave_next pct (sum_list pct) ?room lr")
    case None
    have "sum_list pct \<noteq> 0"
      using None by (auto simp: interleave_next.simps)
    moreover have False if "i < length pct" "0 < pct ! i" "?room i" for i
    proof -
      have "0 < sum_list pct"
        using \<open>sum_list pct \<noteq> 0\<close> sum_list_nonneg nonneg by (metis order_le_imp_less_or_eq)
      then obtain d where "(sum_list (take i pct) - 1 - lr) mod sum_list pct = int d"
        by (metis pos_mod_sign zero_le_imp_eq_int)
      from interleave_next_reaches [OF nonneg that(1,2), of ?room, OF that(3) this] None show False
        by simp
    qed
    ultimately show ?thesis
      using run None by auto
  next
    case (Some r)
    show ?thesis
    proof (cases "sum_list pct = 0")
      case True
      with interleave_next_sound [OF Some] run Some f [of r] show ?thesis
        by (cases "f r") auto
    next
      case False
      with interleave_next_sound [OF Some] obtain i t where
        i: "fst r = int i" "?room i" "find_slot pct (t mod sum_list pct) 0 0 = Some i"
        by auto
      have "0 < sum_list pct"
        using False sum_list_nonneg nonneg by (metis order_le_imp_less_or_eq)
      then obtain j where "j < length pct" "find_slot pct (t mod sum_list pct) 0 0 = Some j" "0 < pct ! j"
        using find_slot_Some [OF nonneg, of 0 "t mod sum_list pct" 0] by auto
      with i False run Some f [of r] show ?thesis
        by (cases "f r") auto
    qed
  qed
qed

lemma example_controller_simps:
  "cur_expander_objects example_controller = [example_expander]"
  "\<not> local_has_room example_controller" "ct_page_type example_controller = PAGE"
  "has_room PAGE example_expander" "la_write (me_latency example_expander) = 150"
  "la_read (me_latency example_expander) = 100"
  by (simp_all add: cur_expander_objects_def example_controller_def new_CXLController_def
      local_has_room_def used_mb_def has_room_def example_expander_def new_CXLMemExpander_def)

theorem interleave_outcome_witness:
  "\<exists>p'. interleave_compute_once \<lparr>ip_last_remote = 0, ip_all_size = 0, ip_percentage = []\<rparr>
     example_controller = Some (0, p')"
proof -
  let ?p = "\<lparr>ip_last_remote = 0, ip_all_size = 0, ip_percentage = []\<rparr>"
  have "interleave_shares ?p example_controller = [10]"
    by (simp add: interleave_shares_def example_controller_simps interleave_percentage_def
        trunc_int_def)
  then show ?thesis
    using interleave_outcome [of ?p example_controller]
    by (auto simp: interleave_ok_def example_controller_simps split: option.splits prod.splits)
qed

section \<open>Best node\<close>

lemma pick_best:
  fixes cs :: "('a \<times> 'b::linorder) list"
  defines "pick \<equiv> \<lambda>b c. if snd b < snd c then c else b"
  shows "foldl pick b cs = b \<and> (\<forall>c \<in> set cs. snd c \<le> snd b)
    \<or> foldl pick b cs \<in> set cs \<and> snd b < snd (foldl pick b cs)
      \<and> (\<forall>c \<in> set cs. snd c \<le> snd (foldl pick b cs))"
proof (induction cs arbitrary: b)
  case (Cons c cs)
  show ?case
    using Cons.IH [of "pick b c"] by (auto simp: pick_def)
qed simp

lemma numa_scan_eq:
  assumes "i + length xs \<le> length scores"
  shows "numa_scan pt scores xs i best_node best_score =
     Some (fst (foldl (\<lambda>b c. if snd b < snd c then c else b) (best_node, best_score)
       (map (\<lambda>(j, x). (int j, current_score pt (scores ! j) x))
         (filter (\<lambda>(j, x). has_room pt x) (enumerate i xs)))))"
  using assms by (induction xs arbitrary: i best_node best_score) (auto simp: Let_def)

lemma score_positive:
  assumes "expander_sizes_ok pt x" and "has_room pt x"
  shows "0 < current_score pt (latency_score x) x"
proof -
  let ?n = "length (me_occupation x) * unat (per_size pt)" and ?c = "unat (me_capacity x)"
  have bytes: "unat (of_nat (length (me_occupation x)) * per_size pt :: u64) = ?n"
    using assms(1) by (simp add: expander_sizes_ok_def unat_word_ariths unat_of_nat mod_mult_left_eq)
  have "unat (me_capacity x * 1024) = ?c * 1024"
    using assms(1) by (simp add: expander_sizes_ok_def unat_word_ariths)
  then have cap: "unat (me_capacity x * 1024 * 1024) = ?c * 2 ^ 20"
    using assms(1) by (simp add: expander_sizes_ok_def unat_word_ariths)
  have "?n div 1024 div 1024 < ?c"
    using assms(2) bytes by (simp add: has_room_def used_mb_def word_less_nat_alt unat_div)
  then have "?n < ?c * 2 ^ 20"
    by (simp add: div_mult2_eq [symmetric] div_less_iff_less_mult)
  then have "real ?n / real (?c * 2 ^ 20) < 1"
    by (simp add: divide_less_eq_1 del: of_nat_mult)
  moreover have "0 < latency_score x"
    using assms(1) by (simp add: latency_score_def expander_sizes_ok_def)
  ultimately show ?thesis
    unfolding current_score_def double_of_u64_def bytes cap by simp
qed

text \<open>
  Once local memory is full, the NUMA policy returns the expander with the best score among those
  with room, where the score weighs low latency against free capacity, and local memory only
  when no expander has room.  (The policy is fresh or has scored these expanders before; sizes in
  bytes fit 64 bits.)
\<close>

theorem numa_picks_best:
  fixes p c
  defines "xs \<equiv> cur_expander_objects c" and "pt \<equiv> ct_page_type c"
  assumes "np_latency_scores p \<in> {[], map latency_score (cur_expander_objects c)}"
    and "\<not> local_has_room c" and "\<forall>x \<in> set (cur_expander_objects c). expander_sizes_ok (ct_page_type c) x"
  shows "\<exists>r p'. numa_compute_once p c = Some (r, p')
    \<and> (if \<exists>x \<in> set xs. has_room pt x
       then \<exists>i < length xs. r = int i \<and> has_room pt (xs ! i)
         \<and> (\<forall>j < length xs. has_room pt (xs ! j) \<longrightarrow>
              current_score pt (latency_score (xs ! j)) (xs ! j)
                \<le> current_score pt (latency_score (xs ! i)) (xs ! i))
       else r = - 1)"
proof -
  define S where "S = (\<lambda>j. current_score pt (latency_score (xs ! j)) (xs ! j))"
  define cs where "cs = map (\<lambda>(j, x). (int j, current_score pt (map latency_score xs ! j) x))
    (filter (\<lambda>(j, x). has_room pt x) (enumerate 0 xs))"
  define best where "best = foldl (\<lambda>b c. if snd b < snd c then c else b) (- 1, - 1) cs"
  have "set (filter (\<lambda>(j, x). has_room pt x) (enumerate 0 xs))
      = (\<lambda>j. (j, xs ! j)) ` {j. j < length xs \<and> has_room pt (xs ! j)}"
    by (auto simp: in_set_enumerate_eq)
  then have cs: "set cs = (\<lambda>j. (int j, S j)) ` {j. j < length xs \<and> has_room pt (xs ! j)}"
    unfolding cs_def set_map by (simp add: image_image S_def cong: image_cong_simp)
  have scan: "numa_scan pt (map latency_score xs) xs 0 (- 1) (- 1) = Some (fst best)"
    unfolding best_def cs_def by (rule numa_scan_eq) simp
  have "np_latency_scores (if np_latency_scores p = [] then p\<lparr>np_latency_scores := map latency_score xs\<rparr> else p)
      = map latency_score xs"
    using assms(3) by (auto simp: xs_def)
  then have run: "\<exists>p'. numa_compute_once p c =
      Some (if fst best = - 1 then first_with_room pt xs 0 (fst best) else fst best, p')"
    using assms(4) scan unfolding numa_compute_once_def Let_def xs_def [symmetric] pt_def [symmetric]
    by simp
  show ?thesis
  proof (cases "\<exists>x \<in> set xs. has_room pt x")
    case True
    then obtain j where j: "j < length xs" "has_room pt (xs ! j)"
      by (auto simp: in_set_conv_nth)
    then have "(int j, S j) \<in> set cs"
      unfolding cs by blast
    moreover have "0 < S j"
      using j assms(5) unfolding S_def by (intro score_positive) (auto simp: xs_def pt_def)
    ultimately have b: "best \<in> set cs" "\<forall>c \<in> set cs. snd c \<le> snd best"
      using pick_best [of "(- 1, - 1)" cs] unfolding best_def [symmetric] by force+
    then obtain i where i: "i < length xs" "has_room pt (xs ! i)" "best = (int i, S i)"
      unfolding cs by auto
    moreover have "S k \<le> S i" if "k < length xs" "has_room pt (xs ! k)" for k
      using b(2) that i(3) unfolding cs by auto
    ultimately show ?thesis
      using run True unfolding S_def by auto
  next
    case False
    then have "{j. j < length xs \<and> has_room pt (xs ! j)} = {}"
      using nth_mem by blast
    then have "set cs = {}"
      unfolding cs by simp
    then have "cs = []"
      by simp
    then have "fst best = - 1"
      by (simp add: best_def)
    moreover have "first_with_room pt ys i r = r" if "\<forall>x \<in> set ys. \<not> has_room pt x" for ys i r
      using that by (induction ys arbitrary: i) auto
    ultimately show ?thesis
      using run False by auto
  qed
qed

theorem numa_picks_best_witness:
  "\<exists>p'. numa_compute_once \<lparr>np_latency_scores = []\<rparr> example_controller = Some (0, p')"
proof -
  have "expander_sizes_ok PAGE example_expander"
    by (simp add: expander_sizes_ok_def example_expander_def new_CXLMemExpander_def)
  then show ?thesis
    using numa_picks_best [of "\<lparr>np_latency_scores = []\<rparr>" example_controller]
    unfolding example_controller_simps by (auto simp: example_controller_simps)
qed

section \<open>Counts\<close>

lemma count_of_record:
  "sorted_wrt (<) (map fst m) \<Longrightarrow>
     count_of (record_count a m) b = count_of m b + (if a = b then 1 else 0)"
  by (auto simp: count_of_def record_count_def map_of_map_set)

lemma record_counts:
  assumes "sorted_wrt (<) (map fst m)"
  shows "sorted_wrt (<) (map fst (fold record_count xs m))"
    and "count_of (fold record_count xs m) a = count_of m a + of_nat (count_list xs a)"
    and "fst ` set (fold record_count xs m) = fst ` set m \<union> set xs"
proof -
  have "sorted_wrt (<) (map fst (fold record_count xs m))
      \<and> count_of (fold record_count xs m) a = count_of m a + of_nat (count_list xs a)
      \<and> fst ` set (fold record_count xs m) = fst ` set m \<union> set xs"
    using assms
  proof (induction xs arbitrary: m)
    case (Cons x xs)
    have "sorted_wrt (<) (map fst (record_count x m))"
      using Cons.prems by (simp add: record_count_def sorted_map_set)
    from Cons.IH [OF this] Cons.prems show ?case
      by (simp add: count_of_record) (simp add: record_count_def set_map_set_keys)
  qed simp
  then show "sorted_wrt (<) (map fst (fold record_count xs m))"
    "count_of (fold record_count xs m) a = count_of m a + of_nat (count_list xs a)"
    "fst ` set (fold record_count xs m) = fst ` set m \<union> set xs"
    by blast+
qed

lemma count_of_member:
  "sorted_wrt (<) (map fst m) \<Longrightarrow> (a, n) \<in> set m \<longleftrightarrow> a \<in> fst ` set m \<and> count_of m a = n"
proof -
  assume "sorted_wrt (<) (map fst m)"
  then have "distinct (map fst m)"
    by (simp add: strict_sorted_iff)
  then have "(a, n) \<in> set m \<longleftrightarrow> map_of m a = Some n"
    by simp
  moreover have "a \<in> fst ` set m \<longleftrightarrow> map_of m a \<noteq> None"
    by (simp add: map_of_eq_None_iff)
  ultimately show ?thesis
    by (auto simp: count_of_def split: option.splits)
qed

lemma keys_filter:
  "fst ` set (map (\<lambda>(a, n). (a, s)) (filter (\<lambda>(a, n). P n) m)) = {a. \<exists>n. (a, n) \<in> set m \<and> P n}"
  by (induction m) auto

text \<open>
  What the heat-aware policy reports: run with the pages of the controller, it asks for a
  migration if and only if some address it knows has now been seen more often than the
  threshold, and lists exactly these addresses.
\<close>

theorem heat_reports_hot_addresses:
  fixes p c
  defines "seen \<equiv> \<lambda>a. count_of (hm_access_count p) a + of_nat (count_list (occupation_addresses c) a)"
    and "known \<equiv> fst ` set (hm_access_count p) \<union> set (occupation_addresses c)"
    and "r \<equiv> heat_compute_once p c"
  assumes "sorted_wrt (<) (map fst (hm_access_count p))"
  shows "fst ` set (heat_migration_list (snd r) c) = {a \<in> known. hm_hot_threshold p < seen a}
    \<and> (fst r = 1 \<longleftrightarrow> (\<exists>a \<in> known. hm_hot_threshold p < seen a))"
proof -
  let ?m = "fold record_count (occupation_addresses c) (hm_access_count p)"
  have r: "snd r = p\<lparr>hm_access_count := ?m\<rparr>" "fst r = (if heat_migration_list (snd r) c = [] then 0 else 1)"
    by (simp_all add: r_def heat_compute_once_def Let_def)
  note m = record_counts [OF assms(4), of "occupation_addresses c"]
  have l: "fst ` set (heat_migration_list (snd r) c) = {a \<in> known. hm_hot_threshold p < seen a}"
  proof -
    have "fst ` set (heat_migration_list (snd r) c) = {a. \<exists>n. (a, n) \<in> set ?m \<and> hm_hot_threshold p < n}"
      unfolding r(1) heat_migration_list_def keys_filter by simp
    also have "\<dots> = {a \<in> known. hm_hot_threshold p < seen a}"
      unfolding count_of_member [OF m(1)] m(2,3) known_def seen_def by blast
    finally show ?thesis .
  qed
  have "fst r = 1 \<longleftrightarrow> fst ` set (heat_migration_list (snd r) c) \<noteq> {}"
    unfolding r(2) by simp
  also have "\<dots> \<longleftrightarrow> (\<exists>a \<in> known. hm_hot_threshold p < seen a)"
    unfolding l by blast
  finally show ?thesis
    using l by blast
qed

theorem heat_reports_hot_addresses_witness:
  "fst (heat_compute_once \<lparr>hm_access_count = [(64, 101)], hm_hot_threshold = 100\<rparr> example_controller) = 1"
  using heat_reports_hot_addresses [of "\<lparr>hm_access_count = [(64, 101)], hm_hot_threshold = 100\<rparr>" example_controller]
  by (simp add: example_controller_def new_CXLController_def count_of_def)

section \<open>First in, first out\<close>










end
