(* ===== verification/Topology.thy ===== *)
theory Topology
  imports Policies
begin

text \<open>
  How the controller's tree is built (\<open>src/cxlcontroller.cpp\<close>): the tokenizer and the parser of the
  topology description, and the set-up of the distributed mode with its remote endpoints.

  The parser keeps a stack of pointers to switches.  Here the open switches are a list, the innermost
  first, and a switch joins its parent when it is closed, or at the end of the input; nothing reads
  the tree in between.  Whether the controller itself is still on the stack is a flag.  Parsing gives
  an error: the exception of the code, or undefined behaviour (an index outside \<open>cur_expanders\<close>, or
  the last element of an empty stack).

  The lemmas show that the tokenizer splits a description into the tokens it was printed from, that
  the parser builds the tree a description stands for, and which endpoints a remote token creates.
\<close>

section \<open>Endpoints\<close>

text \<open>A new object takes the next address of the heap.\<close>

definition new_endpoint :: "CXLController \<Rightarrow> endpoint \<Rightarrow> nat \<times> CXLController" where
  "new_endpoint c x =
     (ct_next_ptr c, c\<lparr>ct_heap := (ct_heap c)(ct_next_ptr c := x), ct_next_ptr := ct_next_ptr c + 1\<rparr>)"

definition insert_end_point :: "CXLController \<Rightarrow> nat \<Rightarrow> CXLController" where
  "insert_end_point c end_point = c\<lparr>ct_cur_expanders := ct_cur_expanders c @ [end_point]\<rparr>"

definition push_expander :: "CXLSwitch \<Rightarrow> nat \<Rightarrow> CXLSwitch" where
  "push_expander s p =
     CXLSwitch (cs_expanders s @ [p]) (cs_switches s) (cs_counter s) (cs_id s) (cs_epoch s)
       (cs_last_timestamp s) (cs_congestion_latency s)"

definition push_switch :: "CXLSwitch \<Rightarrow> CXLSwitch \<Rightarrow> CXLSwitch" where
  "push_switch s child =
     CXLSwitch (cs_expanders s) (cs_switches s @ [child]) (cs_counter s) (cs_id s) (cs_epoch s)
       (cs_last_timestamp s) (cs_congestion_latency s)"

section \<open>Distributed mode\<close>

text \<open>The new engine replaces the old one, which is destroyed.\<close>

definition configure_distributed :: "CXLController \<Rightarrow> u32 \<Rightarrow> HDMDecoderMode \<Rightarrow> CXLController" where
  "configure_distributed c local_node_id mode =
     c\<lparr>ct_local_node_id := local_node_id,
       ct_hdm_decoder := Some (new_HDMDecoder mode),
       ct_coherency := Some (ct_next_engine c,
         new_CoherencyEngine local_node_id (Some (ct_logp_model c)) 16 25),
       ct_next_engine := ct_next_engine c + 1\<rparr>"

definition add_remote_endpoint ::
  "CXLController \<Rightarrow> u32 \<Rightarrow> u64 \<Rightarrow> u64 \<Rightarrow> FabricLinkConfig \<Rightarrow> nat \<times> CXLController" where
  "add_remote_endpoint c remote_node base capacity link_cfg =
     (let remote_id = ct_num_end_points c;
          c1 = c\<lparr>ct_num_end_points := remote_id + 1\<rparr>;
          remote = (new_RemoteCXLExpander remote_id remote_node (ct_local_node_id c1) base capacity link_cfg)
            \<lparr>rm_coherency_engine := map_option fst (ct_coherency c1)\<rparr>;
          (p, c2) = new_endpoint c1 (Remote_expander remote)
      in (p, c2\<lparr>ct_switch := push_expander (ct_switch c2) p,
                ct_device_map := (ct_device_map c2)(remote_id \<mapsto> p),
                ct_remote_expanders := ct_remote_expanders c2 @ [p]\<rparr>))"

fun remote_node_of :: "endpoint \<Rightarrow> u32 option" where
  "remote_node_of (Remote_expander r) = Some (rm_remote_node_id r)"
| "remote_node_of (Local_expander x) = None"

definition get_remote_expander :: "CXLController \<Rightarrow> u32 \<Rightarrow> nat option" where
  "get_remote_expander c node_id =
     find (\<lambda>p. remote_node_of (ct_heap c p) = Some node_id) (ct_remote_expanders c)"

section \<open>Tokens\<close>

definition is_delimiter :: "char \<Rightarrow> bool" where
  "is_delimiter ch \<longleftrightarrow>
     ch = CHR ''('' \<or> ch = CHR '')'' \<or> ch = CHR '':'' \<or> ch = CHR '',''"

fun tokenize_loop :: "string \<Rightarrow> string \<Rightarrow> string list \<Rightarrow> string list" where
  "tokenize_loop [] tmp res = (if tmp \<noteq> [] then res @ [tmp] else res)"
| "tokenize_loop (ch # cs) tmp res =
     (if is_delimiter ch
      then tokenize_loop cs [] ((if tmp \<noteq> [] then res @ [tmp] else res) @ [[ch]])
      else tokenize_loop cs (tmp @ [ch]) res)"

definition tokenize :: "string \<Rightarrow> string list" where
  "tokenize s = tokenize_loop s [] []"

text \<open>\<open>atoi\<close>: leading white space, a sign, and the digits up to the first other character.\<close>

definition digit_value :: "char \<Rightarrow> int option" where
  "digit_value ch =
     (let n = (of_char ch :: int) in if 48 \<le> n \<and> n \<le> 57 then Some (n - 48) else None)"

fun atoi_digits :: "string \<Rightarrow> int \<Rightarrow> int" where
  "atoi_digits [] acc = acc"
| "atoi_digits (ch # cs) acc =
     (case digit_value ch of None \<Rightarrow> acc | Some d \<Rightarrow> atoi_digits cs (acc * 10 + d))"

definition is_space :: "char \<Rightarrow> bool" where
  "is_space ch \<longleftrightarrow> (let n = (of_char ch :: int) in n = 32 \<or> 9 \<le> n \<and> n \<le> 13)"

definition atoi :: "string \<Rightarrow> int" where
  "atoi s =
     (case dropWhile is_space s of
        [] \<Rightarrow> 0
      | ch # cs \<Rightarrow>
          if ch = CHR ''-'' then - atoi_digits cs 0
          else if ch = CHR ''+'' then atoi_digits cs 0
          else atoi_digits (ch # cs) 0)"

section \<open>Parser\<close>

datatype topo_error = Invalid_argument | Undefined_behaviour

record topo =
  tp_controller :: CXLController
  tp_root_open :: bool
  tp_open :: "CXLSwitch list"

text \<open>\<open>stk.back()->expanders.emplace_back(p)\<close>\<close>

definition emplace_expander :: "topo \<Rightarrow> nat \<Rightarrow> topo option" where
  "emplace_expander tp p =
     (case tp_open tp of
        s # ss \<Rightarrow> Some (tp\<lparr>tp_open := push_expander s p # ss\<rparr>)
      | [] \<Rightarrow>
          if tp_root_open tp
          then Some (tp\<lparr>tp_controller := (tp_controller tp)
                 \<lparr>ct_switch := push_expander (ct_switch (tp_controller tp)) p\<rparr>\<rparr>)
          else None)"

text \<open>Attaching a switch that is complete to the switch below it on the stack.\<close>

definition attach_switch :: "topo \<Rightarrow> CXLSwitch \<Rightarrow> topo" where
  "attach_switch tp s =
     (case tp_open tp of
        parent # ss \<Rightarrow> tp\<lparr>tp_open := push_switch parent s # ss\<rparr>
      | [] \<Rightarrow> tp\<lparr>tp_controller := (tp_controller tp)
                \<lparr>ct_switch := push_switch (ct_switch (tp_controller tp)) s\<rparr>\<rparr>)"

definition open_switch :: "topo \<Rightarrow> topo option" where
  "open_switch tp =
     (let c = tp_controller tp; n = ct_num_switches c in
      if tp_open tp = [] \<and> \<not> tp_root_open tp then None
      else Some (tp\<lparr>tp_controller := c\<lparr>ct_num_switches := n + 1\<rparr>,
                    tp_open := new_CXLSwitch n # tp_open tp\<rparr>))"

definition close_switch :: "topo \<Rightarrow> topo option" where
  "close_switch tp =
     (case tp_open tp of
        s # ss \<Rightarrow> Some (attach_switch (tp\<lparr>tp_open := ss\<rparr>) s)
      | [] \<Rightarrow> if tp_root_open tp then Some (tp\<lparr>tp_root_open := False\<rparr>) else None)"

definition remote_token :: "topo \<Rightarrow> string \<Rightarrow> topo option" where
  "remote_token tp node =
     (let remote_node = word_of_int (atoi node) :: u32;
          link_cfg = \<lparr>fl_latency_ns = 100, fl_bandwidth_gbps = 25, fl_max_credits = 32\<rparr>;
          default_capacity = 1024 * 1024 * 1024 :: u64;
          default_base = ucast remote_node * default_capacity;
          (p, c) = add_remote_endpoint (tp_controller tp) remote_node default_base default_capacity link_cfg
      in emplace_expander (tp\<lparr>tp_controller := c\<rparr>) p)"

definition expander_token :: "topo \<Rightarrow> string \<Rightarrow> topo option" where
  "expander_token tp token =
     (let c = tp_controller tp; i = atoi token - 1 in
      if 0 \<le> i \<and> i < int (length (ct_cur_expanders c))
      then
        let p = ct_cur_expanders c ! nat i
        in map_option
             (\<lambda>tp1. tp1\<lparr>tp_controller := (tp_controller tp1)
                \<lparr>ct_device_map := (ct_device_map c)(ct_num_end_points c \<mapsto> p),
                 ct_num_end_points := ct_num_end_points c + 1\<rparr>\<rparr>)
             (emplace_expander tp p)
      else None)"

text \<open>\<open>R:node_id:exp_id\<close>: five tokens, of which the node is the third.\<close>

definition is_remote_token :: "string list \<Rightarrow> bool" where
  "is_remote_token tokens \<longleftrightarrow>
     length tokens \<ge> 5 \<and> tokens ! 0 = ''R'' \<and> tokens ! 1 = '':'' \<and> tokens ! 3 = '':''"

definition checked :: "topo_error \<Rightarrow> topo option \<Rightarrow> topo_error + topo" where
  "checked err r = (case r of None \<Rightarrow> Inl err | Some tp \<Rightarrow> Inr tp)"

definition topo_step :: "topo \<Rightarrow> string \<Rightarrow> topo_error + topo" where
  "topo_step tp token =
     (if token = ''('' \<and> ct_num_switches (tp_controller tp) = 0
      then Inr (tp\<lparr>tp_controller := (tp_controller tp)\<lparr>ct_num_switches := 1\<rparr>\<rparr>)
      else if token = ''('' then checked Undefined_behaviour (open_switch tp)
      else if token = '')'' then checked Invalid_argument (close_switch tp)
      else if token = '','' \<or> token = '';'' then Inr tp
      else checked Undefined_behaviour (expander_token tp token))"

function topo_loop :: "topo \<Rightarrow> string list \<Rightarrow> topo_error + topo" where
  "topo_loop tp [] = Inr tp"
| "topo_loop tp (token # rest) =
     (if is_remote_token (token # rest)
      then (case remote_token tp (rest ! 1) of
              None \<Rightarrow> Inl Undefined_behaviour
            | Some tp1 \<Rightarrow> topo_loop tp1 (drop 4 rest))
      else (case topo_step tp token of Inl e \<Rightarrow> Inl e | Inr tp1 \<Rightarrow> topo_loop tp1 rest))"
  by pat_completeness auto

termination topo_loop
  by (relation "measure (\<lambda>(_, tokens). length tokens)") auto

fun close_all :: "CXLController \<Rightarrow> CXLSwitch list \<Rightarrow> CXLController" where
  "close_all c [] = c"
| "close_all c [s] = c\<lparr>ct_switch := push_switch (ct_switch c) s\<rparr>"
| "close_all c (s # parent # ss) = close_all c (push_switch parent s # ss)"

definition construct_topo :: "CXLController \<Rightarrow> string \<Rightarrow> topo_error + CXLController" where
  "construct_topo c newick_tree =
     (case topo_loop \<lparr>tp_controller = c, tp_root_open = True, tp_open = []\<rparr> (tokenize newick_tree) of
        Inl e \<Rightarrow> Inl e
      | Inr tp \<Rightarrow> Inr (close_all (tp_controller tp) (tp_open tp)))"

section \<open>Specification\<close>

text \<open>A topology: the number of an expander, or a switch with its children.\<close>

datatype newick = Leaf string | Node "newick list"

fun newick_tokens :: "newick \<Rightarrow> string list"
  and newicks_tokens :: "newick list \<Rightarrow> string list" where
  "newick_tokens (Leaf w) = [w]"
| "newick_tokens (Node ts) = ''('' # newicks_tokens ts @ ['')'']"
| "newicks_tokens [] = []"
| "newicks_tokens [t] = newick_tokens t"
| "newicks_tokens (t # u # ts) = newick_tokens t @ '','' # newicks_tokens (u # ts)"

definition newick_string :: "newick \<Rightarrow> string" where
  "newick_string t = concat (newick_tokens t)"

text \<open>The words of the leaves name one of \<open>n\<close> expanders.\<close>

definition leaf_ok :: "nat \<Rightarrow> string \<Rightarrow> bool" where
  "leaf_ok n w \<longleftrightarrow> w \<noteq> [] \<and> list_all (\<lambda>ch. \<not> is_delimiter ch) w \<and> w \<noteq> '';'' \<and> w \<noteq> ''R''
     \<and> 1 \<le> atoi w \<and> atoi w \<le> int n"

fun newick_ok :: "nat \<Rightarrow> newick \<Rightarrow> bool"
  and newicks_ok :: "nat \<Rightarrow> newick list \<Rightarrow> bool" where
  "newick_ok n (Leaf w) \<longleftrightarrow> leaf_ok n w"
| "newick_ok n (Node ts) \<longleftrightarrow> newicks_ok n ts"
| "newicks_ok n [] \<longleftrightarrow> True"
| "newicks_ok n (t # ts) \<longleftrightarrow> newick_ok n t \<and> newicks_ok n ts"

text \<open>
  What a topology means: the switch that is being filled, the number of the next switch, the number
  of the next endpoint, and the device map.
\<close>

type_synonym fill_state = "CXLSwitch \<times> int \<times> int \<times> (int \<rightharpoonup> nat)"

fun fill :: "nat list \<Rightarrow> newick \<Rightarrow> fill_state \<Rightarrow> fill_state"
  and fills :: "nat list \<Rightarrow> newick list \<Rightarrow> fill_state \<Rightarrow> fill_state" where
  "fill cur (Leaf w) (s, n, e, m) =
     (let p = cur ! nat (atoi w - 1) in (push_expander s p, n, e + 1, m(e \<mapsto> p)))"
| "fill cur (Node ts) (s, n, e, m) =
     (case fills cur ts (new_CXLSwitch n, n + 1, e, m) of
        (child, n1, e1, m1) \<Rightarrow> (push_switch s child, n1, e1, m1))"
| "fills cur [] st = st"
| "fills cur (t # ts) st = fills cur ts (fill cur t st)"

definition with_topology :: "CXLController \<Rightarrow> fill_state \<Rightarrow> CXLController" where
  "with_topology c = (\<lambda>(s, n, e, m).
     c\<lparr>ct_switch := s, ct_num_switches := n, ct_num_end_points := e, ct_device_map := m\<rparr>)"

text \<open>The state of the parser as that of \<^const>\<open>fill\<close>: the innermost open switch is being filled.\<close>

definition topo_get :: "topo \<Rightarrow> fill_state" where
  "topo_get tp =
     (let c = tp_controller tp
      in (case tp_open tp of [] \<Rightarrow> ct_switch c | s # _ \<Rightarrow> s,
          ct_num_switches c, ct_num_end_points c, ct_device_map c))"

definition topo_put :: "topo \<Rightarrow> fill_state \<Rightarrow> topo" where
  "topo_put tp = (\<lambda>(s, n, e, m).
     let c = (tp_controller tp)\<lparr>ct_num_switches := n, ct_num_end_points := e, ct_device_map := m\<rparr>
     in case tp_open tp of
          [] \<Rightarrow> tp\<lparr>tp_controller := c\<lparr>ct_switch := s\<rparr>\<rparr>
        | _ # ss \<Rightarrow> tp\<lparr>tp_controller := c, tp_open := s # ss\<rparr>)"

definition topo_active :: "topo \<Rightarrow> bool" where
  "topo_active tp \<longleftrightarrow> (tp_open tp \<noteq> [] \<or> tp_root_open tp) \<and> 0 < ct_num_switches (tp_controller tp)"

text \<open>The rest of the input starts with a delimiter, or is empty.\<close>

definition delimited :: "string \<Rightarrow> bool" where
  "delimited cs \<longleftrightarrow> cs = [] \<or> is_delimiter (hd cs)"

definition example_topology :: newick where
  "example_topology = Node [Leaf ''1'', Node [Leaf ''1'']]"

section \<open>Tokenizer\<close>

lemma tokenize_word:
  assumes "list_all (\<lambda>ch. \<not> is_delimiter ch) w"
  shows "tokenize_loop (w @ cs) tmp res = tokenize_loop cs (tmp @ w) res"
  using assms by (induction w arbitrary: tmp) auto

lemma tokenize_flush:
  "delimited cs \<Longrightarrow> tmp \<noteq> [] \<Longrightarrow> tokenize_loop cs tmp res = tokenize_loop cs [] (res @ [tmp])"
  by (cases cs) (auto simp: delimited_def)

lemma tokenize_delimiter:
  "is_delimiter ch \<Longrightarrow> tokenize_loop (ch # cs) [] res = tokenize_loop cs [] (res @ [[ch]])"
  by simp

lemma delimiters [simp]:
  "is_delimiter CHR ''(''" "is_delimiter CHR '')''" "is_delimiter CHR '',''"
  by (simp_all add: is_delimiter_def)

lemma tokenize_newick:
  "newick_ok n t \<Longrightarrow> delimited cs \<Longrightarrow>
     tokenize_loop (concat (newick_tokens t) @ cs) [] res = tokenize_loop cs [] (res @ newick_tokens t)"
  "newicks_ok n ts \<Longrightarrow> delimited cs \<Longrightarrow>
     tokenize_loop (concat (newicks_tokens ts) @ cs) [] res = tokenize_loop cs [] (res @ newicks_tokens ts)"
proof (induction t and ts arbitrary: cs res and cs res rule: newick_tokens_newicks_tokens.induct)
  case (1 w)
  then show ?case
    by (auto simp: leaf_ok_def tokenize_word tokenize_flush)
next
  case (2 ts)
  have "delimited (CHR '')'' # cs)"
    by (simp add: delimited_def)
  with 2 show ?case
    by simp
next
  case (5 t u ts)
  have "delimited (CHR '','' # concat (newicks_tokens (u # ts)) @ cs)"
    by (simp add: delimited_def)
  with 5 show ?case
    by simp
qed simp_all

lemma tokenize_newick_string: "newick_ok n t \<Longrightarrow> tokenize (newick_string t) = newick_tokens t"
  using tokenize_newick(1) [of n t "[]" "[]"] by (simp add: tokenize_def newick_string_def delimited_def)

section \<open>Parser\<close>

lemma topo_get_put [simp]: "topo_get (topo_put tp st) = st"
  by (cases st) (simp add: topo_get_def topo_put_def Let_def split: list.splits)

lemma topo_put_get_id [simp]: "topo_put tp (topo_get tp) = tp"
  by (cases tp) (simp add: topo_put_def topo_get_def Let_def split: list.splits)

lemma topo_put_put [simp]: "topo_put (topo_put tp st) st' = topo_put tp st'"
  by (cases st; cases st') (simp add: topo_put_def Let_def split: list.splits)

lemma topo_put_cur [simp]: "ct_cur_expanders (tp_controller (topo_put tp st)) = ct_cur_expanders (tp_controller tp)"
  by (cases st) (simp add: topo_put_def Let_def split: list.splits)

lemma topo_active_put: "topo_active tp \<Longrightarrow> 0 < fst (snd st) \<Longrightarrow> topo_active (topo_put tp st)"
  by (cases st) (auto simp: topo_active_def topo_put_def Let_def split: list.splits)

lemma topo_active_get: "topo_active tp \<Longrightarrow> 0 < fst (snd (topo_get tp))"
  by (simp add: topo_active_def topo_get_def Let_def)

lemma fill_positive:
  "0 < fst (snd st) \<Longrightarrow> 0 < fst (snd (fill cur t st))"
  "0 < fst (snd st) \<Longrightarrow> 0 < fst (snd (fills cur ts st))"
  by (induction cur t st and cur ts st rule: fill_fills.induct) (auto simp: Let_def split: prod.splits)

lemma leaf_not_syntax:
  assumes "leaf_ok n w"
  shows "w \<noteq> ''(''" "w \<noteq> '')''" "w \<noteq> '',''" "w \<noteq> '';''" "\<not> is_remote_token (w # rest)"
  using assms by (auto simp: leaf_ok_def is_remote_token_def)

lemma syntax_not_remote [simp]:
  "\<not> is_remote_token (''('' # rest)" "\<not> is_remote_token ('')'' # rest)" "\<not> is_remote_token ('','' # rest)"
  by (simp_all add: is_remote_token_def)

lemma leaf_step:
  assumes "leaf_ok (length (ct_cur_expanders (tp_controller tp))) w" and "topo_active tp"
  shows "topo_step tp w = Inr (topo_put tp (fill (ct_cur_expanders (tp_controller tp)) (Leaf w) (topo_get tp)))"
  using assms leaf_not_syntax [OF assms(1)]
  by (auto simp: topo_step_def expander_token_def emplace_expander_def checked_def leaf_ok_def Let_def
      topo_active_def topo_put_def topo_get_def split: list.splits)

lemma node_steps:
  assumes "topo_active tp" and "topo_get tp = (s, n, e, m)"
  obtains tp1 where "topo_step tp ''('' = Inr tp1" "topo_active tp1"
    "topo_get tp1 = (new_CXLSwitch n, n + 1, e, m)"
    "ct_cur_expanders (tp_controller tp1) = ct_cur_expanders (tp_controller tp)"
    "\<And>child n1 e1 m1. topo_step (topo_put tp1 (child, n1, e1, m1)) '')'' =
       Inr (topo_put tp (push_switch s child, n1, e1, m1))"
proof -
  define tp1 where "tp1 = tp\<lparr>tp_controller := (tp_controller tp)\<lparr>ct_num_switches := n + 1\<rparr>,
    tp_open := new_CXLSwitch n # tp_open tp\<rparr>"
  have n: "ct_num_switches (tp_controller tp) = n" "0 < n"
    using assms by (auto simp: topo_get_def Let_def topo_active_def)
  have "topo_step tp ''('' = Inr tp1"
    using n assms(1) by (auto simp: topo_step_def open_switch_def checked_def Let_def tp1_def topo_active_def)
  moreover have "topo_active tp1" "topo_get tp1 = (new_CXLSwitch n, n + 1, e, m)"
    "ct_cur_expanders (tp_controller tp1) = ct_cur_expanders (tp_controller tp)"
    using assms n by (simp_all add: tp1_def topo_active_def topo_get_def Let_def)
  moreover have "topo_step (topo_put tp1 (child, n1, e1, m1)) '')'' =
      Inr (topo_put tp (push_switch s child, n1, e1, m1))" for child n1 e1 m1
    using assms by (auto simp: topo_step_def close_switch_def attach_switch_def checked_def Let_def
        tp1_def topo_put_def topo_get_def split: list.splits)
  ultimately show ?thesis
    by (rule that)
qed

lemma topo_loop_step:
  "\<not> is_remote_token (token # rest) \<Longrightarrow> topo_step tp token = Inr tp1 \<Longrightarrow>
     topo_loop tp (token # rest) = topo_loop tp1 rest"
  by simp

lemma parse_newick:
  fixes tp rest
  defines "cur \<equiv> ct_cur_expanders (tp_controller tp)"
  assumes "topo_active tp"
  shows "newick_ok (length cur) t \<Longrightarrow>
      topo_loop tp (newick_tokens t @ rest) = topo_loop (topo_put tp (fill cur t (topo_get tp))) rest"
    and "newicks_ok (length cur) ts \<Longrightarrow>
      topo_loop tp (newicks_tokens ts @ rest) = topo_loop (topo_put tp (fills cur ts (topo_get tp))) rest"
  using assms(2) unfolding cur_def
proof (induction t and ts arbitrary: tp rest and tp rest rule: newick_tokens_newicks_tokens.induct)
  case (1 w)
  then have ok: "leaf_ok (length (ct_cur_expanders (tp_controller tp))) w"
    by simp
  show ?case
    using topo_loop_step [OF leaf_not_syntax(5) [OF ok] leaf_step [OF ok 1(2)]] by simp
next
  case (2 ts)
  obtain s n e m where st: "topo_get tp = (s, n, e, m)"
    by (metis prod_cases4)
  obtain tp1 where tp1: "topo_step tp ''('' = Inr tp1" "topo_active tp1"
    "topo_get tp1 = (new_CXLSwitch n, n + 1, e, m)"
    "ct_cur_expanders (tp_controller tp1) = ct_cur_expanders (tp_controller tp)"
    "\<And>child n1 e1 m1. topo_step (topo_put tp1 (child, n1, e1, m1)) '')'' =
       Inr (topo_put tp (push_switch s child, n1, e1, m1))"
    using node_steps [OF 2(3) st] by blast
  obtain child n1 e1 m1 where
    f: "fills (ct_cur_expanders (tp_controller tp)) ts (new_CXLSwitch n, n + 1, e, m) = (child, n1, e1, m1)"
    by (metis prod_cases4)
  have "topo_loop tp (newick_tokens (Node ts) @ rest) = topo_loop tp1 (newicks_tokens ts @ '')'' # rest)"
    using tp1(1) by simp
  also have "\<dots> = topo_loop (topo_put tp1 (child, n1, e1, m1)) ('')'' # rest)"
    using 2(1) [OF _ tp1(2)] 2(2) tp1(3,4) f by simp
  also have "\<dots> = topo_loop (topo_put tp (push_switch s child, n1, e1, m1)) rest"
    by (rule topo_loop_step [OF _ tp1(5)]) simp
  finally show ?case
    using st f by simp
next
  case (5 t u ts)
  let ?cur = "ct_cur_expanders (tp_controller tp)"
  let ?tp1 = "topo_put tp (fill ?cur t (topo_get tp))"
  have act: "topo_active ?tp1"
    using 5(4) by (intro topo_active_put fill_positive topo_active_get)
  have "topo_loop tp (newicks_tokens (t # u # ts) @ rest)
      = topo_loop ?tp1 ('','' # newicks_tokens (u # ts) @ rest)"
    using 5(1) [OF _ 5(4)] 5(3) by simp
  also have "\<dots> = topo_loop ?tp1 (newicks_tokens (u # ts) @ rest)"
    by (rule topo_loop_step) (simp_all add: topo_step_def)
  also have "\<dots> = topo_loop (topo_put tp (fills ?cur (t # u # ts) (topo_get tp))) rest"
    using 5(2) [OF _ act] 5(3) by simp
  finally show ?case .
qed simp_all

lemma construct_newick:
  assumes "newicks_ok (length (ct_cur_expanders c)) ts" and "ct_num_switches c = 0"
  defines "c' \<equiv> with_topology c
    (fills (ct_cur_expanders c) ts (ct_switch c, 1, ct_num_end_points c, ct_device_map c))"
  shows "topo_loop \<lparr>tp_controller = c, tp_root_open = True, tp_open = []\<rparr> (newick_tokens (Node ts) @ rest)
    = topo_loop \<lparr>tp_controller = c', tp_root_open = False, tp_open = []\<rparr> rest"
proof -
  let ?tp = "\<lparr>tp_controller = c\<lparr>ct_num_switches := 1\<rparr>, tp_root_open = True, tp_open = []\<rparr>"
  have act: "topo_active ?tp"
    by (simp add: topo_active_def)
  have get: "topo_get ?tp = (ct_switch c, 1, ct_num_end_points c, ct_device_map c)"
    by (simp add: topo_get_def)
  have put: "topo_put ?tp st = \<lparr>tp_controller = with_topology c st, tp_root_open = True, tp_open = []\<rparr>" for st
    by (cases st) (simp add: topo_put_def with_topology_def)
  have "topo_loop \<lparr>tp_controller = c, tp_root_open = True, tp_open = []\<rparr> (newick_tokens (Node ts) @ rest)
      = topo_loop ?tp (newicks_tokens ts @ '')'' # rest)"
    using assms(2) by (simp add: topo_step_def)
  also have "\<dots> = topo_loop \<lparr>tp_controller = c', tp_root_open = True, tp_open = []\<rparr> ('')'' # rest)"
    using parse_newick(2) [OF act, of ts "'')'' # rest"] assms(1) by (simp add: get put c'_def)
  also have "\<dots> = topo_loop \<lparr>tp_controller = c', tp_root_open = False, tp_open = []\<rparr> rest"
    by (simp add: topo_step_def close_switch_def checked_def)
  finally show ?thesis .
qed

text \<open>
  C11. Building a topology from its description gives the tree it describes: for every nested list of
  expander numbers, printed with parentheses and commas, the controller gets its expanders and
  switches in that order, one switch per inner list, and the device map numbers the expanders in the
  order of the text.
\<close>

theorem construct_topo_builds_tree:
  assumes "newicks_ok (length (ct_cur_expanders c)) ts" and "ct_num_switches c = 0"
  shows "construct_topo c (newick_string (Node ts)) = Inr (with_topology c
    (fills (ct_cur_expanders c) ts (ct_switch c, 1, ct_num_end_points c, ct_device_map c)))"
proof -
  have "tokenize (newick_string (Node ts)) = newick_tokens (Node ts)"
    using assms(1) by (intro tokenize_newick_string) simp
  then show ?thesis
    using construct_newick [OF assms, of "[]"] by (simp add: construct_topo_def)
qed

lemma atoi_1: "atoi ''1'' = 1"
  by (simp add: atoi_def is_space_def digit_value_def)

lemma example_leaf_ok: "leaf_ok (Suc 0) ''1''"
  by (simp add: leaf_ok_def is_delimiter_def atoi_1)

theorem construct_topo_builds_tree_witness:
  "construct_topo example_controller ''(1,(1))'' = Inr (with_topology example_controller
     (CXLSwitch [0] [CXLSwitch [0] [] new_CXLSwitchEvent 1 0 0 (2 / 100)] new_CXLSwitchEvent 0 0 0 (2 / 100),
      2, 2, [0 \<mapsto> 0, 1 \<mapsto> 0]))"
proof -
  have "newicks_ok (length (ct_cur_expanders example_controller)) [Leaf ''1'', Node [Leaf ''1'']]"
    by (simp add: example_leaf_ok example_controller_def)
  from construct_topo_builds_tree [OF this] show ?thesis
    by (simp add: newick_string_def example_controller_def new_CXLController_def new_CXLSwitch_def
        push_expander_def push_switch_def atoi_1)
qed

text \<open>
  C39. A closing parenthesis too many is reported: after any well-formed description, one more is
  rejected with the exception of the parser.
\<close>

theorem construct_topo_surplus:
  assumes "newicks_ok (length (ct_cur_expanders c)) ts" and "ct_num_switches c = 0"
  shows "construct_topo c (newick_string (Node ts) @ '')'') = Inl Invalid_argument"
proof -
  have "delimited '')''"
    by (simp add: delimited_def)
  then have "tokenize (newick_string (Node ts) @ '')'') = newick_tokens (Node ts) @ ['')'']"
    using tokenize_newick(1) [of "length (ct_cur_expanders c)" "Node ts" "'')''" "[]"] assms(1)
    by (simp add: tokenize_def newick_string_def)
  then show ?thesis
    using construct_newick [OF assms, of "['')'']"]
    by (simp add: construct_topo_def topo_step_def close_switch_def checked_def)
qed

theorem construct_topo_surplus_witness:
  "construct_topo example_controller ''(1))'' = Inl Invalid_argument"
proof -
  have "newicks_ok (length (ct_cur_expanders example_controller)) [Leaf ''1'']"
    by (simp add: example_leaf_ok example_controller_def)
  from construct_topo_surplus [OF this] show ?thesis
    by (simp add: newick_string_def example_controller_def new_CXLController_def)
qed

text \<open>A missing closing parenthesis is not reported.\<close>

lemma construct_topo_missing_paren: "\<exists>c. construct_topo example_controller ''(1'' = Inr c"
  by (simp add: construct_topo_def tokenize_def is_delimiter_def topo_step_def is_remote_token_def
      expander_token_def atoi_1 emplace_expander_def checked_def example_controller_def
      new_CXLController_def Let_def)

text \<open>
  A remote endpoint is registered twice: \<open>add_remote_endpoint\<close> puts it into the controller's
  expanders, and the parser puts it into the switch that is open, which is the controller here.
\<close>

lemma remote_token_twice:
  assumes "tp_open tp = []" and "tp_root_open tp"
  shows "\<exists>tp'. remote_token tp node = Some tp' \<and>
    cs_expanders (ct_switch (tp_controller tp')) = cs_expanders (ct_switch (tp_controller tp))
      @ [ct_next_ptr (tp_controller tp), ct_next_ptr (tp_controller tp)]"
  using assms by (simp add: remote_token_def add_remote_endpoint_def new_endpoint_def emplace_expander_def
      push_expander_def Let_def)

end
