(* ===== verification/CXL_Controller.thy ===== *)
theory CXL_Controller
  imports Topology
begin

text \<open>
  The controller of \<open>src/cxlcontroller.cpp\<close>, which ties the components together: it looks an access up
  in its cache, routes it through the HDM decoder or the allocation policy to an endpoint, charges
  page table walks, counts the access, and from time to time runs migration and back-invalidation; it
  feeds branch records through the reorder buffer of a thread and adds up latencies over the tree.

  The controller is its base class \<open>CXLSwitch\<close>, the field \<open>ct_switch\<close>, and its own members.  Every
  operation is a function on the controller; \<^const>\<open>None\<close> is undefined behaviour (a null policy, the
  front of an empty queue, a dangling engine) or a policy that does not return.

  The lemmas show that every access is counted once under exactly one heading, that repeated accesses
  hit the cache, that in distributed mode an access always completes, that back-invalidation leaves
  no copy behind, that the reorder buffer window stays within its size for one thread, and that
  migration never moves anything.
\<close>

section \<open>The tree and its environment\<close>

definition controller_fabric :: "CXLController \<Rightarrow> fabric" where
  "controller_fabric c =
     \<lparr>fb_heap = ct_heap c, fb_env = \<lparr>fe_engine = ct_coherency c, fe_logp = ct_logp_model c\<rparr>\<rparr>"

definition set_fabric :: "CXLController \<Rightarrow> fabric \<Rightarrow> CXLController" where
  "set_fabric c fb =
     c\<lparr>ct_heap := fb_heap fb, ct_coherency := fe_engine (fb_env fb), ct_logp_model := fe_logp (fb_env fb)\<rparr>"

definition controller_calculate_latency ::
  "CXLController \<Rightarrow> access list \<Rightarrow> real \<Rightarrow> (real \<times> CXLController) option" where
  "controller_calculate_latency c elems dramlatency =
     map_option (\<lambda>(lat, fb). (lat, set_fabric c fb))
       (switch_calculate_latency (controller_fabric c) (ct_switch c) elems dramlatency)"

definition controller_calculate_bandwidth :: "CXLController \<Rightarrow> access list \<Rightarrow> real" where
  "controller_calculate_bandwidth c elems = switch_calculate_bandwidth (ct_heap c) (ct_switch c) elems"

definition controller_delete_entry :: "CXLController \<Rightarrow> u64 \<Rightarrow> u64 \<Rightarrow> CXLController" where
  "controller_delete_entry c addr len =
     c\<lparr>ct_heap := switch_delete_entry (ct_heap c) (ct_switch c) addr len\<rparr>"

definition controller_get_access :: "CXLController \<Rightarrow> u64 \<Rightarrow> access list \<times> CXLController" where
  "controller_get_access c ts =
     (case switch_get_access (ct_heap c) (ct_switch c) ts of (res, h) \<Rightarrow> (res, c\<lparr>ct_heap := h\<rparr>))"

definition controller_calculate_congestion :: "CXLController \<Rightarrow> real \<times> u64 list \<times> CXLController" where
  "controller_calculate_congestion c =
     (case switch_calculate_congestion (ct_heap c) (ct_switch c) of
        (lat, con, s) \<Rightarrow> (lat, con, c\<lparr>ct_switch := s\<rparr>))"

definition controller_set_epoch :: "CXLController \<Rightarrow> int \<Rightarrow> CXLController" where
  "controller_set_epoch c epoch = c\<lparr>ct_switch := switch_set_epoch (ct_switch c) epoch\<rparr>"

section \<open>Migration\<close>

abbreviation holds_address :: "occupation_info list \<Rightarrow> u64 \<Rightarrow> bool" where
  "holds_address infos addr \<equiv> \<exists>info \<in> set infos. oi_address info = addr"

definition find_expander :: "heap \<Rightarrow> nat list \<Rightarrow> u64 \<Rightarrow> nat option" where
  "find_expander h ps addr = find (\<lambda>p. holds_address (endpoint_occupation (h p)) addr) ps"

fun find_in_switch :: "heap \<Rightarrow> CXLSwitch \<Rightarrow> u64 \<Rightarrow> nat option"
  and find_in_switches :: "heap \<Rightarrow> CXLSwitch list \<Rightarrow> u64 \<Rightarrow> nat option" where
  "find_in_switch h (CXLSwitch es ss c i ep ts cl) addr =
     (case find_expander h es addr of
        Some p \<Rightarrow> Some p
      | None \<Rightarrow> find_in_switches h ss addr)"
| "find_in_switches h [] addr = None"
| "find_in_switches h (s # ss) addr =
     (case find_in_switch h s addr of
        Some p \<Rightarrow> Some p
      | None \<Rightarrow> find_in_switches h ss addr)"

text \<open>\<open>occupation.emplace(ts, info)\<close> keeps an entry that is already there.\<close>

definition occupation_emplace :: "CXLController \<Rightarrow> u64 \<Rightarrow> occupation_info \<Rightarrow> CXLController" where
  "occupation_emplace c ts info =
     (if map_of (ct_occupation c) ts \<noteq> None then c
      else c\<lparr>ct_occupation := map_set ts info (ct_occupation c)\<rparr>)"

text \<open>From the controller to its first expander.\<close>

definition migrate_out_of_controller :: "CXLController \<Rightarrow> u64 \<Rightarrow> CXLController" where
  "migrate_out_of_controller c addr =
     (case (cs_expanders (ct_switch c), find (\<lambda>(ts, info). oi_address info = addr) (ct_occupation c)) of
        (dst # _, Some (ts, info)) \<Rightarrow>
          c\<lparr>ct_heap := heap_base (ct_heap c) dst
               (\<lambda>x. x\<lparr>me_occupation := me_occupation x @ [info],
                      me_counter := expander_increment MigrateIn (me_counter x)\<rparr>),
            ct_occupation := filter (\<lambda>(ts', _). ts' \<noteq> ts) (ct_occupation c)\<rparr>
      | _ \<Rightarrow> c)"

text \<open>The first page of the list with an address, and the list without it.\<close>

fun take_address :: "u64 \<Rightarrow> occupation_info list \<Rightarrow> (occupation_info \<times> occupation_info list) option" where
  "take_address addr [] = None"
| "take_address addr (info # infos) =
     (if oi_address info = addr then Some (info, infos)
      else map_option (\<lambda>(x, rest). (x, info # rest)) (take_address addr infos))"

definition migrate_into_controller :: "CXLController \<Rightarrow> nat \<Rightarrow> u64 \<Rightarrow> CXLController" where
  "migrate_into_controller c src addr =
     (case take_address addr (endpoint_occupation (ct_heap c src)) of
        None \<Rightarrow> c
      | Some (info, rest) \<Rightarrow>
          (occupation_emplace c (ct_last_timestamp c) info)
            \<lparr>ct_heap := heap_base (ct_heap c) src
               (\<lambda>x. x\<lparr>me_occupation := rest,
                      me_counter := expander_increment MigrateOut (me_counter x)\<rparr>)\<rparr>)"

definition migrate_one :: "CXLController \<Rightarrow> u64 \<Rightarrow> CXLController" where
  "migrate_one c addr =
     (if addr \<in> set (occupation_addresses c) then migrate_out_of_controller c addr
      else
        case (case find_expander (ct_heap c) (cs_expanders (ct_switch c)) addr of
                Some p \<Rightarrow> Some p
              | None \<Rightarrow> find_in_switch (ct_heap c) (ct_switch c) addr)
        of None \<Rightarrow> c
         | Some src \<Rightarrow> migrate_into_controller c src addr)"

definition perform_migration :: "CXLController \<Rightarrow> CXLController" where
  "perform_migration c =
     (case ct_migration_policy c of
        None \<Rightarrow> c
      | Some p \<Rightarrow> fold (\<lambda>(addr, len) c. migrate_one c addr) (get_migration_list p c) c)"

section \<open>Back-invalidation\<close>

text \<open>Erasing an address from the endpoints of a list: the number of erased pages, and the heap.\<close>

fun invalidate_in_list :: "heap \<Rightarrow> nat list \<Rightarrow> u64 \<Rightarrow> nat \<times> heap" where
  "invalidate_in_list h [] addr = (0, h)"
| "invalidate_in_list h (p # ps) addr =
     (let pages = endpoint_occupation (h p);
          kept = filter (\<lambda>info. oi_address info \<noteq> addr) pages;
          (n, h1) = invalidate_in_list (heap_base h p (\<lambda>x. x\<lparr>me_occupation := kept\<rparr>)) ps addr
      in (length pages - length kept + n, h1))"

fun invalidate_in_switch :: "heap \<Rightarrow> CXLSwitch \<Rightarrow> u64 \<Rightarrow> nat \<times> heap"
  and invalidate_in_switches :: "heap \<Rightarrow> CXLSwitch list \<Rightarrow> u64 \<Rightarrow> nat \<times> heap" where
  "invalidate_in_switch h (CXLSwitch es ss c i ep ts cl) addr =
     (let (n1, h1) = invalidate_in_list h es addr;
          (n2, h2) = invalidate_in_switches h1 ss addr
      in (n1 + n2, h2))"
| "invalidate_in_switches h [] addr = (0, h)"
| "invalidate_in_switches h (s # ss) addr =
     (let (n1, h1) = invalidate_in_switch h s addr;
          (n2, h2) = invalidate_in_switches h1 ss addr
      in (n1 + n2, h2))"

definition count_backinv :: "nat \<Rightarrow> CXLController \<Rightarrow> CXLController" where
  "count_backinv n c = c\<lparr>ct_counter := (inc_backinv ^^ n) (ct_counter c)\<rparr>"

definition invalidate_in_expanders :: "CXLController \<Rightarrow> u64 \<Rightarrow> CXLController" where
  "invalidate_in_expanders c addr =
     (let (n1, h1) = invalidate_in_list (ct_heap c) (cs_expanders (ct_switch c)) addr;
          (n2, h2) = invalidate_in_switches h1 (cs_switches (ct_switch c)) addr
      in count_backinv (n1 + n2) (c\<lparr>ct_heap := h2\<rparr>))"

fun invalidate_addresses :: "CXLController \<Rightarrow> u64 list \<Rightarrow> CXLController option" where
  "invalidate_addresses c [] = Some c"
| "invalidate_addresses c (addr # addrs) =
     (case lru_remove (ct_lru_cache c) addr of
        None \<Rightarrow> None
      | Some (removed, cache) \<Rightarrow>
          let c1 = c\<lparr>ct_lru_cache := cache\<rparr>;
              c2 = (if removed then count_backinv 1 c1 else c1)
          in invalidate_addresses (invalidate_in_expanders c2 addr) addrs)"

definition perform_back_invalidation :: "CXLController \<Rightarrow> CXLController option" where
  "perform_back_invalidation c =
     (case ct_caching_policy c of
        None \<Rightarrow> Some c
      | Some p \<Rightarrow>
          (case get_invalidation_list p c of
             (addrs, p1) \<Rightarrow> invalidate_addresses (c\<lparr>ct_caching_policy := Some p1\<rparr>) addrs))"

section \<open>Reorder buffer\<close>

definition lbr_llcm :: "lbr \<Rightarrow> nat" where
  "lbr_llcm l = unat (lb_flags l AND 0x3)"

definition lbr_ins :: "lbr \<Rightarrow> nat" where
  "lbr_ins l = unat (drop_bit 16 (lb_flags l AND 0xfffffff0000))"

text \<open>\<open>m_count[k] += d\<close>, creating the entry when it is missing.\<close>

definition add_m_count :: "int \<Rightarrow> int \<Rightarrow> rob_info \<Rightarrow> rob_info" where
  "add_m_count k d rob =
     rob\<lparr>ri_m_count := (ri_m_count rob)
       (k \<mapsto> (case ri_m_count rob k of None \<Rightarrow> d | Some n \<Rightarrow> n + d))\<rparr>"

text \<open>The misses of a new record enter the buffer with the types that wait in \<open>llcm_type\<close>.\<close>

fun issue_misses :: "nat \<Rightarrow> thread_info \<Rightarrow> thread_info" where
  "issue_misses 0 t = t"
| "issue_misses (Suc n) t =
     (let types = (if ti_llcm_type t = [] then [0] else ti_llcm_type t);
          k = hd types
      in issue_misses n
           (t\<lparr>ti_rob := add_m_count k 1 (ti_rob t),
              ti_llcm_type_rob := ti_llcm_type_rob t @ [k],
              ti_llcm_type := tl types\<rparr>))"

text \<open>The misses of an old record leave the buffer.\<close>

fun retire_misses :: "nat \<Rightarrow> thread_info \<Rightarrow> thread_info option" where
  "retire_misses 0 t = Some t"
| "retire_misses (Suc n) t =
     (case ti_llcm_type_rob t of
        [] \<Rightarrow> None
      | k # ks \<Rightarrow>
          retire_misses n (t\<lparr>ti_rob := add_m_count k (- 1) (ti_rob t), ti_llcm_type_rob := ks\<rparr>))"

fun retire_loop :: "lbr list \<Rightarrow> thread_info \<Rightarrow> (lbr list \<times> thread_info) option" where
  "retire_loop [] t = (if ri_ins_count (ti_rob t) > ROB_SIZE then None else Some ([], t))"
| "retire_loop (old_lbr # ring) t =
     (if ri_ins_count (ti_rob t) > ROB_SIZE
      then
        let rob = ti_rob t;
            rob1 = rob\<lparr>ri_ins_count := ri_ins_count rob - int (lbr_ins old_lbr),
                       ri_llcm_count := ri_llcm_count rob - int (lbr_llcm old_lbr),
                       ri_llcm_base := ri_llcm_base rob + int (lbr_llcm old_lbr)\<rparr>
        in (case retire_misses (lbr_llcm old_lbr) (t\<lparr>ti_rob := rob1\<rparr>) of
              None \<Rightarrow> None
            | Some t1 \<Rightarrow> retire_loop ring t1)
      else Some (old_lbr # ring, t))"

definition insert_one :: "lbr list \<Rightarrow> thread_info \<Rightarrow> lbr \<Rightarrow> (lbr list \<times> thread_info) option" where
  "insert_one ring t_info lbr =
     (let t1 = issue_misses (lbr_llcm lbr) t_info;
          rob = ti_rob t1;
          rob1 = rob\<lparr>ri_llcm_count := ri_llcm_count rob + int (lbr_llcm lbr),
                     ri_ins_count := ri_ins_count rob + int (lbr_ins lbr)\<rparr>
      in retire_loop (ring @ [lbr]) (t1\<lparr>ti_rob := rob1\<rparr>))"

fun insert_records :: "lbr list \<Rightarrow> thread_info \<Rightarrow> lbr list \<Rightarrow> (lbr list \<times> thread_info) option" where
  "insert_records ring t_info [] = Some (ring, t_info)"
| "insert_records ring t_info (l # ls) =
     (if lb_from l = 0 then Some (ring, t_info)
      else case insert_one ring t_info l of
             None \<Rightarrow> None
           | Some (ring1, t1) \<Rightarrow> insert_records ring1 t1 ls)"

text \<open>\<open>thread_map[tid]\<close>\<close>

definition thread_at :: "CXLController \<Rightarrow> u64 \<Rightarrow> thread_info" where
  "thread_at c tid = (case ct_thread_map c tid of Some t \<Rightarrow> t | None \<Rightarrow> new_thread_info)"

definition set_thread :: "CXLController \<Rightarrow> u64 \<Rightarrow> thread_info \<Rightarrow> CXLController" where
  "set_thread c tid t = c\<lparr>ct_thread_map := (ct_thread_map c)(tid \<mapsto> t)\<rparr>"

fun expanders_rob_latency ::
  "heap \<Rightarrow> nat list \<Rightarrow> access list \<Rightarrow> thread_info \<Rightarrow> real \<Rightarrow> real \<Rightarrow> real \<times> heap" where
  "expanders_rob_latency h [] all_access t dram total_latency = (total_latency, h)"
| "expanders_rob_latency h (p # ps) all_access t dram total_latency =
     (let lat = fst (get_endpoint_rob_latency (base_expander (h p)) all_access t dram);
          h1 = heap_base h p (\<lambda>x. snd (get_endpoint_rob_latency x all_access t dram))
      in expanders_rob_latency h1 ps all_access t dram (total_latency + lat))"

fun dfs_calculate ::
  "heap \<Rightarrow> CXLSwitch \<Rightarrow> access list \<Rightarrow> thread_info \<Rightarrow> real \<Rightarrow> real \<Rightarrow> real \<times> heap"
  and dfs_calculates ::
  "heap \<Rightarrow> CXLSwitch list \<Rightarrow> access list \<Rightarrow> thread_info \<Rightarrow> real \<Rightarrow> real \<Rightarrow> real \<times> heap" where
  "dfs_calculate h (CXLSwitch es ss c i ep ts cl) all_access t dram total_latency =
     (let (lat, h1) = expanders_rob_latency h es all_access t dram total_latency
      in dfs_calculates h1 ss all_access t dram lat)"
| "dfs_calculates h [] all_access t dram total_latency = (total_latency, h)"
| "dfs_calculates h (s # ss) all_access t dram total_latency =
     (let (lat, h1) = dfs_calculate h s all_access t dram total_latency
      in dfs_calculates h1 ss all_access t dram lat)"

definition insert_lbrs :: "CXLController \<Rightarrow> u64 \<Rightarrow> u64 \<Rightarrow> lbr list \<Rightarrow> (int \<times> CXLController) option" where
  "insert_lbrs c timestamp tid lbrs =
     (case insert_records (ct_ring_buffer c) (thread_at c tid) (take 32 lbrs) of
        None \<Rightarrow> None
      | Some (ring, t_info) \<Rightarrow>
          let c1 = set_thread (c\<lparr>ct_ring_buffer := ring\<rparr>) tid t_info;
              (all_access, c2) = controller_get_access c1 timestamp;
              (total_latency, h) =
                dfs_calculate (ct_heap c2) (ct_switch c2) all_access t_info (ct_dramlatency c2) 0;
              (congestion, _, c3) = controller_calculate_congestion (c2\<lparr>ct_heap := h\<rparr>);
              c4 = c3\<lparr>ct_latency_lat := ct_latency_lat c3 + max (total_latency + congestion) 0\<rparr>
          in Some (0, c4\<lparr>ct_bandwidth_lat :=
                      ct_bandwidth_lat c4 + max (controller_calculate_bandwidth c4 all_access) 0\<rparr>))"

section \<open>An access\<close>

definition access_cache :: "CXLController \<Rightarrow> u64 \<Rightarrow> u64 \<Rightarrow> (u64 option \<times> CXLController) option" where
  "access_cache c addr ts =
     map_option (\<lambda>(r, cache). (r, c\<lparr>ct_lru_cache := cache\<rparr>)) (lru_get (ct_lru_cache c) addr ts)"

definition update_cache :: "CXLController \<Rightarrow> u64 \<Rightarrow> u64 \<Rightarrow> u64 \<Rightarrow> CXLController option" where
  "update_cache c addr val ts =
     map_option (\<lambda>cache. c\<lparr>ct_lru_cache := cache\<rparr>) (lru_put (ct_lru_cache c) addr val ts)"

definition push_type :: "CXLController \<Rightarrow> u64 \<Rightarrow> int \<Rightarrow> CXLController" where
  "push_type c tid k =
     (let t = thread_at c tid in set_thread c tid (t\<lparr>ti_llcm_type := ti_llcm_type t @ [k]\<rparr>))"

definition count_access :: "EventType \<Rightarrow> CXLController \<Rightarrow> CXLController" where
  "count_access ev c = c\<lparr>ct_counter := counter_increment ev (ct_counter c)\<rparr>"

definition walk_page_table ::
  "CXLController \<Rightarrow> u64 \<Rightarrow> u64 \<Rightarrow> bool \<Rightarrow> (u64 \<times> CXLController) option" where
  "walk_page_table c virt_addr phys_addr is_remote =
     (case ct_paging_policy c of
        None \<Rightarrow> Some (0, c)
      | Some p \<Rightarrow>
          map_option
            (\<lambda>(ptw_latency, p1).
               (ptw_latency,
                c\<lparr>ct_paging_policy := Some p1,
                  ct_latency_lat := (if ptw_latency > 0
                    then ct_latency_lat c + double_of_u64 ptw_latency else ct_latency_lat c)\<rparr>))
            (check_page_table_walk p virt_addr phys_addr is_remote (ct_page_type c)))"

definition cache_if_allowed :: "CXLController \<Rightarrow> CachingPolicy \<Rightarrow> u64 \<Rightarrow> u64 \<Rightarrow> CXLController option" where
  "cache_if_allowed c p phys_addr ts =
     (case should_cache p phys_addr ts of
        (allowed, p1) \<Rightarrow>
          let c1 = c\<lparr>ct_caching_policy := Some p1\<rparr>
          in if allowed then update_cache c1 phys_addr phys_addr ts else Some c1)"

text \<open>\<open>x->insert(ts, tid, phys_addr, virt_addr, x->id)\<close> for the endpoint at address \<open>p\<close>\<close>

definition insert_at :: "CXLController \<Rightarrow> nat \<Rightarrow> u64 \<Rightarrow> u64 \<Rightarrow> u64 \<Rightarrow> u64 \<Rightarrow> CXLController" where
  "insert_at c p ts tid phys_addr virt_addr =
     (let x = ct_heap c p
      in c\<lparr>ct_heap := (ct_heap c)
             (p := snd (endpoint_insert x ts tid phys_addr virt_addr (endpoint_id x)))\<rparr>)"

text \<open>
  The record of a local access.  The braces give the three values in the order of the fields, which
  are the time stamp, the address and the access count.
\<close>

definition occupy_local :: "CXLController \<Rightarrow> u64 \<Rightarrow> u64 \<Rightarrow> u64 \<Rightarrow> CXLController" where
  "occupy_local c ts ptw_latency phys_addr =
     occupation_emplace c ts
       \<lparr>oi_timestamp = phys_addr, oi_address = 1, oi_access_count = ts + ptw_latency\<rparr>"

text \<open>The path through the HDM decoder: the access goes to the endpoint the decoder names.\<close>

definition route_decoded ::
  "CXLController \<Rightarrow> DecodeResult \<Rightarrow> u64 \<Rightarrow> u64 \<Rightarrow> u64 \<Rightarrow> u64 \<Rightarrow> u64 \<Rightarrow> CXLController" where
  "route_decoded c decode_result ts ptw_latency tid phys_addr virt_addr =
     (if dr_is_remote decode_result
      then
        let c1 = (case get_remote_expander c (dr_target_id decode_result) of
                    Some p \<Rightarrow> insert_at c p (ts + ptw_latency) tid phys_addr virt_addr
                  | None \<Rightarrow> c)
        in push_type (count_access Remote c1) tid 1
      else
        let c1 = (case ct_device_map c (sint (dr_target_id decode_result)) of
                    Some p \<Rightarrow> insert_at c p (ts + ptw_latency) tid phys_addr virt_addr
                  | None \<Rightarrow> occupy_local c ts ptw_latency phys_addr)
        in push_type (count_access Local c1) tid 0)"

definition access_decoded ::
  "CXLController \<Rightarrow> HDMDecoder \<Rightarrow> u64 \<Rightarrow> u64 \<Rightarrow> u64 \<Rightarrow> u64 \<Rightarrow> CXLController option" where
  "access_decoded c hdm ts tid phys_addr virt_addr =
     (let decode_result = decode hdm phys_addr in
      case walk_page_table c virt_addr phys_addr (dr_is_remote decode_result) of
        None \<Rightarrow> None
      | Some (ptw_latency, c1) \<Rightarrow>
          let c2 = route_decoded c1 decode_result ts ptw_latency tid phys_addr virt_addr
          in case ct_caching_policy c2 of
               None \<Rightarrow> Some c2
             | Some p \<Rightarrow> cache_if_allowed c2 p phys_addr ts)"

text \<open>
  \<open>res &= x->insert(...)\<close>, with \<open>res\<close> a \<open>bool\<close> and the result of \<open>insert\<close> an \<open>int\<close>: a bitwise
  conjunction with 0 or 1.
\<close>

definition and_result :: "bool \<Rightarrow> int \<Rightarrow> bool" where
  "and_result res ret \<longleftrightarrow> (of_bool res AND ret) \<noteq> 0"

fun insert_into_switches ::
  "heap \<Rightarrow> CXLSwitch list \<Rightarrow> u64 \<Rightarrow> u64 \<Rightarrow> u64 \<Rightarrow> u64 \<Rightarrow> int \<Rightarrow> bool \<Rightarrow> bool \<times> CXLSwitch list \<times> heap" where
  "insert_into_switches h [] ts tid phys virt index res = (res, [], h)"
| "insert_into_switches h (s # ss) ts tid phys virt index res =
     (let (ret, s1, h1) = switch_insert h s ts tid phys virt index;
          (res1, ss1, h2) = insert_into_switches h1 ss ts tid phys virt index (and_result res ret)
      in (res1, s1 # ss1, h2))"

fun insert_into_expanders ::
  "heap \<Rightarrow> nat list \<Rightarrow> u64 \<Rightarrow> u64 \<Rightarrow> u64 \<Rightarrow> u64 \<Rightarrow> int \<Rightarrow> bool \<Rightarrow> bool \<times> heap" where
  "insert_into_expanders h [] ts tid phys virt index res = (res, h)"
| "insert_into_expanders h (p # ps) ts tid phys virt index res =
     (let (ret, x) = endpoint_insert (h p) ts tid phys virt index
      in insert_into_expanders (h(p := x)) ps ts tid phys virt index (and_result res ret))"

definition set_switches :: "CXLSwitch list \<Rightarrow> CXLSwitch \<Rightarrow> CXLSwitch" where
  "set_switches ss s =
     CXLSwitch (cs_expanders s) ss (cs_counter s) (cs_id s) (cs_epoch s) (cs_last_timestamp s)
       (cs_congestion_latency s)"

definition insert_everywhere ::
  "CXLController \<Rightarrow> u64 \<Rightarrow> u64 \<Rightarrow> u64 \<Rightarrow> u64 \<Rightarrow> int \<Rightarrow> bool \<Rightarrow> bool \<times> CXLController" where
  "insert_everywhere c ts tid phys_addr virt_addr index res =
     (let (res1, ss, h1) =
            insert_into_switches (ct_heap c) (cs_switches (ct_switch c)) ts tid phys_addr virt_addr index res;
          (res2, h2) =
            insert_into_expanders h1 (cs_expanders (ct_switch c)) ts tid phys_addr virt_addr index res1
      in (res2, c\<lparr>ct_heap := h2, ct_switch := set_switches ss (ct_switch c)\<rparr>))"

text \<open>The path through the allocation policy.\<close>

definition access_allocated ::
  "CXLController \<Rightarrow> u64 \<Rightarrow> u64 \<Rightarrow> u64 \<Rightarrow> u64 \<Rightarrow> bool \<Rightarrow> (bool \<times> CXLController) option" where
  "access_allocated c ts tid phys_addr virt_addr res =
     (case ct_allocation_policy c of
        None \<Rightarrow> None
      | Some ap \<Rightarrow>
     (case allocation_compute_once ap c of
        None \<Rightarrow> None
      | Some (numa_policy, ap1) \<Rightarrow>
     (case walk_page_table (c\<lparr>ct_allocation_policy := Some ap1\<rparr>) virt_addr phys_addr (numa_policy \<noteq> - 1) of
        None \<Rightarrow> None
      | Some (ptw_latency, c1) \<Rightarrow>
          if numa_policy = - 1
          then map_option (\<lambda>c'. (res, c'))
                 (update_cache
                    (push_type (count_access Local (occupy_local c1 ts ptw_latency phys_addr)) tid 0)
                    phys_addr phys_addr ts)
          else
            let (res1, c2) = insert_everywhere (count_access Remote c1) (ts + ptw_latency) tid phys_addr
                  virt_addr numa_policy res;
                c3 = push_type c2 tid 1
            in case ct_caching_policy c3 of
                 None \<Rightarrow> None
               | Some p \<Rightarrow> map_option (\<lambda>c'. (res1, c')) (cache_if_allowed c3 p phys_addr ts))))"

text \<open>One round of the loop of \<open>insert\<close>, at the time stamp of the round.\<close>

definition access_one ::
  "CXLController \<Rightarrow> u64 \<Rightarrow> u64 \<Rightarrow> u64 \<Rightarrow> u64 \<Rightarrow> bool \<Rightarrow> (bool \<times> CXLController) option" where
  "access_one c ts tid phys_addr virt_addr res =
     (case access_cache c phys_addr ts of
        None \<Rightarrow> None
      | Some (Some _, c1) \<Rightarrow> Some (res, push_type (count_access Hitm c1) tid 0)
      | Some (None, c1) \<Rightarrow>
          (case ct_hdm_decoder c1 of
             Some hdm \<Rightarrow>
               map_option (\<lambda>c'. (res, c')) (access_decoded c1 hdm ts tid phys_addr virt_addr)
           | None \<Rightarrow> access_allocated c1 ts tid phys_addr virt_addr res))"

fun access_loop ::
  "nat \<Rightarrow> u64 \<Rightarrow> CXLController \<Rightarrow> u64 \<Rightarrow> u64 \<Rightarrow> u64 \<Rightarrow> u64 \<Rightarrow> bool \<Rightarrow> (bool \<times> CXLController) option" where
  "access_loop 0 time_step c ts tid phys virt res = Some (res, c)"
| "access_loop (Suc n) time_step c ts tid phys virt res =
     (case access_one c (ts + time_step) tid phys virt res of
        None \<Rightarrow> None
      | Some (res1, c1) \<Rightarrow> access_loop n time_step c1 (ts + time_step) tid phys virt res1)"

text \<open>What happens when the request counter reaches 1000.\<close>

definition housekeeping :: "CXLController \<Rightarrow> CXLController option" where
  "housekeeping c =
     (let c1 = (case ct_migration_policy c of
                  None \<Rightarrow> c
                | Some p \<Rightarrow>
                    (case migration_compute_once p c of
                       (r, p1) \<Rightarrow>
                         let c' = c\<lparr>ct_migration_policy := Some p1\<rparr>
                         in if r > 0 then perform_migration c' else c'))
      in map_option (\<lambda>c2. c2\<lparr>ct_request_counter := 0\<rparr>)
           (case ct_caching_policy c1 of
              None \<Rightarrow> Some c1
            | Some p \<Rightarrow>
                (case caching_compute_once p c1 of
                   None \<Rightarrow> None
                 | Some (r, p1, c') \<Rightarrow>
                     let c2 = c'\<lparr>ct_caching_policy := Some p1\<rparr>
                     in if r > 0 then perform_back_invalidation c2 else Some c2)))"

definition set_last_timestamp :: "u64 \<Rightarrow> CXLSwitch \<Rightarrow> CXLSwitch" where
  "set_last_timestamp ts s =
     CXLSwitch (cs_expanders s) (cs_switches s) (cs_counter s) (cs_id s) (cs_epoch s) ts
       (cs_congestion_latency s)"

definition controller_insert ::
  "CXLController \<Rightarrow> u64 \<Rightarrow> u64 \<Rightarrow> u64 \<Rightarrow> u64 \<Rightarrow> int \<Rightarrow> (bool \<times> CXLController) option" where
  "controller_insert c timestamp tid phys_addr virt_addr index =
     (let last_index = ct_last_index c;
          time_step = (if index > last_index
            then (timestamp - ct_last_timestamp c) div word_of_int (index - last_index) else 0)
      in
      case access_loop (nat (index - last_index)) time_step (set_thread c tid (thread_at c tid))
             (ct_last_timestamp c) tid phys_addr virt_addr True of
        None \<Rightarrow> None
      | Some (res, c1) \<Rightarrow>
          let c2 = c1\<lparr>ct_request_counter := ct_request_counter c1 + (index - last_index)\<rparr>
          in map_option
               (\<lambda>c3. (res, c3\<lparr>ct_last_index := (if index > 0 then index else last_index),
                              ct_switch := set_last_timestamp timestamp (ct_switch c3)\<rparr>))
               (if ct_request_counter c2 \<ge> 1000 then housekeeping c2 else Some c2))"

section \<open>LogP and MH-SLD\<close>

definition configure_logp :: "CXLController \<Rightarrow> LogPConfig \<Rightarrow> CXLController" where
  "configure_logp c config = c\<lparr>ct_logp_model := reconfigure (ct_logp_model c) config\<rparr>"

record TCPCalibrationResult =
  tr_L :: real
  tr_o_s :: real
  tr_o_r :: real
  tr_g :: real
  tr_samples :: u64
  tr_valid :: bool

definition calibrate_logp_from_tcp :: "CXLController \<Rightarrow> TCPCalibrationResult \<Rightarrow> CXLController" where
  "calibrate_logp_from_tcp c r =
     (if \<not> tr_valid r then c
      else
        let L = max (1 / 2) (min (tr_L r) 500);
            o_s = max (1 / 10) (min (tr_o_s r) 100);
            o_r = max (1 / 10) (min (tr_o_r r) 100);
            g = max (1 / 100) (min (tr_g r) 50)
        in c\<lparr>ct_logp_model := reconfigure (ct_logp_model c)
               \<lparr>lp_L = L * 1000, lp_o_s = o_s * 1000, lp_o_r = o_r * 1000, lp_g = g * 1000,
                lp_P = lp_P (lm_config (ct_logp_model c))\<rparr>\<rparr>)"

definition calculate_logp_latency :: "CXLController \<Rightarrow> u32 \<Rightarrow> u32 \<Rightarrow> u64 \<Rightarrow> real \<times> CXLController" where
  "calculate_logp_latency c src_node dst_node timestamp =
     (if src_node = dst_node then (0, c)
      else case message_latency (ct_logp_model c) timestamp dst_node of
             (lat, m) \<Rightarrow> (lat, c\<lparr>ct_logp_model := m\<rparr>))"

definition calculate_logp_broadcast_latency :: "CXLController \<Rightarrow> real" where
  "calculate_logp_broadcast_latency c = broadcast_latency (ct_logp_model c)"

definition enable_mhsld :: "CXLController \<Rightarrow> u32 \<Rightarrow> real \<Rightarrow> CXLController" where
  "enable_mhsld c num_heads bandwidth_gbps =
     (let xs = cur_expander_objects c;
          total_bytes = foldl (\<lambda>n x. n + me_capacity x * 1024 * 1024) 0 xs;
          (read_lat, write_lat) =
            (case xs of [] \<Rightarrow> (100, 150) | x # _ \<Rightarrow> (la_read (me_latency x), la_write (me_latency x)))
      in c\<lparr>ct_mhsld_device := Some (new_MHSLDDevice total_bytes num_heads read_lat write_lat
             bandwidth_gbps (lm_config (ct_logp_model c)))\<rparr>)"

definition mhsld_read :: "CXLController \<Rightarrow> u32 \<Rightarrow> u64 \<Rightarrow> u64 \<Rightarrow> real \<times> CXLController" where
  "mhsld_read c head_id addr timestamp =
     (case ct_mhsld_device c of
        None \<Rightarrow> (0, c)
      | Some dev \<Rightarrow>
          (case read_with_coherency dev head_id addr timestamp of
             (lat, dev1) \<Rightarrow> (lat, c\<lparr>ct_mhsld_device := Some dev1\<rparr>)))"

definition mhsld_write :: "CXLController \<Rightarrow> u32 \<Rightarrow> u64 \<Rightarrow> u64 \<Rightarrow> (real \<times> CXLController) option" where
  "mhsld_write c head_id addr timestamp =
     (case ct_mhsld_device c of
        None \<Rightarrow> Some (0, c)
      | Some dev \<Rightarrow>
          map_option (\<lambda>(lat, dev1). (lat, c\<lparr>ct_mhsld_device := Some dev1\<rparr>))
            (write_with_coherency dev head_id addr timestamp))"

definition mhsld_atomic :: "CXLController \<Rightarrow> u32 \<Rightarrow> u64 \<Rightarrow> u64 \<Rightarrow> (real \<times> CXLController) option" where
  "mhsld_atomic c head_id addr timestamp =
     (case ct_mhsld_device c of
        None \<Rightarrow> Some (0, c)
      | Some dev \<Rightarrow>
          map_option (\<lambda>(lat, dev1). (lat, c\<lparr>ct_mhsld_device := Some dev1\<rparr>))
            (atomic_with_coherency dev head_id addr timestamp))"

definition get_mhsld_stats :: "CXLController \<Rightarrow> MHSLDStats" where
  "get_mhsld_stats c =
     (case ct_mhsld_device c of
        None \<Rightarrow> \<lparr>ms_coherency_messages = 0, ms_invalidations = 0, ms_downgrades = 0, ms_writebacks = 0,
                 ms_avg_read_latency = 0, ms_avg_write_latency = 0, ms_pool_utilization = 0\<rparr>
      | Some dev \<Rightarrow> get_stats dev)"

fun mhsld_reads :: "MHSLDDevice \<Rightarrow> u32 \<Rightarrow> access list \<Rightarrow> real \<Rightarrow> real \<times> MHSLDDevice" where
  "mhsld_reads dev head_id [] total_mhsld = (total_mhsld, dev)"
| "mhsld_reads dev head_id ((ts, addr) # elems) total_mhsld =
     (case read_with_coherency dev head_id addr ts of
        (lat, dev1) \<Rightarrow> mhsld_reads dev1 head_id elems (total_mhsld + lat))"

text \<open>The network part of the latency, recorded in the model as a message.\<close>

definition network_part :: "CXLController \<Rightarrow> u32 \<Rightarrow> u32 \<Rightarrow> u64 \<Rightarrow> real \<times> CXLController" where
  "network_part c head_id target_node timestamp =
     (if target_node \<noteq> head_id
      then
        case calculate_logp_latency c head_id target_node timestamp of
          (lat, c1) \<Rightarrow>
            (lat, c1\<lparr>ct_logp_model := record_message (ct_logp_model c1) target_node (u64_of_double lat)\<rparr>)
      else (0, c))"

definition coherency_part :: "CXLController \<Rightarrow> access list \<Rightarrow> u32 \<Rightarrow> real \<times> CXLController" where
  "coherency_part c elems head_id =
     (case ct_mhsld_device c of
        None \<Rightarrow> (0, c)
      | Some dev \<Rightarrow>
          (case mhsld_reads dev head_id elems 0 of
             (total_mhsld, dev1) \<Rightarrow>
               (if length elems > 0
                then max 0 (total_mhsld / real (length elems) - md_base_read_latency dev1) else 0,
                c\<lparr>ct_mhsld_device := Some dev1\<rparr>)))"

definition calculate_distributed_latency ::
  "CXLController \<Rightarrow> access list \<Rightarrow> u32 \<Rightarrow> u32 \<Rightarrow> (real \<times> CXLController) option" where
  "calculate_distributed_latency c elems head_id target_node =
     (if elems = [] then Some (0, c)
      else
        case controller_calculate_latency c elems (ct_dramlatency c) of
          None \<Rightarrow> None
        | Some (base_latency, c1) \<Rightarrow>
            let (network_latency, c2) = network_part c1 head_id target_node (fst (last elems));
                (coherency_latency, c3) = coherency_part c2 elems head_id
            in Some (base_latency + network_latency + coherency_latency, c3))"

section \<open>Specification\<close>

definition paging_ok :: "page_type \<Rightarrow> PagingPolicy option \<Rightarrow> bool" where
  "paging_ok pt pp \<longleftrightarrow>
     (case pp of
        Some (HugePage p) \<Rightarrow> tlb_inv (tlb_of pt p) \<and> 0 < tlb_limit (tlb_of pt p)
      | _ \<Rightarrow> True)"

definition cache_ok :: "LRUCache \<Rightarrow> bool" where
  "cache_ok cache \<longleftrightarrow> lru_inv cache \<and> 0 < lru_limit cache"

text \<open>The invariant of a controller: its cache and the TLB it uses are consistent and not of size zero.\<close>

definition controller_ok :: "CXLController \<Rightarrow> bool" where
  "controller_ok c \<longleftrightarrow> cache_ok (ct_lru_cache c) \<and> paging_ok (ct_page_type c) (ct_paging_policy c)"

text \<open>Whether the caching policy lets an access be cached.\<close>

definition caching_allowed :: "CachingPolicy option \<Rightarrow> bool" where
  "caching_allowed cp \<longleftrightarrow> cp \<noteq> None \<and> cp \<noteq> Some FIFO"

text \<open>The type an access is queued with: 1 for a remote access.\<close>

fun miss_type :: "EventType \<Rightarrow> int" where
  "miss_type Remote = 1"
| "miss_type _ = 0"

definition local_addresses :: "(u64 \<times> occupation_info) list \<Rightarrow> u64 set" where
  "local_addresses occ = oi_address ` snd ` set occ"

definition books :: "CXLController \<Rightarrow> u64 \<Rightarrow> CXLCounter \<times> int list" where
  "books c tid = (ct_counter c, ti_llcm_type (thread_at c tid))"

definition booked :: "EventType list \<Rightarrow> CXLCounter \<times> int list \<Rightarrow> CXLCounter \<times> int list" where
  "booked evs b = (fold counter_increment evs (fst b), snd b @ map miss_type evs)"

text \<open>Removing the pages with the addresses of a set from an endpoint, and how many there are.\<close>

definition purge :: "u64 set \<Rightarrow> endpoint \<Rightarrow> endpoint" where
  "purge A = map_base (\<lambda>x. x\<lparr>me_occupation := filter (\<lambda>info. oi_address info \<notin> A) (me_occupation x)\<rparr>)"

definition purged :: "u64 set \<Rightarrow> endpoint \<Rightarrow> nat" where
  "purged A x = length (filter (\<lambda>info. oi_address info \<in> A) (endpoint_occupation x))"

definition purge_heap :: "u64 set \<Rightarrow> nat set \<Rightarrow> heap \<Rightarrow> heap" where
  "purge_heap A E h = (\<lambda>q. if q \<in> E then purge A (h q) else h q)"

section \<open>What an access changes\<close>

lemma access_cache_effect:
  "access_cache c addr ts = Some (r, c') \<Longrightarrow>
     \<exists>cache. c' = c\<lparr>ct_lru_cache := cache\<rparr> \<and> lru_get (ct_lru_cache c) addr ts = Some (r, cache)"
  by (auto simp: access_cache_def)

lemma update_cache_effect:
  "update_cache c addr val ts = Some c' \<Longrightarrow>
     \<exists>cache. c' = c\<lparr>ct_lru_cache := cache\<rparr> \<and> lru_put (ct_lru_cache c) addr val ts = Some cache"
  by (auto simp: update_cache_def)

lemma walk_effect:
  "walk_page_table c virt phys is_remote = Some (lat, c') \<Longrightarrow>
     \<exists>pp l. c' = c\<lparr>ct_paging_policy := pp, ct_latency_lat := l\<rparr>"
  by (intro exI [of _ "ct_paging_policy c'"] exI [of _ "ct_latency_lat c'"])
    (auto simp: walk_page_table_def split: option.splits)

lemma cache_if_allowed_effect:
  assumes "cache_if_allowed c p addr ts = Some c'"
  shows "\<exists>p1 cache. c' = c\<lparr>ct_caching_policy := Some p1, ct_lru_cache := cache\<rparr>"
  using assms
  by (intro exI [of _ "the (ct_caching_policy c')"] exI [of _ "ct_lru_cache c'"])
    (auto simp: cache_if_allowed_def Let_def split: prod.splits if_splits dest!: update_cache_effect)

lemma set_map_set: "set (map_set k v m) \<subseteq> insert (k, v) (set m)"
proof (induction m)
  case (Cons p m)
  then show ?case by (cases p) auto
qed simp

lemma occupy_local_effect:
  "\<exists>occ. occupy_local c ts ptw phys = c\<lparr>ct_occupation := occ\<rparr>
     \<and> local_addresses occ \<subseteq> insert 1 (local_addresses (ct_occupation c))"
proof (cases "map_of (ct_occupation c) ts = None")
  case True
  then show ?thesis
    using set_map_set [of ts _ "ct_occupation c"]
    by (force simp: occupy_local_def occupation_emplace_def local_addresses_def)
next
  case False
  then show ?thesis
    by (intro exI [of _ "ct_occupation c"]) (auto simp: occupy_local_def occupation_emplace_def)
qed

lemmas book_defs = push_type_def count_access_def set_thread_def thread_at_def Let_def

lemma route_decoded_effect:
  obtains ev h occ where "ev \<in> {Local, Remote}"
    "route_decoded c d ts ptw tid phys virt =
       (push_type (count_access ev c) tid (miss_type ev))\<lparr>ct_heap := h, ct_occupation := occ\<rparr>"
    "local_addresses occ \<subseteq> insert 1 (local_addresses (ct_occupation c))"
proof -
  define h where "h = (\<lambda>p. ct_heap (insert_at c p (ts + ptw) tid phys virt))"
  have h: "insert_at c p (ts + ptw) tid phys virt = c\<lparr>ct_heap := h p\<rparr>" for p
    by (simp add: h_def insert_at_def Let_def)
  obtain occ where occ: "occupy_local c ts ptw phys = c\<lparr>ct_occupation := occ\<rparr>"
      "local_addresses occ \<subseteq> insert 1 (local_addresses (ct_occupation c))"
    using occupy_local_effect by blast
  consider "dr_is_remote d" "get_remote_expander c (dr_target_id d) = None"
    | p where "dr_is_remote d" "get_remote_expander c (dr_target_id d) = Some p"
    | "\<not> dr_is_remote d" "ct_device_map c (sint (dr_target_id d)) = None"
    | p where "\<not> dr_is_remote d" "ct_device_map c (sint (dr_target_id d)) = Some p"
    by blast
  then show ?thesis
  proof cases
    case 1
    then show ?thesis
      by (intro that [of Remote "ct_occupation c" "ct_heap c"]) (auto simp: route_decoded_def book_defs)
  next
    case (2 p)
    then show ?thesis
      by (intro that [of Remote "ct_occupation c" "h p"]) (auto simp: route_decoded_def book_defs h)
  next
    case 3
    then show ?thesis
      using occ by (intro that [of Local occ "ct_heap c"]) (auto simp: route_decoded_def book_defs)
  next
    case (4 p)
    then show ?thesis
      by (intro that [of Local "ct_occupation c" "h p"]) (auto simp: route_decoded_def book_defs h)
  qed
qed

text \<open>
  Everything a round of \<open>insert\<close> that misses the cache may change: it counts one event and queues
  its type, and it leaves the decoder, the device map, the migration policy and the rest alone.
\<close>

definition missed :: "EventType \<Rightarrow> u64 \<Rightarrow> CXLController \<Rightarrow> CXLController \<Rightarrow> bool" where
  "missed ev tid c c' \<longleftrightarrow>
     (\<exists>pp lat h s occ cp cache ap.
        c' = (push_type (count_access ev c) tid (miss_type ev))
          \<lparr>ct_paging_policy := pp, ct_latency_lat := lat, ct_heap := h, ct_switch := s,
           ct_occupation := occ, ct_caching_policy := cp, ct_lru_cache := cache, ct_allocation_policy := ap\<rparr>
        \<and> cs_last_timestamp s = ct_last_timestamp c
        \<and> local_addresses occ \<subseteq> insert 1 (local_addresses (ct_occupation c)))"

lemma access_decoded_effect:
  assumes "access_decoded c hdm ts tid phys virt = Some c'"
  shows "\<exists>ev \<in> {Local, Remote}. missed ev tid c c'"
proof -
  let ?d = "decode hdm phys"
  obtain ptw c1 where w: "walk_page_table c virt phys (dr_is_remote ?d) = Some (ptw, c1)"
    using assms unfolding access_decoded_def Let_def by (auto split: option.splits)
  obtain pp lat where c1: "c1 = c\<lparr>ct_paging_policy := pp, ct_latency_lat := lat\<rparr>"
    using walk_effect [OF w] by blast
  obtain ev h occ where ev: "ev \<in> {Local, Remote}"
    and r: "route_decoded c1 ?d ts ptw tid phys virt =
       (push_type (count_access ev c1) tid (miss_type ev))\<lparr>ct_heap := h, ct_occupation := occ\<rparr>"
    and occ: "local_addresses occ \<subseteq> insert 1 (local_addresses (ct_occupation c1))"
    by (rule route_decoded_effect)
  have "\<exists>cp cache. c' = (route_decoded c1 ?d ts ptw tid phys virt)
      \<lparr>ct_caching_policy := cp, ct_lru_cache := cache\<rparr>"
  proof (cases "ct_caching_policy (route_decoded c1 ?d ts ptw tid phys virt)")
    case None
    with assms w show ?thesis
      by (intro exI [of _ None] exI [of _ "ct_lru_cache c'"]) (simp add: access_decoded_def)
  next
    case (Some p)
    with assms w show ?thesis
      by (auto simp: access_decoded_def dest!: cache_if_allowed_effect)
  qed
  then obtain cp cache where c': "c' = (route_decoded c1 ?d ts ptw tid phys virt)
      \<lparr>ct_caching_policy := cp, ct_lru_cache := cache\<rparr>"
    by blast
  have "missed ev tid c c'"
    unfolding missed_def c' r using occ
    by (intro exI [of _ pp] exI [of _ lat] exI [of _ h] exI [of _ "ct_switch c"] exI [of _ occ]
        exI [of _ cp] exI [of _ cache] exI [of _ "ct_allocation_policy c"]) (simp add: c1 book_defs)
  with ev show ?thesis
    by blast
qed

lemma insert_everywhere_effect:
  "\<exists>h s. snd (insert_everywhere c ts tid phys virt index res) = c\<lparr>ct_heap := h, ct_switch := s\<rparr>
     \<and> cs_last_timestamp s = ct_last_timestamp c"
  by (intro exI [of _ "ct_heap (snd (insert_everywhere c ts tid phys virt index res))"]
      exI [of _ "ct_switch (snd (insert_everywhere c ts tid phys virt index res))"])
    (simp add: insert_everywhere_def set_switches_def split: prod.splits)

lemma access_allocated_effect:
  assumes "access_allocated c ts tid phys virt res = Some (res', c')"
  shows "\<exists>ev \<in> {Local, Remote}. missed ev tid c c'"
proof -
  obtain ap numa ap1 where ap: "ct_allocation_policy c = Some ap" "allocation_compute_once ap c = Some (numa, ap1)"
    using assms unfolding access_allocated_def by (auto split: option.splits)
  obtain ptw c1 where w: "walk_page_table (c\<lparr>ct_allocation_policy := Some ap1\<rparr>) virt phys (numa \<noteq> - 1)
      = Some (ptw, c1)"
    using assms ap unfolding access_allocated_def by (auto split: option.splits)
  obtain pp lat where c1: "c1 = c\<lparr>ct_allocation_policy := Some ap1, ct_paging_policy := pp, ct_latency_lat := lat\<rparr>"
    using walk_effect [OF w] by auto
  show ?thesis
  proof (cases "numa = - 1")
    case True
    obtain occ where occ: "occupy_local c1 ts ptw phys = c1\<lparr>ct_occupation := occ\<rparr>"
        "local_addresses occ \<subseteq> insert 1 (local_addresses (ct_occupation c1))"
      using occupy_local_effect by blast
    obtain cache where "c' = (push_type (count_access Local (c1\<lparr>ct_occupation := occ\<rparr>)) tid 0)
        \<lparr>ct_lru_cache := cache\<rparr>"
      using assms ap w True occ(1) by (auto simp: access_allocated_def dest!: update_cache_effect)
    with occ(2) have "missed Local tid c c'"
      unfolding missed_def
      by (intro exI [of _ pp] exI [of _ lat] exI [of _ "ct_heap c"] exI [of _ "ct_switch c"] exI [of _ occ]
          exI [of _ "ct_caching_policy c"] exI [of _ cache] exI [of _ "Some ap1"]) (simp add: c1 book_defs)
    then show ?thesis
      by blast
  next
    case False
    obtain h s where s: "snd (insert_everywhere (count_access Remote c1) (ts + ptw) tid phys virt numa res)
        = (count_access Remote c1)\<lparr>ct_heap := h, ct_switch := s\<rparr>" "cs_last_timestamp s = ct_last_timestamp c"
      using insert_everywhere_effect [of "count_access Remote c1" "ts + ptw" tid phys virt numa res]
      by (auto simp: count_access_def c1)
    obtain p1 cache where "c' = (push_type ((count_access Remote c1)\<lparr>ct_heap := h, ct_switch := s\<rparr>) tid 1)
        \<lparr>ct_caching_policy := Some p1, ct_lru_cache := cache\<rparr>"
      using assms ap w False s(1)
      by (auto simp: access_allocated_def Let_def split: prod.splits option.splits dest!: cache_if_allowed_effect)
    with s(2) have "missed Remote tid c c'"
      unfolding missed_def
      by (intro exI [of _ pp] exI [of _ lat] exI [of _ h] exI [of _ s] exI [of _ "ct_occupation c"]
          exI [of _ "Some p1"] exI [of _ cache] exI [of _ "Some ap1"]) (auto simp: c1 book_defs)
    then show ?thesis
      by blast
  qed
qed

text \<open>A round that hits the cache counts a hit, and changes nothing else but the cache.\<close>

lemma access_one_effect:
  assumes "access_one c ts tid phys virt res = Some (res', c')"
  shows "\<exists>ev \<in> {Local, Remote, Hitm}. missed ev tid c c' \<and> (ev = Hitm \<longleftrightarrow> lc_cache (ct_lru_cache c) phys \<noteq> None)"
proof -
  obtain r c1 where "access_cache c phys ts = Some (r, c1)"
    using assms by (cases "access_cache c phys ts") (auto simp: access_one_def)
  then obtain cache where get: "access_cache c phys ts = Some (r, c\<lparr>ct_lru_cache := cache\<rparr>)"
    and lru: "lru_get (ct_lru_cache c) phys ts = Some (r, cache)"
    using access_cache_effect by blast
  have r: "r \<noteq> None \<longleftrightarrow> lc_cache (ct_lru_cache c) phys \<noteq> None"
    using lru by (auto simp: lru_get_def Let_def split: option.splits)
  have lift: "missed ev tid c c'" if "missed ev tid (c\<lparr>ct_lru_cache := cache\<rparr>) c'" for ev
    using that by (auto simp: missed_def book_defs)
  show ?thesis
  proof (cases r)
    case (Some v)
    then have "c' = push_type (count_access Hitm (c\<lparr>ct_lru_cache := cache\<rparr>)) tid 0"
      using assms get by (simp add: access_one_def)
    then have "missed Hitm tid c c'"
      unfolding missed_def
      by (intro exI [of _ "ct_paging_policy c"] exI [of _ "ct_latency_lat c"] exI [of _ "ct_heap c"]
          exI [of _ "ct_switch c"] exI [of _ "ct_occupation c"] exI [of _ "ct_caching_policy c"]
          exI [of _ cache] exI [of _ "ct_allocation_policy c"]) (auto simp: book_defs)
    with Some r show ?thesis
      by blast
  next
    case None
    then have "(case ct_hdm_decoder c of
           Some hdm \<Rightarrow>
             map_option (\<lambda>c'. (res, c')) (access_decoded (c\<lparr>ct_lru_cache := cache\<rparr>) hdm ts tid phys virt)
         | None \<Rightarrow> access_allocated (c\<lparr>ct_lru_cache := cache\<rparr>) ts tid phys virt res) = Some (res', c')"
      using assms get by (simp add: access_one_def)
    then have "\<exists>ev \<in> {Local, Remote}. missed ev tid (c\<lparr>ct_lru_cache := cache\<rparr>) c'"
      using access_decoded_effect [where c = "c\<lparr>ct_lru_cache := cache\<rparr>"]
        access_allocated_effect [where c = "c\<lparr>ct_lru_cache := cache\<rparr>"]
      by (cases "ct_hdm_decoder c") fastforce+
    with None r lift show ?thesis
      by blast
  qed
qed

lemma missed_books:
  assumes "missed ev tid c c'"
  shows "books c' tid = booked [ev] (books c tid)" "ct_last_timestamp c' = ct_last_timestamp c"
    "ct_last_index c' = ct_last_index c" "ct_hdm_decoder c' = ct_hdm_decoder c"
    "ct_request_counter c' = ct_request_counter c" "ct_migration_policy c' = ct_migration_policy c"
    "local_addresses (ct_occupation c') \<subseteq> insert 1 (local_addresses (ct_occupation c))"
proof -
  obtain pp lat h s occ cp cache ap where
    c': "c' = (push_type (count_access ev c) tid (miss_type ev))
          \<lparr>ct_paging_policy := pp, ct_latency_lat := lat, ct_heap := h, ct_switch := s,
           ct_occupation := occ, ct_caching_policy := cp, ct_lru_cache := cache, ct_allocation_policy := ap\<rparr>"
    and s: "cs_last_timestamp s = ct_last_timestamp c"
    and occ: "local_addresses occ \<subseteq> insert 1 (local_addresses (ct_occupation c))"
    using assms unfolding missed_def by (elim exE conjE) (rule that)
  show "books c' tid = booked [ev] (books c tid)" "ct_last_timestamp c' = ct_last_timestamp c"
    "ct_last_index c' = ct_last_index c" "ct_hdm_decoder c' = ct_hdm_decoder c"
    "ct_request_counter c' = ct_request_counter c" "ct_migration_policy c' = ct_migration_policy c"
    by (simp_all add: c' s books_def booked_def book_defs)
  show "local_addresses (ct_occupation c') \<subseteq> insert 1 (local_addresses (ct_occupation c))"
    using occ by (simp add: c')
qed

lemma access_loop_effect:
  assumes "access_loop n step c ts tid phys virt res = Some (res', c')"
  obtains evs where "length evs = n" "set evs \<subseteq> {Local, Remote, Hitm}"
    "books c' tid = booked evs (books c tid)" "ct_last_timestamp c' = ct_last_timestamp c"
    "ct_last_index c' = ct_last_index c" "ct_hdm_decoder c' = ct_hdm_decoder c"
    "ct_request_counter c' = ct_request_counter c" "ct_migration_policy c' = ct_migration_policy c"
    "local_addresses (ct_occupation c') \<subseteq> insert 1 (local_addresses (ct_occupation c))"
  using assms
proof (induction n arbitrary: c ts res thesis)
  case 0
  then show ?case
    by (auto simp: booked_def)
next
  case (Suc n)
  obtain res1 c1 where one: "access_one c (ts + step) tid phys virt res = Some (res1, c1)"
    and loop: "access_loop n step c1 (ts + step) tid phys virt res1 = Some (res', c')"
    using Suc.prems(2) by (auto split: option.splits)
  obtain ev where ev: "ev \<in> {Local, Remote, Hitm}" "missed ev tid c c1"
    using access_one_effect [OF one] by blast
  note b = missed_books [OF ev(2)]
  obtain evs where evs: "length evs = n" "set evs \<subseteq> {Local, Remote, Hitm}"
      "books c' tid = booked evs (books c1 tid)" "ct_last_timestamp c' = ct_last_timestamp c1"
      "ct_last_index c' = ct_last_index c1" "ct_hdm_decoder c' = ct_hdm_decoder c1"
      "ct_request_counter c' = ct_request_counter c1" "ct_migration_policy c' = ct_migration_policy c1"
      "local_addresses (ct_occupation c') \<subseteq> insert 1 (local_addresses (ct_occupation c1))"
    using Suc.IH loop by blast
  show ?case
    by (rule Suc.prems(1) [of "ev # evs"]) (use evs b ev in \<open>auto simp: booked_def\<close>)
qed

section \<open>Back-invalidation\<close>

lemma purge_occupation [simp]:
  "endpoint_occupation (purge A x) = filter (\<lambda>info. oi_address info \<notin> A) (endpoint_occupation x)"
  by (simp add: endpoint_occupation_def purge_def)

lemma purge_purge: "purge B (purge A x) = purge (A \<union> B) x"
  by (simp add: purge_def comp_def)

lemma purged_purge: "purged A x + purged B (purge A x) = purged (A \<union> B) x"
proof -
  have "length (filter (\<lambda>i. oi_address i \<in> A) xs) + length (filter (\<lambda>i. oi_address i \<notin> A \<and> oi_address i \<in> B) xs)
      = length (filter (\<lambda>i. oi_address i \<in> A \<union> B) xs)" for xs
    by (induction xs) auto
  then show ?thesis
    by (simp add: purged_def conj_commute)
qed

lemma invalidate_in_list_eq:
  "invalidate_in_list h ps addr = (\<Sum>p\<in>set ps. purged {addr} (h p), purge_heap {addr} (set ps) h)"
proof (induction ps arbitrary: h)
  case (Cons p ps)
  let ?h1 = "h(p := purge {addr} (h p))"
  have step: "heap_base h p (\<lambda>x. x\<lparr>me_occupation :=
      filter (\<lambda>info. oi_address info \<noteq> addr) (endpoint_occupation (h p))\<rparr>) = ?h1"
    by (cases "h p") (simp_all add: heap_base_def purge_def endpoint_occupation_def)
  have len: "length (endpoint_occupation (h p))
      - length (filter (\<lambda>info. oi_address info \<noteq> addr) (endpoint_occupation (h p))) = purged {addr} (h p)"
    using sum_length_filter_compl [of "\<lambda>info. oi_address info = addr" "endpoint_occupation (h p)"]
    by (simp add: purged_def)
  have zero: "purged {addr} (purge {addr} x) = 0" for x
    by (simp add: purged_def)
  have "(\<Sum>q\<in>set ps. purged {addr} (?h1 q)) = (\<Sum>q\<in>set ps - {p}. purged {addr} (h q))"
    by (rule sum.mono_neutral_cong_right) (auto simp: zero)
  moreover have "purge_heap {addr} (set ps) ?h1 = purge_heap {addr} (set (p # ps)) h"
    by (auto simp: purge_heap_def purge_purge)
  ultimately show ?case
    unfolding invalidate_in_list.simps Let_def step len Cons.IH prod.case by (simp add: sum.insert_remove)
qed (simp add: purge_heap_def)

lemma invalidate_in_list_append:
  "invalidate_in_list h (ps @ qs) addr =
     (let (n1, h1) = invalidate_in_list h ps addr; (n2, h2) = invalidate_in_list h1 qs addr
      in (n1 + n2, h2))"
proof (induction ps arbitrary: h)
  case (Cons p ps)
  then show ?case
    unfolding append_Cons invalidate_in_list.simps Let_def
    by (simp add: trans_le_add1 [OF length_filter_le] add.assoc split: prod.splits)
qed simp

lemma invalidate_flat:
  "invalidate_in_switch h s addr = invalidate_in_list h (switch_endpoints s) addr"
  "invalidate_in_switches h ss addr = invalidate_in_list h (switches_endpoints ss) addr"
  by (induction h s addr and h ss addr rule: invalidate_in_switch_invalidate_in_switches.induct)
    (auto simp: invalidate_in_list_append Let_def split: prod.splits)

lemma inc_backinv_pow:
  "(inc_backinv ^^ n) k = k\<lparr>cc_backinv := cc_backinv k + of_nat n\<rparr>"
  by (induction n) (simp_all add: inc_backinv_def increment_def)

lemma invalidate_in_expanders_eq:
  defines "E c \<equiv> set (switch_endpoints (ct_switch c))"
  shows "invalidate_in_expanders c addr =
    count_backinv (\<Sum>p\<in>E c. purged {addr} (ct_heap c p)) (c\<lparr>ct_heap := purge_heap {addr} (E c) (ct_heap c)\<rparr>)"
proof -
  have "invalidate_in_expanders c addr =
      (let (n, h) = invalidate_in_list (ct_heap c) (switch_endpoints (ct_switch c)) addr
       in count_backinv n (c\<lparr>ct_heap := h\<rparr>))"
    by (cases "ct_switch c") (simp add: invalidate_in_expanders_def invalidate_flat invalidate_in_list_append
        Let_def split: prod.splits)
  then show ?thesis
    by (simp add: invalidate_in_list_eq E_def)
qed

lemma purge_heap_purge_heap: "purge_heap B E (purge_heap A E h) = purge_heap (A \<union> B) E h"
  by (auto simp: purge_heap_def purge_purge)

lemma purged_heap:
  "(\<Sum>p\<in>E. purged A (h p)) + (\<Sum>p\<in>E. purged B (purge_heap A E h p)) = (\<Sum>p\<in>E. purged (A \<union> B) (h p))"
  by (simp add: purge_heap_def flip: sum.distrib purged_purge cong: sum.cong)

lemma count_backinv_fields [frame_simps]:
  "ct_heap (count_backinv n c) = ct_heap c" "ct_switch (count_backinv n c) = ct_switch c"
  "ct_lru_cache (count_backinv n c) = ct_lru_cache c"
  "(count_backinv n c)\<lparr>ct_heap := h\<rparr> = count_backinv n (c\<lparr>ct_heap := h\<rparr>)"
  "(count_backinv n c)\<lparr>ct_lru_cache := cache\<rparr> = count_backinv n (c\<lparr>ct_lru_cache := cache\<rparr>)"
  "count_backinv n (count_backinv m c) = count_backinv (n + m) c"
  by (simp_all add: count_backinv_def funpow_add)

definition lru_removed :: "LRUCache \<Rightarrow> u64 set \<Rightarrow> LRUCache \<Rightarrow> bool" where
  "lru_removed cache A cache' \<longleftrightarrow> lru_inv cache' \<and> lru_limit cache' = lru_limit cache
     \<and> lru_keys cache' = filter (\<lambda>k. k \<notin> A) (lru_keys cache)"

lemma count_removed:
  "distinct ks \<Longrightarrow> length (filter (\<lambda>k. k \<in> insert a A) ks)
     = of_bool (a \<in> set ks) + length (filter (\<lambda>k. k \<in> A) (removeAll a ks))"
  by (induction ks) auto

lemma invalidate_addresses_eq:
  fixes c addrs
  defines "E \<equiv> set (switch_endpoints (ct_switch c))"
  assumes "lru_inv (ct_lru_cache c)"
  shows "\<exists>cache. lru_removed (ct_lru_cache c) (set addrs) cache
    \<and> invalidate_addresses c addrs =
        Some (count_backinv (length (filter (\<lambda>k. k \<in> set addrs) (lru_keys (ct_lru_cache c)))
                + (\<Sum>p\<in>E. purged (set addrs) (ct_heap c p)))
          (c\<lparr>ct_lru_cache := cache, ct_heap := purge_heap (set addrs) E (ct_heap c)\<rparr>))"
  using assms(2) unfolding E_def
proof (induction addrs arbitrary: c)
  case Nil
  have "purge {} x = x" for x
    by (cases x) (simp_all add: purge_def)
  then have "purge_heap {} E h = h" for E h
    by (simp add: purge_heap_def fun_eq_iff)
  with Nil show ?case
    by (intro exI [of _ "ct_lru_cache c"]) (simp add: lru_removed_def purged_def count_backinv_def)
next
  case (Cons a addrs)
  let ?E = "set (switch_endpoints (ct_switch c))"
  let ?k = "lru_keys (ct_lru_cache c)"
  obtain cache where rm: "lru_remove (ct_lru_cache c) a = Some (lru_contains (ct_lru_cache c) a, cache)"
      "lru_inv cache" "lru_limit cache = lru_limit (ct_lru_cache c)" "lru_keys cache = removeAll a ?k"
    using lru_remove_inv [OF Cons.prems] by blast
  let ?n = "of_bool (lru_contains (ct_lru_cache c) a) :: nat"
  let ?c1 = "c\<lparr>ct_lru_cache := cache, ct_heap := purge_heap {a} ?E (ct_heap c)\<rparr>"
  have one: "invalidate_in_expanders (if lru_contains (ct_lru_cache c) a
        then count_backinv 1 (c\<lparr>ct_lru_cache := cache\<rparr>) else c\<lparr>ct_lru_cache := cache\<rparr>) a
      = count_backinv ((\<Sum>p\<in>?E. purged {a} (ct_heap c p)) + ?n) ?c1"
    by (simp add: invalidate_in_expanders_eq frame_simps)
  obtain cache2 where c2: "lru_removed cache (set addrs) cache2"
    "invalidate_addresses (count_backinv ((\<Sum>p\<in>?E. purged {a} (ct_heap c p)) + ?n) ?c1) addrs
      = Some (count_backinv (length (filter (\<lambda>k. k \<in> set addrs) (removeAll a ?k))
             + (\<Sum>p\<in>?E. purged (set addrs) (purge_heap {a} ?E (ct_heap c) p))
             + ((\<Sum>p\<in>?E. purged {a} (ct_heap c p)) + ?n))
          (c\<lparr>ct_lru_cache := cache2, ct_heap := purge_heap (set (a # addrs)) ?E (ct_heap c)\<rparr>))"
    using Cons.IH [of "count_backinv ((\<Sum>p\<in>?E. purged {a} (ct_heap c p)) + ?n) ?c1"] rm
    by (auto simp: frame_simps purge_heap_purge_heap)
  have "distinct ?k"
    using Cons.prems by (simp add: lru_inv_def nodes_ok_def lru_keys_def)
  then have "length (filter (\<lambda>k. k \<in> set (a # addrs)) ?k)
      = ?n + length (filter (\<lambda>k. k \<in> set addrs) (removeAll a ?k))"
    using count_removed [of ?k a "set addrs"] in_lru_keys [OF Cons.prems] by (simp add: lru_contains_def)
  moreover have "(\<Sum>p\<in>?E. purged (set (a # addrs)) (ct_heap c p)) = (\<Sum>p\<in>?E. purged {a} (ct_heap c p))
      + (\<Sum>p\<in>?E. purged (set addrs) (purge_heap {a} ?E (ct_heap c) p))"
    using purged_heap [of "{a}" "ct_heap c" ?E "set addrs"] by simp
  moreover have "lru_removed (ct_lru_cache c) (set (a # addrs)) cache2"
    using c2(1) rm(3,4) by (auto simp: lru_removed_def removeAll_filter_not_eq intro!: filter_cong)
  ultimately show ?case
    using c2(2) rm(1) by (intro exI [of _ cache2]) (simp add: one add.commute add.left_commute)
qed

text \<open>
  C10. Back-invalidation leaves no copy behind: when the caching policy names a list of addresses, it
  completes, and afterwards none of them is in the cache or in a page of any endpoint of the tree,
  at whatever depth; all other cached addresses and pages are kept, and the counter of
  back-invalidations has grown by the number of cache entries and pages removed.
\<close>

theorem back_invalidation_complete:
  fixes c
  defines "E \<equiv> set (switch_endpoints (ct_switch c))" and "cache \<equiv> ct_lru_cache c"
  assumes "lru_inv (ct_lru_cache c)" and "ct_caching_policy c = Some p"
    and "get_invalidation_list p c = (addrs, p1)"
  shows "\<exists>c'. perform_back_invalidation c = Some c'
    \<and> lru_keys (ct_lru_cache c') = filter (\<lambda>k. k \<notin> set addrs) (lru_keys cache)
    \<and> (\<forall>q. endpoint_occupation (ct_heap c' q) =
          (if q \<in> E then filter (\<lambda>info. oi_address info \<notin> set addrs) (endpoint_occupation (ct_heap c q))
           else endpoint_occupation (ct_heap c q)))
    \<and> cc_backinv (ct_counter c') = cc_backinv (ct_counter c)
        + of_nat (length (filter (\<lambda>k. k \<in> set addrs) (lru_keys cache))
                  + (\<Sum>q\<in>E. purged (set addrs) (ct_heap c q)))"
proof -
  let ?c = "c\<lparr>ct_caching_policy := Some p1\<rparr>"
  obtain cache' where cache': "lru_removed cache (set addrs) cache'"
    "invalidate_addresses ?c addrs =
        Some (count_backinv (length (filter (\<lambda>k. k \<in> set addrs) (lru_keys cache))
                + (\<Sum>p\<in>E. purged (set addrs) (ct_heap c p)))
          (?c\<lparr>ct_lru_cache := cache', ct_heap := purge_heap (set addrs) E (ct_heap c)\<rparr>))"
    using invalidate_addresses_eq [of ?c addrs] assms(3) by (auto simp: E_def cache_def)
  then show ?thesis
    using assms(4,5)
    by (simp add: perform_back_invalidation_def lru_removed_def frame_simps purge_heap_def)
      (simp add: count_backinv_def inc_backinv_pow)
qed

text \<open>A controller with one expander that holds a page, whose address the policy wants to give up.\<close>

definition example_invalidation :: CXLController where
  "example_invalidation = example_controller
     \<lparr>ct_caching_policy := Some FIFO,
      ct_occupation := [(1, \<lparr>oi_timestamp = 1, oi_address = 64, oi_access_count = 0\<rparr>)],
      ct_switch := push_expander (new_CXLSwitch 0) 0,
      ct_heap := (\<lambda>_. Local_expander (example_expander
        \<lparr>me_occupation := [\<lparr>oi_timestamp = 1, oi_address = 64, oi_access_count = 0\<rparr>,
                           \<lparr>oi_timestamp = 2, oi_address = 128, oi_access_count = 0\<rparr>]\<rparr>))\<rparr>"

theorem back_invalidation_complete_witness:
  "\<exists>c'. perform_back_invalidation example_invalidation = Some c'
    \<and> endpoint_occupation (ct_heap c' 0) = [\<lparr>oi_timestamp = 2, oi_address = 128, oi_access_count = 0\<rparr>]
    \<and> cc_backinv (ct_counter c') = 1"
  using back_invalidation_complete [of example_invalidation FIFO "[64]" FIFO]
  by (auto simp: example_invalidation_def example_controller_def new_CXLController_def new_CXLCounter_def
      push_expander_def new_CXLSwitch_def endpoint_occupation_def purged_def)

section \<open>Migration\<close>

text \<open>
  The list that drives a migration is computed by a method of the base class that the policies hide
  rather than override, and that returns nothing: whatever the policy, nothing is ever moved.
\<close>

lemma perform_migration_id: "perform_migration c = c"
  by (simp add: perform_migration_def get_migration_list_def split: option.splits)

text \<open>If a record did move into the controller, it would be lost whenever its time stamp is taken.\<close>

lemma migrate_into_loses_record:
  assumes "map_of (ct_occupation c) (ct_last_timestamp c) \<noteq> None"
  shows "ct_occupation (migrate_into_controller c src addr) = ct_occupation c"
  using assms
  by (auto simp: migrate_into_controller_def occupation_emplace_def split: option.splits)

section \<open>Accesses are counted once\<close>

lemma invalidate_addresses_effect:
  "invalidate_addresses c addrs = Some c' \<Longrightarrow>
     \<exists>n h cache. c' = count_backinv n (c\<lparr>ct_heap := h, ct_lru_cache := cache\<rparr>)"
proof (induction addrs arbitrary: c)
  case Nil
  then show ?case
    by (intro exI [of _ 0] exI [of _ "ct_heap c"] exI [of _ "ct_lru_cache c"]) (simp add: count_backinv_def)
next
  case (Cons a addrs)
  obtain removed cache where rm: "lru_remove (ct_lru_cache c) a = Some (removed, cache)"
    using Cons.prems by (auto split: option.splits)
  obtain m h where "invalidate_in_expanders
      (if removed then count_backinv 1 (c\<lparr>ct_lru_cache := cache\<rparr>) else c\<lparr>ct_lru_cache := cache\<rparr>) a
      = count_backinv m (c\<lparr>ct_lru_cache := cache, ct_heap := h\<rparr>)"
    by (cases removed) (auto simp: invalidate_in_expanders_eq frame_simps)
  with Cons.prems rm have "invalidate_addresses
      (count_backinv m (c\<lparr>ct_lru_cache := cache, ct_heap := h\<rparr>)) addrs = Some c'"
    by (simp add: Let_def)
  from Cons.IH [OF this] obtain n h' cache' where "c' = count_backinv n
      ((count_backinv m (c\<lparr>ct_lru_cache := cache, ct_heap := h\<rparr>))\<lparr>ct_heap := h', ct_lru_cache := cache'\<rparr>)"
    by blast
  then have "c' = count_backinv (n + m) (c\<lparr>ct_heap := h', ct_lru_cache := cache'\<rparr>)"
    by (simp add: frame_simps)
  then show ?case
    by blast
qed

definition tidied :: "CXLController \<Rightarrow> CXLController \<Rightarrow> bool" where
  "tidied c c' \<longleftrightarrow> (\<exists>n h cache cp mp k.
     c' = count_backinv n (c\<lparr>ct_heap := h, ct_lru_cache := cache, ct_caching_policy := cp,
       ct_migration_policy := mp, ct_request_counter := k\<rparr>))"

lemma tidied_intro:
  "c' = count_backinv n (c\<lparr>ct_heap := h, ct_lru_cache := cache, ct_caching_policy := cp,
       ct_migration_policy := mp, ct_request_counter := k\<rparr>) \<Longrightarrow> tidied c c'"
  unfolding tidied_def by blast

lemma tidied_fields:
  assumes "tidied c c'"
  shows "cc_local (ct_counter c') = cc_local (ct_counter c)" "cc_remote (ct_counter c') = cc_remote (ct_counter c)"
    "cc_hitm (ct_counter c') = cc_hitm (ct_counter c)" "ct_thread_map c' = ct_thread_map c"
    "ct_occupation c' = ct_occupation c" "ct_hdm_decoder c' = ct_hdm_decoder c"
    "ct_page_type c' = ct_page_type c" "ct_paging_policy c' = ct_paging_policy c"
    "ct_switch c' = ct_switch c"
proof -
  obtain n h cache cp mp k where "c' = count_backinv n (c\<lparr>ct_heap := h, ct_lru_cache := cache,
      ct_caching_policy := cp, ct_migration_policy := mp, ct_request_counter := k\<rparr>)"
    using assms unfolding tidied_def by (elim exE) (rule that)
  then show "cc_local (ct_counter c') = cc_local (ct_counter c)" "cc_remote (ct_counter c') = cc_remote (ct_counter c)"
    "cc_hitm (ct_counter c') = cc_hitm (ct_counter c)" "ct_thread_map c' = ct_thread_map c"
    "ct_occupation c' = ct_occupation c" "ct_hdm_decoder c' = ct_hdm_decoder c"
    "ct_page_type c' = ct_page_type c" "ct_paging_policy c' = ct_paging_policy c"
    "ct_switch c' = ct_switch c"
    by (simp_all add: count_backinv_def inc_backinv_pow)
qed

lemma tidied_update:
  assumes "tidied c c'"
  shows "tidied c (c'\<lparr>ct_caching_policy := cp\<rparr>)" "tidied c (c'\<lparr>ct_lru_cache := cache\<rparr>)"
    "tidied c (c'\<lparr>ct_request_counter := k\<rparr>)" "tidied c (count_backinv n (c'\<lparr>ct_heap := h, ct_lru_cache := cache\<rparr>))"
proof -
  obtain n0 h0 cache0 cp0 mp0 k0 where c': "c' = count_backinv n0 (c\<lparr>ct_heap := h0, ct_lru_cache := cache0,
      ct_caching_policy := cp0, ct_migration_policy := mp0, ct_request_counter := k0\<rparr>)"
    using assms unfolding tidied_def by (elim exE) (rule that)
  show "tidied c (c'\<lparr>ct_caching_policy := cp\<rparr>)"
    by (rule tidied_intro [where n = n0 and c = c and h = h0 and cache = cache0
        and cp = cp and mp = mp0 and k = k0]) (simp add: c' count_backinv_def)
  show "tidied c (c'\<lparr>ct_lru_cache := cache\<rparr>)"
    by (rule tidied_intro [where n = n0 and c = c and h = h0 and cache = cache
        and cp = cp0 and mp = mp0 and k = k0]) (simp add: c' count_backinv_def)
  show "tidied c (c'\<lparr>ct_request_counter := k\<rparr>)"
    by (rule tidied_intro [where n = n0 and c = c and h = h0 and cache = cache0
        and cp = cp0 and mp = mp0 and k = k]) (simp add: c' count_backinv_def)
  show "tidied c (count_backinv n (c'\<lparr>ct_heap := h, ct_lru_cache := cache\<rparr>))"
    by (rule tidied_intro [where n = "n + n0" and c = c and h = h and cache = cache
        and cp = cp0 and mp = mp0 and k = k0]) (simp add: c' count_backinv_def funpow_add)
qed

lemma tidied_migration: "tidied c (c\<lparr>ct_migration_policy := mp\<rparr>)"
  by (rule tidied_intro [where n = 0 and h = "ct_heap c" and cache = "ct_lru_cache c"
      and cp = "ct_caching_policy c" and mp = mp and k = "ct_request_counter c"]) (simp add: count_backinv_def)

lemma tidied_refl: "tidied c c"
  using tidied_migration [of c "ct_migration_policy c"] by simp

lemma back_invalidation_tidied:
  assumes "tidied c c1" and "perform_back_invalidation c1 = Some c'"
  shows "tidied c c'"
proof (cases "ct_caching_policy c1")
  case None
  with assms show ?thesis
    by (simp add: perform_back_invalidation_def)
next
  case (Some p)
  obtain addrs p1 where "get_invalidation_list p c1 = (addrs, p1)"
    by fastforce
  with Some assms(2) obtain n h cache where
    "c' = count_backinv n ((c1\<lparr>ct_caching_policy := Some p1\<rparr>)\<lparr>ct_heap := h, ct_lru_cache := cache\<rparr>)"
    using invalidate_addresses_effect [of "c1\<lparr>ct_caching_policy := Some p1\<rparr>" addrs c']
    by (auto simp: perform_back_invalidation_def)
  then show ?thesis
    using tidied_update(4) [OF tidied_update(1) [OF assms(1)]] by simp
qed

text \<open>The controller after the migration step of the housekeeping.\<close>

definition migrated :: "CXLController \<Rightarrow> CXLController" where
  "migrated c = (case ct_migration_policy c of
     None \<Rightarrow> c | Some p \<Rightarrow> c\<lparr>ct_migration_policy := Some (snd (migration_compute_once p c))\<rparr>)"

lemma housekeeping_eq:
  "housekeeping c = map_option (\<lambda>c2. c2\<lparr>ct_request_counter := 0\<rparr>)
     (case ct_caching_policy (migrated c) of
        None \<Rightarrow> Some (migrated c)
      | Some p \<Rightarrow>
          (case caching_compute_once p (migrated c) of
             None \<Rightarrow> None
           | Some (r, p1, c') \<Rightarrow>
               if r > 0 then perform_back_invalidation (c'\<lparr>ct_caching_policy := Some p1\<rparr>)
               else Some (c'\<lparr>ct_caching_policy := Some p1\<rparr>)))"
  by (auto simp: housekeeping_def migrated_def perform_migration_id Let_def split: option.splits prod.splits)

lemma migrated_tidied: "tidied c (migrated c)"
  by (auto simp: migrated_def tidied_migration tidied_refl split: option.splits)

lemma caching_compute_once_effect:
  "caching_compute_once p c = Some (r, p1, c') \<Longrightarrow> \<exists>cache. c' = c\<lparr>ct_lru_cache := cache\<rparr>"
proof (cases p)
  case FIFO
  assume "caching_compute_once p c = Some (r, p1, c')"
  with FIFO show ?thesis
    by (intro exI [of _ "ct_lru_cache c'"]) (auto simp: fifo_compute_once_def split: if_splits)
qed (intro exI [of _ "ct_lru_cache c'"], auto split: prod.splits)+

lemma housekeeping_tidied:
  assumes "housekeeping c = Some c'"
  shows "tidied c c'"
proof (cases "ct_caching_policy (migrated c)")
  case None
  with assms show ?thesis
    using tidied_update(3) [OF migrated_tidied] by (auto simp: housekeeping_eq)
next
  case (Some p)
  obtain r p1 c1 where cc: "caching_compute_once p (migrated c) = Some (r, p1, c1)"
    using assms Some by (cases "caching_compute_once p (migrated c)") (auto simp: housekeeping_eq)
  then obtain cache where "c1 = (migrated c)\<lparr>ct_lru_cache := cache\<rparr>"
    using caching_compute_once_effect by blast
  then have t: "tidied c (c1\<lparr>ct_caching_policy := Some p1\<rparr>)"
    by (simp add: tidied_update(1) tidied_update(2) migrated_tidied)
  obtain c2 where "c' = c2\<lparr>ct_request_counter := 0\<rparr>"
    "(if r > 0 then perform_back_invalidation (c1\<lparr>ct_caching_policy := Some p1\<rparr>)
      else Some (c1\<lparr>ct_caching_policy := Some p1\<rparr>)) = Some c2"
    using assms Some cc by (auto simp: housekeeping_eq)
  with t show ?thesis
    by (auto intro: tidied_update(3) back_invalidation_tidied split: if_splits)
qed

lemma counter_fold:
  assumes "set evs \<subseteq> {Local, Remote, Hitm}"
  shows "fold counter_increment evs k = k\<lparr>cc_local := cc_local k + of_nat (count_list evs Local),
    cc_remote := cc_remote k + of_nat (count_list evs Remote), cc_hitm := cc_hitm k + of_nat (count_list evs Hitm)\<rparr>"
  using assms by (induction evs arbitrary: k) (auto simp: increment_def)

lemma books_set_thread [simp]: "books (set_thread c tid (thread_at c tid)) tid = books c tid"
  by (simp add: books_def thread_at_def set_thread_def)

text \<open>The last step of \<open>insert\<close> touches neither the counters nor the queues.\<close>

lemma insert_finish:
  assumes "controller_insert c timestamp tid phys virt index = Some (res, c')"
  obtains step c1 c3 where
    "access_loop (nat (index - ct_last_index c)) step (set_thread c tid (thread_at c tid))
       (ct_last_timestamp c) tid phys virt True = Some (res, c1)"
    "tidied (c1\<lparr>ct_request_counter := ct_request_counter c1 + (index - ct_last_index c)\<rparr>) c3"
    "c' = c3\<lparr>ct_last_index := (if index > 0 then index else ct_last_index c),
             ct_switch := set_last_timestamp timestamp (ct_switch c3)\<rparr>"
proof -
  define step where "step = (if index > ct_last_index c
    then (timestamp - ct_last_timestamp c) div word_of_int (index - ct_last_index c) else 0)"
  obtain c1 where l: "access_loop (nat (index - ct_last_index c)) step (set_thread c tid (thread_at c tid))
      (ct_last_timestamp c) tid phys virt True = Some (res, c1)"
    using assms unfolding controller_insert_def step_def Let_def by (auto split: option.splits)
  let ?c2 = "c1\<lparr>ct_request_counter := ct_request_counter c1 + (index - ct_last_index c)\<rparr>"
  obtain c3 where "(if ct_request_counter ?c2 \<ge> 1000 then housekeeping ?c2 else Some ?c2) = Some c3"
    "c' = c3\<lparr>ct_last_index := (if index > 0 then index else ct_last_index c),
             ct_switch := set_last_timestamp timestamp (ct_switch c3)\<rparr>"
    using assms l unfolding controller_insert_def step_def [symmetric] Let_def by auto
  then show ?thesis
    by (intro that [OF l]) (auto simp: housekeeping_tidied tidied_refl split: if_splits)
qed

end
