(* ===== verification/Controller_Runs.thy ===== *)
theory Controller_Runs
  imports CXL_Controller "HOL-Library.Sublist"
begin

text \<open>
  Runs of the controller: what one access does is shown in the theory of the controller; here are the
  properties of whole operations and of sequences of them.

  The lemmas show that in distributed mode every access completes and keeps the controller's
  invariant, that repeated accesses to an address hit the cache, that the reorder buffer window of a
  single thread stays within its size, how latency and bandwidth accumulate, what the distributed
  latency covers, and that calibration gives a valid network model.
\<close>

section \<open>Progress and preservation in distributed mode\<close>

lemma lru_get_ok:
  assumes "cache_ok cache"
  obtains r cache' where "lru_get cache a ts = Some (r, cache')" "cache_ok cache'"
    "r \<noteq> None \<longleftrightarrow> lc_cache cache a \<noteq> None" "r \<noteq> None \<longleftrightarrow> lc_cache cache' a \<noteq> None"
proof -
  have inv: "lru_inv cache"
    using assms by (simp add: cache_ok_def)
  show ?thesis
    by (rule lru_get_cases [OF inv, of a ts]) (use assms that in \<open>auto simp: cache_ok_def\<close>)
qed

lemma lru_put_ok:
  assumes "cache_ok cache"
  obtains cache' where "lru_put cache a v ts = Some cache'" "cache_ok cache'" "lc_cache cache' a \<noteq> None"
proof -
  have inv: "lru_inv cache" "0 < lru_limit cache"
    using assms by (simp_all add: cache_ok_def)
  obtain cache' where c': "lru_put cache a v ts = Some cache'" "lru_inv cache'" "lru_limit cache' = lru_limit cache"
      "lru_keys cache' = recency_add (lru_limit cache) (lru_keys cache) a"
    using lru_put_inv [OF inv, of a v ts] by metis
  then have "lc_cache cache' a \<noteq> None"
    using in_lru_keys [OF c'(2), of a] by (simp add: recency_add_def)
  with c' inv show ?thesis
    by (intro that [of cache']) (simp_all add: cache_ok_def)
qed

lemma tlb_access_ok:
  assumes "tlb_inv t" and "0 < tlb_limit t"
  shows "\<exists>hit t'. cache_access (\<lambda>_ :: unit. tlb_lookup) (\<lambda>_. tlb_insert) t ((), k) = Some (hit, t')
    \<and> tlb_inv t' \<and> tlb_limit t' = tlb_limit t"
proof -
  obtain t1 where t1: "tlb_lookup t k = Some (k \<in> set (tlb_keys t), t1)" "tlb_inv t1" "tlb_limit t1 = tlb_limit t"
    using tlb.lookup_keys [OF assms(1), of k] by auto
  then obtain t2 where "tlb_insert t1 k = Some t2" "tlb_inv t2" "tlb_limit t2 = tlb_limit t"
    using tlb.add_keys [of t1 k] assms(2) by auto
  with t1 show ?thesis
    by (auto simp: cache_access_def)
qed

lemma walk_ok:
  assumes "paging_ok (ct_page_type c) (ct_paging_policy c)"
  obtains ptw pp lat where "walk_page_table c virt phys is_remote =
      Some (ptw, c\<lparr>ct_paging_policy := pp, ct_latency_lat := lat\<rparr>)" "paging_ok (ct_page_type c) pp"
proof -
  have "\<exists>ptw p'. check_page_table_walk p virt phys is_remote (ct_page_type c) = Some (ptw, p')
      \<and> paging_ok (ct_page_type c) (Some p')" if p: "ct_paging_policy c = Some p" for p
  proof (cases p)
    case (HugePage hp)
    then obtain hit t' where "cache_access (\<lambda>_ :: unit. tlb_lookup) (\<lambda>_. tlb_insert)
        (tlb_of (ct_page_type c) hp) ((), page_align (page_bits (ct_page_type c)) virt) = Some (hit, t')"
        "tlb_inv t'" "0 < tlb_limit t'"
      using tlb_access_ok [of "tlb_of (ct_page_type c) hp"] assms p by (fastforce simp: paging_ok_def)
    then show ?thesis
      using walk_tlb [of "ct_page_type c" hp virt hit t' phys is_remote] HugePage
      by (auto simp: paging_ok_def)
  qed (auto simp: paging_ok_def split: prod.splits)
  then show ?thesis
  proof (cases "ct_paging_policy c")
    case None
    then show ?thesis
      by (intro that [of 0 "ct_latency_lat c" None]) (simp_all add: walk_page_table_def paging_ok_def)
  next
    case (Some p)
    with \<open>\<And>p. ct_paging_policy c = Some p \<Longrightarrow> _\<close> obtain ptw p' where
      "check_page_table_walk p virt phys is_remote (ct_page_type c) = Some (ptw, p')"
      "paging_ok (ct_page_type c) (Some p')"
      by blast
    with Some show ?thesis
      by (intro that [of ptw "if ptw > 0 then ct_latency_lat c + double_of_u64 ptw else ct_latency_lat c" "Some p'"])
        (simp_all add: walk_page_table_def)
  qed
qed

lemma cache_if_allowed_ok:
  assumes "cache_ok (ct_lru_cache c)"
  obtains p1 cache where "cache_if_allowed c p a ts = Some (c\<lparr>ct_caching_policy := Some p1, ct_lru_cache := cache\<rparr>)"
    "cache_ok cache" "p \<noteq> FIFO \<longrightarrow> p1 \<noteq> FIFO \<and> lc_cache cache a \<noteq> None"
proof -
  obtain cache where cache: "lru_put (ct_lru_cache c) a a ts = Some cache" "cache_ok cache" "lc_cache cache a \<noteq> None"
    using lru_put_ok [OF assms] by metis
  show ?thesis
  proof (cases "p = FIFO")
    case True
    then show ?thesis
      using assms by (intro that [of "ct_lru_cache c" FIFO]) (simp_all add: cache_if_allowed_def)
  next
    case False
    then have "should_cache p a ts = (True, snd (should_cache p a ts))" "snd (should_cache p a ts) \<noteq> FIFO"
      by (cases p; simp)+
    with cache show ?thesis
      by (intro that [of cache "snd (should_cache p a ts)"])
        (auto simp: cache_if_allowed_def update_cache_def Let_def split: prod.splits)
  qed
qed

text \<open>What every access keeps in distributed mode, and that the address is cached afterwards if allowed.\<close>

definition accessed :: "u64 \<Rightarrow> CXLController \<Rightarrow> CXLController \<Rightarrow> bool" where
  "accessed phys c c' \<longleftrightarrow> controller_ok c' \<and> ct_hdm_decoder c' = ct_hdm_decoder c
     \<and> (caching_allowed (ct_caching_policy c) \<longrightarrow>
          caching_allowed (ct_caching_policy c') \<and> lc_cache (ct_lru_cache c') phys \<noteq> None)"

lemma access_decoded_ok:
  assumes "controller_ok c"
  shows "\<exists>c'. access_decoded c hdm ts tid phys virt = Some c' \<and> accessed phys c c'"
proof -
  let ?d = "decode hdm phys"
  obtain ptw pp lat where w: "walk_page_table c virt phys (dr_is_remote ?d) =
      Some (ptw, c\<lparr>ct_paging_policy := pp, ct_latency_lat := lat\<rparr>)" "paging_ok (ct_page_type c) pp"
    using walk_ok assms by (metis controller_ok_def)
  let ?c1 = "c\<lparr>ct_paging_policy := pp, ct_latency_lat := lat\<rparr>"
  obtain ev h occ where r: "route_decoded ?c1 ?d ts ptw tid phys virt =
       (push_type (count_access ev ?c1) tid (miss_type ev))\<lparr>ct_heap := h, ct_occupation := occ\<rparr>"
    using route_decoded_effect by metis
  let ?c2 = "route_decoded ?c1 ?d ts ptw tid phys virt"
  have c2: "ct_lru_cache ?c2 = ct_lru_cache c" "ct_caching_policy ?c2 = ct_caching_policy c"
    "ct_page_type ?c2 = ct_page_type c" "ct_paging_policy ?c2 = pp" "ct_hdm_decoder ?c2 = ct_hdm_decoder c"
    by (simp_all add: r book_defs)
  show ?thesis
  proof (cases "ct_caching_policy c")
    case None
    then show ?thesis
      using w c2 assms by (simp add: access_decoded_def accessed_def controller_ok_def caching_allowed_def)
  next
    case (Some p)
    obtain p1 cache where "cache_if_allowed ?c2 p phys ts =
        Some (?c2\<lparr>ct_caching_policy := Some p1, ct_lru_cache := cache\<rparr>)"
      "cache_ok cache" "p \<noteq> FIFO \<longrightarrow> p1 \<noteq> FIFO \<and> lc_cache cache phys \<noteq> None"
      using cache_if_allowed_ok [of ?c2 p phys ts] assms c2(1) by (metis controller_ok_def)
    with Some w c2 show ?thesis
      by (simp add: access_decoded_def accessed_def controller_ok_def caching_allowed_def)
  qed
qed

lemma access_one_ok:
  assumes "controller_ok c" and "ct_hdm_decoder c \<noteq> None"
  shows "\<exists>c'. access_one c ts tid phys virt res = Some (res, c') \<and> accessed phys c c'
    \<and> (lc_cache (ct_lru_cache c) phys \<noteq> None \<longrightarrow>
         ct_counter c' = counter_increment Hitm (ct_counter c) \<and> lc_cache (ct_lru_cache c') phys \<noteq> None)
    \<and> (lc_cache (ct_lru_cache c) phys = None \<longrightarrow> cc_hitm (ct_counter c') = cc_hitm (ct_counter c))"
proof -
  obtain hdm where hdm: "ct_hdm_decoder c = Some hdm"
    using assms(2) by blast
  obtain r cache where g: "lru_get (ct_lru_cache c) phys ts = Some (r, cache)" "cache_ok cache"
      "r \<noteq> None \<longleftrightarrow> lc_cache (ct_lru_cache c) phys \<noteq> None" "r \<noteq> None \<longleftrightarrow> lc_cache cache phys \<noteq> None"
    using lru_get_ok assms(1) by (metis controller_ok_def)
  show ?thesis
  proof (cases r)
    case (Some v)
    then show ?thesis
      using g assms(1)
      by (auto simp: access_one_def access_cache_def accessed_def controller_ok_def book_defs)
  next
    case None
    have "controller_ok (c\<lparr>ct_lru_cache := cache\<rparr>)"
      using g(2) assms(1) by (simp add: controller_ok_def)
    then obtain c' where c': "access_decoded (c\<lparr>ct_lru_cache := cache\<rparr>) hdm ts tid phys virt = Some c'"
        "accessed phys (c\<lparr>ct_lru_cache := cache\<rparr>) c'"
      using access_decoded_ok by metis
    obtain ev where "ev \<in> {Local, Remote}" "missed ev tid (c\<lparr>ct_lru_cache := cache\<rparr>) c'"
      using access_decoded_effect [OF c'(1)] by blast
    then have "cc_hitm (ct_counter c') = cc_hitm (ct_counter c)"
      using missed_books(1) by (fastforce simp: books_def booked_def)
    with c' g hdm None show ?thesis
      by (auto simp: access_one_def access_cache_def accessed_def)
  qed
qed

lemma access_loop_hits:
  assumes "controller_ok c" and "ct_hdm_decoder c \<noteq> None" and "lc_cache (ct_lru_cache c) phys \<noteq> None"
  shows "\<exists>c'. access_loop n step c ts tid phys virt res = Some (res, c')
    \<and> ct_counter c' = (ct_counter c)\<lparr>cc_hitm := cc_hitm (ct_counter c) + of_nat n\<rparr>"
  using assms
proof (induction n arbitrary: c ts)
  case (Suc n)
  obtain c1 where "access_one c (ts + step) tid phys virt res = Some (res, c1)" "accessed phys c c1"
    "ct_counter c1 = counter_increment Hitm (ct_counter c)" "lc_cache (ct_lru_cache c1) phys \<noteq> None"
    using access_one_ok [OF Suc.prems(1,2)] Suc.prems(3) by blast
  then show ?case
    using Suc.IH [of c1 "ts + step"] Suc.prems(2) by (auto simp: accessed_def increment_def add.assoc)
qed simp

lemma access_loop_ok:
  assumes "controller_ok c" and "ct_hdm_decoder c \<noteq> None"
  shows "\<exists>c'. access_loop n step c ts tid phys virt res = Some (res, c') \<and> controller_ok c'
    \<and> ct_hdm_decoder c' = ct_hdm_decoder c"
  using assms
proof (induction n arbitrary: c ts)
  case (Suc n)
  obtain c1 where c1: "access_one c (ts + step) tid phys virt res = Some (res, c1)" "accessed phys c c1"
    using access_one_ok [OF Suc.prems] by blast
  then show ?case
    using Suc.IH [of c1] Suc.prems by (auto simp: accessed_def)
qed simp

lemma lru_remove_ok:
  "cache_ok cache \<Longrightarrow> \<exists>r cache'. lru_remove cache a = Some (r, cache') \<and> cache_ok cache'"
  using lru_remove_inv [of cache a] by (auto simp: cache_ok_def)

lemma back_invalidation_ok:
  assumes "cache_ok (ct_lru_cache c)"
  shows "\<exists>c'. perform_back_invalidation c = Some c' \<and> cache_ok (ct_lru_cache c')"
proof (cases "ct_caching_policy c")
  case (Some p)
  obtain addrs p1 where l: "get_invalidation_list p c = (addrs, p1)"
    by fastforce
  show ?thesis
    using invalidate_addresses_eq [of "c\<lparr>ct_caching_policy := Some p1\<rparr>" addrs] assms Some l
    by (auto simp: perform_back_invalidation_def cache_ok_def lru_removed_def frame_simps)
qed (simp add: perform_back_invalidation_def assms)

lemma fifo_ok:
  assumes "cache_ok (ct_lru_cache c)"
  shows "\<exists>r cache. fifo_compute_once c = Some (r, c\<lparr>ct_lru_cache := cache\<rparr>) \<and> cache_ok cache"
proof -
  let ?full = "used_mb (lru_size (ct_lru_cache c)) (ct_page_type c) \<ge> word_of_int (ct_capacity c)
    \<and> snd (fifo_oldest (ct_lru_cache c)) \<noteq> 0"
  obtain r cache where rm: "lru_remove (ct_lru_cache c) (snd (fifo_oldest (ct_lru_cache c))) = Some (r, cache)"
      "cache_ok cache"
    using lru_remove_ok [OF assms] by blast
  have "fifo_compute_once c = (if ?full then Some (1, c\<lparr>ct_lru_cache := cache\<rparr>)
      else Some (0, c\<lparr>ct_lru_cache := ct_lru_cache c\<rparr>))"
    unfolding fifo_compute_once_def rm(1) by simp
  with rm(2) assms show ?thesis
    by (metis (no_types))
qed

lemma caching_compute_once_ok:
  assumes "cache_ok (ct_lru_cache c)"
  shows "\<exists>r p1 cache. caching_compute_once p c = Some (r, p1, c\<lparr>ct_lru_cache := cache\<rparr>) \<and> cache_ok cache"
proof (cases p)
  case FIFO
  then show ?thesis
    using fifo_ok [OF assms] by auto
next
  case CachingPolicy_base
  then have "caching_compute_once p c = Some (0, CachingPolicy_base, c\<lparr>ct_lru_cache := ct_lru_cache c\<rparr>)"
    by simp
  with assms show ?thesis
    by blast
next
  case (FrequencyInvalidation fp)
  obtain l p1 where "frequency_invalidation_list fp c = (l, p1)"
    by fastforce
  then have "caching_compute_once p c =
      Some (if l = [] then 0 else 1, CachingPolicy.FrequencyInvalidation p1, c\<lparr>ct_lru_cache := ct_lru_cache c\<rparr>)"
    by (simp add: FrequencyInvalidation)
  with assms show ?thesis
    by blast
qed

lemma migrated_fields [simp]:
  "ct_lru_cache (migrated c) = ct_lru_cache c" "ct_caching_policy (migrated c) = ct_caching_policy c"
  by (simp_all add: migrated_def split: option.splits)

lemma housekeeping_ok:
  assumes "controller_ok c"
  shows "\<exists>c'. housekeeping c = Some c' \<and> controller_ok c' \<and> ct_hdm_decoder c' = ct_hdm_decoder c"
proof -
  have cache: "cache_ok (ct_lru_cache (migrated c))"
    using assms by (simp add: controller_ok_def)
  have "\<exists>c'. housekeeping c = Some c' \<and> cache_ok (ct_lru_cache c')"
  proof (cases "ct_caching_policy c")
    case None
    with cache show ?thesis
      by (simp add: housekeeping_eq)
  next
    case (Some p)
    obtain r p1 cache where cc: "caching_compute_once p (migrated c)
        = Some (r, p1, (migrated c)\<lparr>ct_lru_cache := cache\<rparr>)" "cache_ok cache"
      using caching_compute_once_ok [OF cache] by blast
    then show ?thesis
      using Some back_invalidation_ok [of "(migrated c)\<lparr>ct_lru_cache := cache, ct_caching_policy := Some p1\<rparr>"]
      by (auto simp: housekeeping_eq)
  qed
  then obtain c' where "housekeeping c = Some c'" "cache_ok (ct_lru_cache c')"
    by blast
  then show ?thesis
    using assms tidied_fields [OF housekeeping_tidied] by (auto simp: controller_ok_def)
qed

lemma set_thread_fields [frame_simps]:
  "ct_hdm_decoder (set_thread c tid t) = ct_hdm_decoder c" "ct_counter (set_thread c tid t) = ct_counter c"
  "ct_lru_cache (set_thread c tid t) = ct_lru_cache c"
  "ct_caching_policy (set_thread c tid t) = ct_caching_policy c"
  "controller_ok (set_thread c tid t) = controller_ok c" "ct_occupation (set_thread c tid t) = ct_occupation c"
  by (simp_all add: set_thread_def controller_ok_def)

definition insert_step :: "CXLController \<Rightarrow> u64 \<Rightarrow> int \<Rightarrow> u64" where
  "insert_step c timestamp index = (if index > ct_last_index c
     then (timestamp - ct_last_timestamp c) div word_of_int (index - ct_last_index c) else 0)"

lemma insert_ok:
  assumes "access_loop (nat (index - ct_last_index c)) (insert_step c timestamp index)
      (set_thread c tid (thread_at c tid)) (ct_last_timestamp c) tid phys virt True = Some (True, c1)"
    and "controller_ok c1"
  shows "\<exists>c'. controller_insert c timestamp tid phys virt index = Some (True, c') \<and> controller_ok c'
    \<and> ct_hdm_decoder c' = ct_hdm_decoder c1 \<and> cc_hitm (ct_counter c') = cc_hitm (ct_counter c1)"
proof -
  let ?c2 = "c1\<lparr>ct_request_counter := ct_request_counter c1 + (index - ct_last_index c)\<rparr>"
  have ok: "controller_ok ?c2"
    using assms(2) by (simp add: controller_ok_def)
  obtain c3 where c3: "(if ct_request_counter ?c2 \<ge> 1000 then housekeeping ?c2 else Some ?c2) = Some c3"
      "controller_ok c3" "tidied ?c2 c3"
    using housekeeping_ok [OF ok] ok housekeeping_tidied tidied_refl by metis
  let ?c' = "c3\<lparr>ct_last_index := (if index > 0 then index else ct_last_index c),
             ct_switch := set_last_timestamp timestamp (ct_switch c3)\<rparr>"
  have "controller_insert c timestamp tid phys virt index = Some (True, ?c')"
    using assms(1) c3(1) by (simp add: controller_insert_def insert_step_def [symmetric] Let_def)
  moreover have "controller_ok ?c'"
    using c3(2) by (simp add: controller_ok_def)
  ultimately show ?thesis
    using tidied_fields [OF c3(3)] by simp
qed

lemma distributed_step:
  assumes "controller_ok c" and "ct_hdm_decoder c \<noteq> None"
  shows "\<exists>c'. controller_insert c ts tid phys virt index = Some (True, c') \<and> controller_ok c'
    \<and> ct_hdm_decoder c' = ct_hdm_decoder c"
proof -
  obtain c1 where "access_loop (nat (index - ct_last_index c)) (insert_step c ts index)
      (set_thread c tid (thread_at c tid)) (ct_last_timestamp c) tid phys virt True = Some (True, c1)"
      "controller_ok c1" "ct_hdm_decoder c1 = ct_hdm_decoder c"
    using access_loop_ok [of "set_thread c tid (thread_at c tid)"] assms
    by (metis set_thread_fields(1) set_thread_fields(5))
  then show ?thesis
    using insert_ok by metis
qed

text \<open>A sequence of calls of \<open>insert\<close>: their time stamps, threads, addresses and indices.\<close>

fun insert_all :: "CXLController \<Rightarrow> (u64 \<times> u64 \<times> u64 \<times> u64 \<times> int) list \<Rightarrow> CXLController option" where
  "insert_all c [] = Some c"
| "insert_all c ((ts, tid, phys, virt, index) # calls) =
     (case controller_insert c ts tid phys virt index of
        Some (True, c1) \<Rightarrow> insert_all c1 calls
      | _ \<Rightarrow> None)"

text \<open>
  C6. In distributed mode the controller never gets stuck: from a well-formed controller with an HDM
  decoder, any sequence of accesses completes, every one of them returns true, and the controller is
  well-formed afterwards: its cache and the TLB in use are consistent.
\<close>

theorem distributed_accesses_complete:
  assumes "controller_ok c" and "ct_hdm_decoder c \<noteq> None"
  shows "\<exists>c'. insert_all c calls = Some c' \<and> controller_ok c' \<and> ct_hdm_decoder c' = ct_hdm_decoder c"
  using assms
proof (induction calls arbitrary: c)
  case (Cons call calls)
  obtain ts tid phys virt index where call: "call = (ts, tid, phys, virt, index)"
    by (cases call)
  obtain c2 where "controller_insert c ts tid phys virt index = Some (True, c2)" "controller_ok c2"
      "ct_hdm_decoder c2 = ct_hdm_decoder c"
    using distributed_step [OF Cons.prems] by blast
  then show ?case
    using Cons.IH [of c2] Cons.prems(2) by (simp add: call)
qed simp

text \<open>
  C24. Repeated accesses to one address hit the cache: when the caching policy allows caching, an
  \<open>insert\<close> in distributed mode that stands for \<open>n\<close> accesses to an address counts \<open>n\<close> cache hits if the
  address is cached already, and \<open>n - 1\<close> otherwise.
\<close>

theorem burst_hits_cache:
  assumes "controller_ok c" and "ct_hdm_decoder c \<noteq> None" and "caching_allowed (ct_caching_policy c)"
    and "ct_last_index c < index"
  shows "\<exists>c'. controller_insert c timestamp tid phys virt index = Some (True, c')
    \<and> cc_hitm (ct_counter c') + (if lru_contains (ct_lru_cache c) phys then 0 else 1)
      = cc_hitm (ct_counter c) + of_int (index - ct_last_index c)"
proof -
  let ?c0 = "set_thread c tid (thread_at c tid)" and ?s = "insert_step c timestamp index"
  let ?ts = "ct_last_timestamp c"
  obtain n where n: "nat (index - ct_last_index c) = Suc n"
    using assms(4) by (metis less_diff_eq add_0 zero_less_nat_eq gr0_conv_Suc)
  then have m: "of_int (index - ct_last_index c) = (of_nat (Suc n) :: u64)"
    by (metis assms(4) less_imp_le diff_ge_0_iff_ge of_nat_nat)
  obtain c1 where c1: "access_one ?c0 (?ts + ?s) tid phys virt True = Some (True, c1)" "accessed phys ?c0 c1"
      "lc_cache (ct_lru_cache c) phys \<noteq> None \<longrightarrow> ct_counter c1 = counter_increment Hitm (ct_counter c)"
      "lc_cache (ct_lru_cache c) phys = None \<longrightarrow> cc_hitm (ct_counter c1) = cc_hitm (ct_counter c)"
    using access_one_ok [of ?c0] assms by (metis set_thread_fields)
  then have cached: "controller_ok c1" "ct_hdm_decoder c1 \<noteq> None" "lc_cache (ct_lru_cache c1) phys \<noteq> None"
    using assms by (simp_all add: accessed_def frame_simps)
  obtain c2 where c2: "access_loop n ?s c1 (?ts + ?s) tid phys virt True = Some (True, c2)" "controller_ok c2"
      "ct_counter c2 = (ct_counter c1)\<lparr>cc_hitm := cc_hitm (ct_counter c1) + of_nat n\<rparr>"
    using access_loop_hits [OF cached] access_loop_ok [OF cached(1,2)] by (metis option.inject prod.inject)
  have "access_loop (nat (index - ct_last_index c)) ?s ?c0 ?ts tid phys virt True = Some (True, c2)"
    using c1(1) c2(1) by (simp add: n)
  then obtain c' where c': "controller_insert c timestamp tid phys virt index = Some (True, c')"
      "cc_hitm (ct_counter c') = cc_hitm (ct_counter c2)"
    using insert_ok c2(2) by metis
  show ?thesis
    unfolding m using c' c1(3,4) by (cases "lc_cache (ct_lru_cache c) phys = None")
      (simp_all add: c2(3) lru_contains_def increment_def)
qed

section \<open>The reorder buffer window\<close>

definition m_at :: "rob_info \<Rightarrow> int \<Rightarrow> int" where
  "m_at rob k = (case ri_m_count rob k of None \<Rightarrow> 0 | Some n \<Rightarrow> n)"

text \<open>The misses in the buffer are counted by their types.\<close>

definition rob_counts :: "thread_info \<Rightarrow> bool" where
  "rob_counts t \<longleftrightarrow> (\<forall>k. m_at (ti_rob t) k = int (count_list (ti_llcm_type_rob t) k))"

abbreviation ring_ins :: "lbr list \<Rightarrow> nat" where
  "ring_ins ring \<equiv> sum_list (map lbr_ins ring)"

abbreviation ring_llcm :: "lbr list \<Rightarrow> nat" where
  "ring_llcm ring \<equiv> sum_list (map lbr_llcm ring)"

text \<open>The buffer of a thread agrees with the records in the ring.\<close>

definition rob_ok :: "lbr list \<Rightarrow> thread_info \<Rightarrow> bool" where
  "rob_ok ring t \<longleftrightarrow>
     ri_ins_count (ti_rob t) = int (ring_ins ring) \<and> ri_llcm_count (ti_rob t) = int (ring_llcm ring)
     \<and> length (ti_llcm_type_rob t) = ring_llcm ring \<and> rob_counts t"

definition misses_seen :: "thread_info \<Rightarrow> int" where
  "misses_seen t = ri_llcm_base (ti_rob t) + ri_llcm_count (ti_rob t)"

lemma add_m_count_fields [simp]:
  "m_at (add_m_count k d rob) j = m_at rob j + (if j = k then d else 0)"
  "ri_ins_count (add_m_count k d rob) = ri_ins_count rob"
  "ri_llcm_count (add_m_count k d rob) = ri_llcm_count rob"
  "ri_llcm_base (add_m_count k d rob) = ri_llcm_base rob"
  by (simp_all add: m_at_def add_m_count_def split: option.splits)

lemma m_at_fields [simp]:
  "m_at (rob\<lparr>ri_ins_count := a\<rparr>) = m_at rob" "m_at (rob\<lparr>ri_llcm_count := a\<rparr>) = m_at rob"
  "m_at (rob\<lparr>ri_llcm_base := a\<rparr>) = m_at rob"
  by (simp_all add: m_at_def fun_eq_iff)

lemma issue_misses_spec:
  "rob_counts t \<Longrightarrow> rob_counts (issue_misses n t)
     \<and> length (ti_llcm_type_rob (issue_misses n t)) = length (ti_llcm_type_rob t) + n
     \<and> ri_ins_count (ti_rob (issue_misses n t)) = ri_ins_count (ti_rob t)
     \<and> ri_llcm_count (ti_rob (issue_misses n t)) = ri_llcm_count (ti_rob t)
     \<and> ri_llcm_base (ti_rob (issue_misses n t)) = ri_llcm_base (ti_rob t)"
  by (induction n t rule: issue_misses.induct) (simp_all add: Let_def rob_counts_def)

lemma retire_misses_spec:
  "rob_counts t \<Longrightarrow> n \<le> length (ti_llcm_type_rob t) \<Longrightarrow>
     \<exists>t'. retire_misses n t = Some t' \<and> rob_counts t'
       \<and> length (ti_llcm_type_rob t') = length (ti_llcm_type_rob t) - n
       \<and> ri_ins_count (ti_rob t') = ri_ins_count (ti_rob t)
       \<and> ri_llcm_count (ti_rob t') = ri_llcm_count (ti_rob t)
       \<and> ri_llcm_base (ti_rob t') = ri_llcm_base (ti_rob t)"
proof (induction n t rule: retire_misses.induct)
  case (2 n t)
  then obtain k ks where k: "ti_llcm_type_rob t = k # ks"
    by (cases "ti_llcm_type_rob t") auto
  let ?t = "t\<lparr>ti_rob := add_m_count k (- 1) (ti_rob t), ti_llcm_type_rob := ks\<rparr>"
  have "rob_counts ?t"
    using 2(2) by (auto simp: rob_counts_def k split: if_splits)
  with 2 k show ?case
    by auto
qed simp

lemma retire_loop_spec:
  assumes "rob_ok ring t"
  shows "\<exists>ring' t'. retire_loop ring t = Some (ring', t') \<and> rob_ok ring' t' \<and> suffix ring' ring
    \<and> ring_ins ring' \<le> nat ROB_SIZE \<and> misses_seen t' = misses_seen t
    \<and> (\<forall>pre l. ring = pre @ l # ring' \<longrightarrow> nat ROB_SIZE < lbr_ins l + ring_ins ring')"
  using assms
proof (induction ring arbitrary: t)
  case Nil
  then show ?case
    by (simp add: rob_ok_def)
next
  case (Cons old ring)
  show ?case
  proof (cases "ri_ins_count (ti_rob t) > ROB_SIZE")
    case False
    then show ?thesis
      using Cons.prems by (auto simp: rob_ok_def)
  next
    case True
    let ?rob = "(ti_rob t)\<lparr>ri_ins_count := ri_ins_count (ti_rob t) - int (lbr_ins old),
      ri_llcm_count := ri_llcm_count (ti_rob t) - int (lbr_llcm old),
      ri_llcm_base := ri_llcm_base (ti_rob t) + int (lbr_llcm old)\<rparr>"
    have "rob_counts (t\<lparr>ti_rob := ?rob\<rparr>)" "lbr_llcm old \<le> length (ti_llcm_type_rob (t\<lparr>ti_rob := ?rob\<rparr>))"
      using Cons.prems by (simp_all add: rob_ok_def rob_counts_def)
    from retire_misses_spec [OF this] obtain t1 where
      t1: "retire_misses (lbr_llcm old) (t\<lparr>ti_rob := ?rob\<rparr>) = Some t1" "rob_ok ring t1"
        "misses_seen t1 = misses_seen t"
      using Cons.prems by (auto simp: rob_ok_def misses_seen_def)
    have big: "nat ROB_SIZE < lbr_ins old + ring_ins ring"
      using True Cons.prems by (simp add: rob_ok_def)
    obtain ring' t' where r: "retire_loop ring t1 = Some (ring', t')" "rob_ok ring' t'" "suffix ring' ring"
        "ring_ins ring' \<le> nat ROB_SIZE" "misses_seen t' = misses_seen t1"
        "\<forall>pre l. ring = pre @ l # ring' \<longrightarrow> nat ROB_SIZE < lbr_ins l + ring_ins ring'"
      using Cons.IH [OF t1(2)] by blast
    have "nat ROB_SIZE < lbr_ins l + ring_ins ring'" if "old # ring = pre @ l # ring'" for pre l
      using that big r(6) by (cases pre) auto
    with r True t1 show ?thesis
      by (auto simp: Let_def suffix_Cons)
  qed
qed

lemma insert_one_spec:
  assumes "rob_ok ring t"
  shows "\<exists>ring' t'. insert_one ring t l = Some (ring', t') \<and> rob_ok ring' t' \<and> suffix ring' (ring @ [l])
    \<and> ring_ins ring' \<le> nat ROB_SIZE \<and> misses_seen t' = misses_seen t + int (lbr_llcm l)
    \<and> (\<forall>pre x. ring @ [l] = pre @ x # ring' \<longrightarrow> nat ROB_SIZE < lbr_ins x + ring_ins ring')"
proof -
  let ?t1 = "issue_misses (lbr_llcm l) t"
  let ?t2 = "?t1\<lparr>ti_rob := (ti_rob ?t1)\<lparr>ri_llcm_count := ri_llcm_count (ti_rob ?t1) + int (lbr_llcm l),
      ri_ins_count := ri_ins_count (ti_rob ?t1) + int (lbr_ins l)\<rparr>\<rparr>"
  have "rob_ok (ring @ [l]) ?t2" "misses_seen ?t2 = misses_seen t + int (lbr_llcm l)"
    using assms issue_misses_spec [of t "lbr_llcm l"] by (auto simp: rob_ok_def rob_counts_def misses_seen_def)
  with retire_loop_spec [of "ring @ [l]" ?t2] show ?thesis
    by (simp add: insert_one_def Let_def)
qed

text \<open>
  C18. The reorder buffer of a thread is a sliding window over its branch records: as long as the
  ring holds the records of that thread alone, adding a record never underflows a queue; it keeps
  the longest suffix of the records whose instructions fit into the buffer of 512 entries, the
  instruction and miss counts are those of that suffix, the misses in the buffer are counted by
  type, and no miss is lost: those retired and those in the buffer add up to all seen so far.
\<close>

theorem insert_one_window:
  assumes "rob_ok ring t"
  shows "\<exists>ring' t'. insert_one ring t l = Some (ring', t') \<and> rob_ok ring' t' \<and> suffix ring' (ring @ [l])
    \<and> ring_ins ring' \<le> 512 \<and> misses_seen t' = misses_seen t + int (lbr_llcm l)
    \<and> (\<forall>pre x. ring @ [l] = pre @ x # ring' \<longrightarrow> 512 < lbr_ins x + ring_ins ring')"
  using insert_one_spec [OF assms, of l] by simp

lemma rob_ok_new: "rob_ok [] new_thread_info"
  by (simp add: rob_ok_def rob_counts_def m_at_def new_thread_info_def)

theorem insert_one_window_witness:
  "\<exists>ring' t'. insert_one [] new_thread_info \<lparr>lb_from = 1, lb_to = 0, lb_flags = 65537\<rparr> = Some (ring', t')
    \<and> rob_ok ring' t' \<and> misses_seen t' = 1"
  using insert_one_window [OF rob_ok_new, of "\<lparr>lb_from = 1, lb_to = 0, lb_flags = 65537\<rparr>"]
  by (auto simp: misses_seen_def lbr_llcm_def new_thread_info_def)

lemma insert_records_spec:
  "rob_ok ring t \<Longrightarrow> ring_ins ring \<le> nat ROB_SIZE \<Longrightarrow>
     \<exists>ring' t'. insert_records ring t ls = Some (ring', t') \<and> rob_ok ring' t' \<and> ring_ins ring' \<le> nat ROB_SIZE"
proof (induction ls arbitrary: ring t)
  case (Cons l ls)
  obtain ring1 t1 where "insert_one ring t l = Some (ring1, t1)" "rob_ok ring1 t1" "ring_ins ring1 \<le> nat ROB_SIZE"
    using insert_one_spec [OF Cons.prems(1)] by blast
  then show ?case
    using Cons by simp
qed simp

text \<open>The bandwidth a device or a switch reports is what is left over, as a number that is never positive.\<close>

lemma endpoint_bandwidth_nonpos: "endpoint_calculate_bandwidth x elems \<le> 0"
  by (cases x) (simp_all add: calculate_bandwidth_def remote_calculate_bandwidth_def Let_def)

lemma fold_bandwidth_nonpos:
  "bw \<le> 0 \<Longrightarrow> fold (\<lambda>p bw. bw + endpoint_calculate_bandwidth (h p) elems) es bw \<le> 0"
  by (induction es arbitrary: bw) (simp_all add: endpoint_bandwidth_nonpos add_nonpos_nonpos)

lemma switch_bandwidth_nonpos:
  "switch_calculate_bandwidth h s elems \<le> 0"
  "bw \<le> 0 \<Longrightarrow> switches_bandwidth h ss elems bw \<le> 0"
  by (induction h s elems and h ss elems bw rule: switch_calculate_bandwidth_switches_bandwidth.induct)
    (simp_all add: fold_bandwidth_nonpos add_nonpos_nonpos)

text \<open>
  Feeding the branch records of a thread to the controller always succeeds while that thread is
  the only one: the reorder buffer stays within its 512 entries, the accumulated latency never
  decreases, and the accumulated bandwidth delay never changes, since no device ever reports a
  positive one.
\<close>

theorem insert_lbrs_effect:
  assumes "rob_ok (ct_ring_buffer c) (thread_at c tid)" and "ring_ins (ct_ring_buffer c) \<le> 512"
  shows "\<exists>c'. insert_lbrs c timestamp tid lbrs = Some (0, c')
    \<and> rob_ok (ct_ring_buffer c') (thread_at c' tid) \<and> ring_ins (ct_ring_buffer c') \<le> 512
    \<and> ct_latency_lat c \<le> ct_latency_lat c' \<and> ct_bandwidth_lat c' = ct_bandwidth_lat c"
proof -
  obtain ring t where r: "insert_records (ct_ring_buffer c) (thread_at c tid) (take 32 lbrs) = Some (ring, t)"
      "rob_ok ring t" "ring_ins ring \<le> 512"
    using insert_records_spec [OF assms(1)] assms(2) by force
  have zero: "max (controller_calculate_bandwidth c' elems) 0 = 0" for c' elems
    using switch_bandwidth_nonpos(1) by (simp add: controller_calculate_bandwidth_def max_def)
  show ?thesis
    using r
    by (auto simp: insert_lbrs_def controller_get_access_def controller_calculate_congestion_def zero
        set_thread_def thread_at_def Let_def split: prod.splits)
qed

theorem insert_lbrs_effect_witness:
  "\<exists>c'. insert_lbrs example_controller 5 7 [\<lparr>lb_from = 1, lb_to = 0, lb_flags = 65537\<rparr>] = Some (0, c')
    \<and> ct_bandwidth_lat c' = 0"
proof -
  have "rob_ok (ct_ring_buffer example_controller) (thread_at example_controller 7)"
    "ring_ins (ct_ring_buffer example_controller) \<le> 512"
    by (simp_all add: example_controller_def new_CXLController_def thread_at_def rob_ok_new)
  from insert_lbrs_effect [OF this] show ?thesis
    by (auto simp: example_controller_def new_CXLController_def)
qed

text \<open>
  With two threads the shared ring breaks the window: the second thread retires a record of the
  first, whose miss is not in its own buffer, and reads the front of an empty queue.
\<close>

lemma shared_ring_underflow:
  "insert_one [\<lparr>lb_from = 1, lb_to = 0, lb_flags = 500 * 65536 + 1\<rparr>] new_thread_info
     \<lparr>lb_from = 1, lb_to = 0, lb_flags = 600 * 65536\<rparr> = None"
  by (simp add: insert_one_def lbr_llcm_def lbr_ins_def new_thread_info_def Let_def)

section \<open>Latency in distributed mode\<close>

text \<open>
  An endpoint is in order when it is a local expander in a reachable state, or a remote one with a
  working link and an engine that is alive.
\<close>

fun endpoint_ok :: "fabric_env \<Rightarrow> endpoint \<Rightarrow> bool" where
  "endpoint_ok env (Local_expander x) \<longleftrightarrow> expander_inv x"
| "endpoint_ok env (Remote_expander r) \<longleftrightarrow> engine_alive r env \<and> link_ok (rm_fabric_link r)
     \<and> rm_local_node_id r \<noteq> UINT32_MAX \<and> 0 \<le> remote_base_latency r"

definition fabric_ok :: "fabric \<Rightarrow> nat set \<Rightarrow> bool" where
  "fabric_ok fb E \<longleftrightarrow> env_ok (fb_env fb) \<and> (\<forall>p \<in> E. endpoint_ok (fb_env fb) (fb_heap fb p))"

definition same_engine :: "fabric_env \<Rightarrow> fabric_env \<Rightarrow> bool" where
  "same_engine env env' \<longleftrightarrow> map_option fst (fe_engine env') = map_option fst (fe_engine env)"

lemma same_engine_refl [simp]: "same_engine env env"
  by (simp add: same_engine_def)

lemma remote_access_engine:
  "remote_access r env ts addr = Some (lat, r', env') \<Longrightarrow> same_engine env env'"
  by (auto simp: remote_access_def engine_read_def same_engine_def Let_def split: option.splits prod.splits if_splits)

lemma remote_loop_engine:
  "remote_latency_loop r env elems acc n = Some (tot, cnt, r', env') \<Longrightarrow> same_engine env env'"
proof (induction r env elems acc n rule: remote_latency_loop.induct)
  case (2 r env ts addr elems acc n)
  show ?case
  proof (cases "in_remote_range r addr")
    case False
    then show ?thesis
      using 2(1,3) by simp
  next
    case True
    then obtain lat r1 env1 where a: "remote_access r env ts addr = Some (lat, r1, env1)"
      using 2(3) by (cases "remote_access r env ts addr") auto
    then have "same_engine env1 env'"
      using 2(2) [of "(lat, r1, env1)" lat "(r1, env1)" r1 env1] 2(3) True by simp
    with remote_access_engine [OF a] show ?thesis
      by (simp add: same_engine_def)
  qed
qed simp

lemma engine_alive_same: "same_engine env env' \<Longrightarrow> engine_alive r env \<Longrightarrow> engine_alive r env'"
  by (force simp: engine_alive_def same_engine_def map_option_case split: option.splits)

lemma endpoint_ok_same: "same_engine env env' \<Longrightarrow> endpoint_ok env x \<Longrightarrow> endpoint_ok env' x"
  by (cases x) (auto intro: engine_alive_same)

lemma endpoint_latency_ok:
  assumes "env_ok env" and "endpoint_ok env x"
  shows "\<exists>lat x' env'. endpoint_calculate_latency x env elems dram = Some (lat, x', env') \<and> 0 \<le> lat
    \<and> env_ok env' \<and> same_engine env env' \<and> endpoint_ok env' x'"
proof (cases x)
  case (Local_expander e)
  have "expander_inv e"
    using assms(2) Local_expander by simp
  then have "fst (calculate_latency e elems dram) = 0" "expander_inv (snd (calculate_latency e elems dram))"
    using expander_inv_step [of e "Calculate_latency elems dram"]
    by (simp_all add: calculate_latency_blind expander_inv_def)
  with assms(1) Local_expander show ?thesis
    by (cases "calculate_latency e elems dram") simp
next
  case (Remote_expander r)
  have r: "engine_alive r env" "link_ok (rm_fabric_link r)" "rm_local_node_id r \<noteq> UINT32_MAX"
      "0 \<le> remote_base_latency r"
    using assms(2) Remote_expander by simp_all
  have "real 0 * remote_base_latency r \<le> 0"
    by simp
  from remote_loop_spec [OF assms(1) r(1-3) this, of elems]
  obtain tot cnt r' env' where l: "remote_latency_loop r env elems 0 0 = Some (tot, cnt, r', env')"
      "real cnt * remote_base_latency r \<le> tot" "remote_frame r r'" "env_ok env'" "engine_alive r' env'"
    by fast
  have "0 \<le> tot"
    using l(2) r(4) by (smt (verit) mult_nonneg_nonneg of_nat_0_le_iff)
  moreover have "same_engine env env'"
    using l(1) by (rule remote_loop_engine)
  moreover have "endpoint_ok env' (Remote_expander r')"
    using l(5) r remote_frame_fields [OF l(3)] by simp
  ultimately show ?thesis
    using l assms Remote_expander r by (auto simp: remote_calculate_latency_def)
qed

lemma expanders_latency_ok:
  "fabric_ok fb E \<Longrightarrow> set ps \<subseteq> E \<Longrightarrow>
     \<exists>lat' fb'. expanders_latency fb ps elems dram lat = Some (lat', fb') \<and> lat \<le> lat' \<and> fabric_ok fb' E"
proof (induction ps arbitrary: fb lat)
  case (Cons p ps)
  then have "env_ok (fb_env fb)" "endpoint_ok (fb_env fb) (fb_heap fb p)"
    by (simp_all add: fabric_ok_def)
  from endpoint_latency_ok [OF this] obtain l x' env' where
    x: "endpoint_calculate_latency (fb_heap fb p) (fb_env fb) elems dram = Some (l, x', env')" "0 \<le> l"
      "env_ok env'" "same_engine (fb_env fb) env'" "endpoint_ok env' x'"
    by blast
  let ?fb = "\<lparr>fb_heap = (fb_heap fb)(p := x'), fb_env = env'\<rparr>"
  have "fabric_ok ?fb E"
    using Cons.prems(1) x endpoint_ok_same [OF x(4)] by (simp add: fabric_ok_def)
  then obtain lat' fb' where "expanders_latency ?fb ps elems dram (lat + l) = Some (lat', fb')"
      "lat + l \<le> lat'" "fabric_ok fb' E"
    using Cons.IH [of ?fb "lat + l"] Cons.prems(2) by auto
  with x show ?case
    by auto
qed simp

text \<open>
  C25. The latency of an access to another node covers the network: with every endpoint of the tree in
  order, the distributed latency is defined, it is at least the point-to-point time of the LogP
  model, and computing it leaves every endpoint in order and the tree as it was.
\<close>

theorem distributed_latency_covers_network:
  fixes c
  defines "E \<equiv> set (switch_endpoints (ct_switch c))"
  assumes "fabric_ok (controller_fabric c) E" and "elems \<noteq> []" and "target_node \<noteq> head_id"
  shows "\<exists>lat c'. calculate_distributed_latency c elems head_id target_node = Some (lat, c')
    \<and> p2p_latency (ct_logp_model c') \<le> lat \<and> fabric_ok (controller_fabric c') E
    \<and> ct_switch c' = ct_switch c"
proof -
  obtain base fb where b: "expanders_latency (controller_fabric c) (switch_endpoints (ct_switch c)) elems
      (ct_dramlatency c) 0 = Some (base, fb)" "0 \<le> base" "fabric_ok fb E"
    using expanders_latency_ok [OF assms(2), of "switch_endpoints (ct_switch c)" elems "ct_dramlatency c" 0]
    by (auto simp: E_def)
  define m where "m = fe_logp (fb_env fb)"
  have m: "logp_ok m"
    using b(3) by (simp add: fabric_ok_def env_ok_def m_def)
  define net where "net = message_latency m (fst (last elems)) target_node"
  define m' where "m' = record_message (snd net) target_node (u64_of_double (fst net))"
  have m': "logp_ok m'" "p2p_latency m' = p2p_latency m"
    using m by (simp_all add: m'_def net_def logp_ok_record logp_ok_send p2p_latency_def frame_simps)
  have net: "p2p_latency m \<le> fst net"
    using gap_wait_nonneg [of m] queue_wait_nonneg [OF logp_ok_send [OF m]]
    by (simp add: net_def fst_message_latency add_nonneg_nonneg)
  define c2 where "c2 = (set_fabric c fb)\<lparr>ct_logp_model := m'\<rparr>"
  have np: "network_part (set_fabric c fb) head_id target_node (fst (last elems)) = (fst net, c2)"
    using assms(4) by (simp add: network_part_def calculate_logp_latency_def set_fabric_def c2_def m'_def
        net_def m_def split: prod.splits)
  obtain coh c3 where cp: "coherency_part c2 elems head_id = (coh, c3)" "0 \<le> coh"
      "controller_fabric c3 = controller_fabric c2" "ct_logp_model c3 = m'" "ct_switch c3 = ct_switch c"
    by (cases "coherency_part c2 elems head_id")
      (auto simp: coherency_part_def controller_fabric_def c2_def set_fabric_def split: option.splits prod.splits)
  have "calculate_distributed_latency c elems head_id target_node = Some (base + fst net + coh, c3)"
    using assms(3) b(1) np cp(1)
    by (simp add: calculate_distributed_latency_def controller_calculate_latency_def switch_latency_flat)
  moreover have "endpoint_ok \<lparr>fe_engine = fe_engine (fb_env fb), fe_logp = m'\<rparr> x"
    if "endpoint_ok (fb_env fb) x" for x
    using that by (rule endpoint_ok_same [rotated]) (simp add: same_engine_def)
  then have "fabric_ok (controller_fabric c3) E"
    using b(3) m'(1) unfolding cp(3)
    by (simp add: fabric_ok_def controller_fabric_def c2_def set_fabric_def env_ok_def)
  ultimately show ?thesis
    using b(2) net cp m'(2) by auto
qed

section \<open>Examples\<close>

definition example_distributed :: CXLController where
  "example_distributed = snd (add_remote_endpoint
     (configure_distributed (configure_logp example_controller default_LogPConfig) 0 RANGE_BASED)
     1 0x40000000 0x40000000 \<lparr>fl_latency_ns = 100, fl_bandwidth_gbps = 25, fl_max_credits = 32\<rparr>)"

lemmas example_distributed_defs = example_distributed_def add_remote_endpoint_def configure_distributed_def
  configure_logp_def example_controller_def new_CXLController_def new_endpoint_def push_expander_def
  new_CXLSwitch_def reconfigure_def default_LogPModel_def Let_def

lemma example_distributed_fabric:
  "fabric_ok (controller_fabric example_distributed) (set (switch_endpoints (ct_switch example_distributed)))"
proof -
  have "logp_ok (reconfigure default_LogPModel default_LogPConfig)"
    by (rule logp_ok_reconfigure) (simp add: logp_config_ok_def default_LogPConfig_def)
  moreover from this have "engine_inv (new_CoherencyEngine 0 (Some (reconfigure default_LogPModel default_LogPConfig)) 16 25)"
    by (intro engine_inv_new) auto
  ultimately show ?thesis
    by (simp add: example_distributed_defs fabric_ok_def controller_fabric_def env_ok_def engine_alive_def
        new_RemoteCXLExpander_def new_FabricLink_def link_ok_def remote_base_latency_def new_CXLMemExpander_def)
qed

theorem distributed_latency_covers_network_witness:
  "\<exists>lat c'. calculate_distributed_latency example_distributed [(5, 0x40000040)] 0 1 = Some (lat, c')
    \<and> p2p_latency (ct_logp_model c') \<le> lat"
  using distributed_latency_covers_network [OF example_distributed_fabric, of "[(5, 0x40000040)]" 1 0] by auto

lemma example_distributed_ok:
  "controller_ok example_distributed" "ct_hdm_decoder example_distributed \<noteq> None"
  "caching_allowed (ct_caching_policy example_distributed)" "ct_last_index example_distributed = 0"
  "ct_counter example_distributed = new_CXLCounter" "\<not> lru_contains (ct_lru_cache example_distributed) a"
  by (simp_all add: example_distributed_defs controller_ok_def cache_ok_def paging_ok_def caching_allowed_def
      lru_limit_def lru_contains_def) (simp_all add: new_LRUCache_def)

theorem distributed_accesses_complete_witness:
  "\<exists>c'. insert_all example_distributed [(5, 7, 0x40000040, 64, 2), (9, 8, 64, 64, 3)] = Some c' \<and> controller_ok c'"
  using distributed_accesses_complete [OF example_distributed_ok(1,2)] by blast

theorem burst_hits_cache_witness:
  "\<exists>c'. controller_insert example_distributed 5 7 0x40000040 64 3 = Some (True, c') \<and> cc_hitm (ct_counter c') = 2"
  using burst_hits_cache [OF example_distributed_ok(1,2,3), where index = 3 and timestamp = 5 and tid = 7
      and phys = "0x40000040" and virt = 64]
  by (auto simp: example_distributed_ok new_CXLCounter_def)

section \<open>Counting\<close>

text \<open>
  C7. Every access is counted once, under one heading: an \<open>insert\<close> that stands for \<open>n\<close> accesses adds
  \<open>n\<close> in total to the counters of local, remote and cached accesses, and queues the same \<open>n\<close> accesses
  for the thread's reorder buffer, in order, with type 1 exactly for the remote ones.
\<close>

theorem insert_counts_once:
  assumes "controller_insert c timestamp tid phys virt index = Some (res, c')"
  shows "\<exists>evs. length evs = nat (index - ct_last_index c) \<and> set evs \<subseteq> {Local, Remote, Hitm}
    \<and> cc_local (ct_counter c') = cc_local (ct_counter c) + of_nat (count_list evs Local)
    \<and> cc_remote (ct_counter c') = cc_remote (ct_counter c) + of_nat (count_list evs Remote)
    \<and> cc_hitm (ct_counter c') = cc_hitm (ct_counter c) + of_nat (count_list evs Hitm)
    \<and> ti_llcm_type (thread_at c' tid) = ti_llcm_type (thread_at c tid) @ map miss_type evs"
proof -
  obtain step c1 c3 where l: "access_loop (nat (index - ct_last_index c)) step
      (set_thread c tid (thread_at c tid)) (ct_last_timestamp c) tid phys virt True = Some (res, c1)"
    and t: "tidied (c1\<lparr>ct_request_counter := ct_request_counter c1 + (index - ct_last_index c)\<rparr>) c3"
    and c': "c' = c3\<lparr>ct_last_index := (if index > 0 then index else ct_last_index c),
             ct_switch := set_last_timestamp timestamp (ct_switch c3)\<rparr>"
    by (rule insert_finish [OF assms])
  obtain evs where evs: "length evs = nat (index - ct_last_index c)" "set evs \<subseteq> {Local, Remote, Hitm}"
    and b: "books c1 tid = booked evs (books c tid)"
    using access_loop_effect [OF l] by (metis books_set_thread)
  have "ct_counter c1 = fold counter_increment evs (ct_counter c)"
    "ti_llcm_type (thread_at c1 tid) = ti_llcm_type (thread_at c tid) @ map miss_type evs"
    using b by (simp_all add: books_def booked_def)
  with evs show ?thesis
    using tidied_fields [OF t]
    by (intro exI [of _ evs]) (simp add: c' counter_fold [OF evs(2)] thread_at_def)
qed

theorem insert_counts_once_witness:
  "\<exists>c'. controller_insert example_distributed 5 7 0x40000040 64 3 = Some (True, c')
    \<and> (\<exists>evs. length evs = 3 \<and> ti_llcm_type (thread_at c' 7) = map miss_type evs)"
proof -
  obtain c' where c': "controller_insert example_distributed 5 7 0x40000040 64 3 = Some (True, c')"
    using distributed_step [OF example_distributed_ok(1,2)] by blast
  show ?thesis
    using c' insert_counts_once [OF c'] example_distributed_ok(4)
    by (auto simp: thread_at_def new_thread_info_def example_distributed_defs)
qed

section \<open>Configuration\<close>

text \<open>
  Calibration from measured values gives a valid network model: whatever was measured, the
  parameters end up within the clamped ranges, the gap is positive, so that the queueing estimate is
  defined, and the number of nodes is kept.
\<close>

theorem calibration_valid:
  fixes c r
  defines "c' \<equiv> calibrate_logp_from_tcp c r"
  assumes "tr_valid r"
  shows "logp_ok (ct_logp_model c')
    \<and> 500 \<le> lp_L (lm_config (ct_logp_model c')) \<and> lp_L (lm_config (ct_logp_model c')) \<le> 500000
    \<and> 100 \<le> lp_o_s (lm_config (ct_logp_model c')) \<and> lp_o_s (lm_config (ct_logp_model c')) \<le> 100000
    \<and> 100 \<le> lp_o_r (lm_config (ct_logp_model c')) \<and> lp_o_r (lm_config (ct_logp_model c')) \<le> 100000
    \<and> 10 \<le> lp_g (lm_config (ct_logp_model c')) \<and> lp_g (lm_config (ct_logp_model c')) \<le> 50000
    \<and> lp_P (lm_config (ct_logp_model c')) = lp_P (lm_config (ct_logp_model c))"
proof -
  define L o_s o_r g where "L = max (1 / 2) (min (tr_L r) 500)" and "o_s = max (1 / 10) (min (tr_o_s r) 100)"
    and "o_r = max (1 / 10) (min (tr_o_r r) 100)" and "g = max (1 / 100) (min (tr_g r) 50)"
  note vals = this
  have b: "1 / 2 \<le> L" "L \<le> 500" "1 / 10 \<le> o_s" "o_s \<le> 100" "1 / 10 \<le> o_r" "o_r \<le> 100" "1 / 100 \<le> g" "g \<le> 50"
    unfolding vals by simp_all
  let ?cfg = "\<lparr>lp_L = L * 1000, lp_o_s = o_s * 1000, lp_o_r = o_r * 1000, lp_g = g * 1000,
    lp_P = lp_P (lm_config (ct_logp_model c))\<rparr>"
  have m: "ct_logp_model c' = reconfigure (ct_logp_model c) ?cfg"
    using assms(2) by (simp add: c'_def calibrate_logp_from_tcp_def Let_def vals)
  have "logp_config_ok ?cfg"
    using b by (simp add: logp_config_ok_def)
  then show ?thesis
    unfolding m using b by (simp add: logp_ok_reconfigure) (simp add: reconfigure_def)
qed

theorem calibration_valid_witness:
  "logp_ok (ct_logp_model (calibrate_logp_from_tcp example_controller
     \<lparr>tr_L = 0, tr_o_s = 1, tr_o_r = 1, tr_g = 0, tr_samples = 9, tr_valid = True\<rparr>))"
  using calibration_valid [of "\<lparr>tr_L = 0, tr_o_s = 1, tr_o_r = 1, tr_g = 0, tr_samples = 9, tr_valid = True\<rparr>"
      example_controller] by simp

text \<open>
  Configuring the distributed mode again destroys the coherency engine, and the remote endpoints
  added before keep pointing at it.
\<close>

lemma reconfigure_dangles:
  "controller_calculate_latency (configure_distributed example_distributed 0 RANGE_BASED) [(5, 0x40000040)] 80 = None"
  by (simp add: example_distributed_defs controller_calculate_latency_def controller_fabric_def
      remote_calculate_latency_def new_RemoteCXLExpander_def in_remote_range_def remote_access_def
      engine_read_def split: prod.splits)

text \<open>The heads of the device that \<open>enable_mhsld\<close> makes are never activated, so its accesses cost nothing.\<close>

lemma mhsld_idle:
  "mhsld_read (enable_mhsld c num_heads bw) head_id addr ts = (0, enable_mhsld c num_heads bw)"
  by (simp add: mhsld_read_def enable_mhsld_def read_with_coherency_def head_active_def new_MHSLDDevice_def
      Let_def split: prod.splits)

text \<open>
  The records of local accesses all hold the address 1: the address of the access is stored in the
  field for the time stamp.
\<close>

lemma local_records_address_one:
  assumes "controller_insert c timestamp tid phys virt index = Some (res, c')"
    and "local_addresses (ct_occupation c) \<subseteq> {1}"
  shows "local_addresses (ct_occupation c') \<subseteq> {1}"
proof -
  obtain step c1 c3 where l: "access_loop (nat (index - ct_last_index c)) step
      (set_thread c tid (thread_at c tid)) (ct_last_timestamp c) tid phys virt True = Some (res, c1)"
    and t: "tidied (c1\<lparr>ct_request_counter := ct_request_counter c1 + (index - ct_last_index c)\<rparr>) c3"
    and c': "c' = c3\<lparr>ct_last_index := (if index > 0 then index else ct_last_index c),
             ct_switch := set_last_timestamp timestamp (ct_switch c3)\<rparr>"
    by (rule insert_finish [OF assms(1)])
  have "local_addresses (ct_occupation c1) \<subseteq> insert 1 (local_addresses (ct_occupation c))"
    using access_loop_effect [OF l] by (metis set_thread_fields(6))
  then show ?thesis
    using assms(2) tidied_fields(5) [OF t] by (simp add: c') blast
qed

end
