(* ===== verification/Byte_Memory.thy ===== *)
theory Byte_Memory
  imports Prelude
begin

text \<open>
  Byte-addressed memory as the servers of the repository use it: a mapped region is a function from
  offsets to bytes, \<open>memcpy\<close> reads and writes a run of bytes, and a 64-bit value is stored in the
  little-endian order of the machines the sources are built for.  The size of a region and the
  bounds of an access are kept by the component that owns the region.
\<close>

section \<open>Copying bytes\<close>

type_synonym memory = "nat \<Rightarrow> u8"

definition mem_read :: "memory \<Rightarrow> nat \<Rightarrow> nat \<Rightarrow> u8 list" where
  "mem_read m off n = map (\<lambda>i. m (off + i)) [0..<n]"

definition mem_write :: "memory \<Rightarrow> nat \<Rightarrow> u8 list \<Rightarrow> memory" where
  "mem_write m off bs = (\<lambda>i. if off \<le> i \<and> i < off + length bs then bs ! (i - off) else m i)"

text \<open>The little-endian digits of a number, and the number they stand for.\<close>

fun le_digits :: "nat \<Rightarrow> nat \<Rightarrow> nat list" where
  "le_digits 0 n = []"
| "le_digits (Suc k) n = n mod 256 # le_digits k (n div 256)"

fun le_value :: "nat list \<Rightarrow> nat" where
  "le_value [] = 0"
| "le_value (d # ds) = d + 256 * le_value ds"

definition bytes_of_u64 :: "u64 \<Rightarrow> u8 list" where
  "bytes_of_u64 w = map of_nat (le_digits 8 (unat w))"

definition u64_of_bytes :: "u8 list \<Rightarrow> u64" where
  "u64_of_bytes bs = of_nat (le_value (map unat bs))"

definition load64 :: "memory \<Rightarrow> nat \<Rightarrow> u64" where
  "load64 m off = u64_of_bytes (mem_read m off 8)"

definition store64 :: "memory \<Rightarrow> nat \<Rightarrow> u64 \<Rightarrow> memory" where
  "store64 m off w = mem_write m off (bytes_of_u64 w)"

section \<open>Laws\<close>

lemma length_mem_read [simp]: "length (mem_read m off n) = n"
  by (simp add: mem_read_def)

lemma nth_mem_read [simp]: "i < n \<Longrightarrow> mem_read m off n ! i = m (off + i)"
  by (simp add: mem_read_def)

lemma mem_read_write_same [simp]: "mem_read (mem_write m off bs) off (length bs) = bs"
  by (rule nth_equalityI) (simp_all add: mem_write_def)

lemma mem_write_outside: "i < off \<or> off + length bs \<le> i \<Longrightarrow> mem_write m off bs i = m i"
  by (auto simp: mem_write_def)

lemma mem_read_cong: "(\<And>i. i < n \<Longrightarrow> m (off + i) = m' (off + i)) \<Longrightarrow> mem_read m off n = mem_read m' off n"
  by (simp add: mem_read_def)

lemma mem_read_write_disjoint:
  assumes "off + n \<le> off' \<or> off' + length bs \<le> off"
  shows "mem_read (mem_write m off' bs) off n = mem_read m off n"
  using assms by (intro mem_read_cong) (auto simp: mem_write_def)

lemma mem_write_write_same: "length bs = length cs \<Longrightarrow> mem_write (mem_write m off bs) off cs = mem_write m off cs"
  by (auto simp: mem_write_def)

lemma length_le_digits [simp]: "length (le_digits k n) = k"
  by (induction k arbitrary: n) simp_all

lemma le_digits_less: "d \<in> set (le_digits k n) \<Longrightarrow> d < 256"
  by (induction k arbitrary: n) auto

lemma le_value_digits: "le_value (le_digits k n) = n mod 256 ^ k"
  by (induction k arbitrary: n) (simp_all add: mod_mult2_eq)

lemma length_bytes_of_u64 [simp]: "length (bytes_of_u64 w) = 8"
  by (simp add: bytes_of_u64_def)

lemma u64_of_bytes_of_u64 [simp]: "u64_of_bytes (bytes_of_u64 w) = w"
proof -
  have "map unat (bytes_of_u64 w) = le_digits 8 (unat w)"
    unfolding bytes_of_u64_def list.map_comp
    by (rule map_idI) (use le_digits_less in \<open>auto simp: unat_of_nat\<close>)
  then show ?thesis
    using unat_u64_less [of w] by (simp add: u64_of_bytes_def le_value_digits)
qed

lemma load_store_same [simp]: "load64 (store64 m off w) off = w"
  using mem_read_write_same [of m off "bytes_of_u64 w"] by (simp add: load64_def store64_def)

lemma load_store_disjoint: "off + 8 \<le> off' \<or> off' + 8 \<le> off \<Longrightarrow> load64 (store64 m off' w) off = load64 m off"
  by (simp add: load64_def store64_def mem_read_write_disjoint)

lemma store64_outside: "i < off \<or> off + 8 \<le> i \<Longrightarrow> store64 m off w i = m i"
  by (simp add: store64_def mem_write_outside)

end
