(* ===== verification/Shm_Manager.thy ===== *)
theory Shm_Manager
  imports Byte_Memory
begin

text \<open>
  The shared memory behind the server, \<open>SharedMemoryManager\<close> of
  \<open>src/include/shared_memory_manager.h\<close> and \<open>src/src/shared_memory_manager.cc\<close>: a header and a data
  area of 64-byte cache lines in one mapping, addresses mapped to lines either from a base address
  or, when the base is 0, modulo the number of lines, and a local table of coherency metadata.

  A \<^const>\<open>None\<close> is undefined behaviour of the C++ code (a remainder by zero, or a copy outside the
  mapped data area).  The outcome of the system calls (\<open>shm_open\<close>, \<open>mmap\<close>, \<open>msync\<close>, \<open>getenv\<close>) is an
  argument.  A copy of \<open>size\<close> bytes from a buffer takes the list of these bytes.
\<close>

section \<open>Data\<close>

datatype CoherencyState = CS_INVALID | CS_SHARED | CS_EXCLUSIVE | CS_MODIFIED

record CachelineMetadata =
  cm_state :: CoherencyState
  cm_sharers :: "int set"
  cm_owner :: int
  cm_last_access_time :: u64
  cm_has_dirty_update :: bool
  cm_dirty_update_time :: u64
  cm_version :: u64

definition new_CachelineMetadata :: CachelineMetadata where
  "new_CachelineMetadata = \<lparr>cm_state = CS_INVALID, cm_sharers = {}, cm_owner = - 1, cm_last_access_time = 0,
     cm_has_dirty_update = False, cm_dirty_update_time = 0, cm_version = 0\<rparr>"

record SharedMemoryHeader =
  sh_magic :: u64
  sh_version :: u64
  sh_total_size :: u64
  sh_data_offset :: u64
  sh_metadata_offset :: u64
  sh_num_cachelines :: u64
  sh_base_addr :: u64

record MemoryRegion =
  mr_base_addr :: u64
  mr_size :: u64
  mr_allocated :: bool

record SharedMemoryManager =
  sm_shm_name :: string
  sm_capacity_mb :: u64
  sm_shm_size :: u64
  sm_header :: "SharedMemoryHeader option"
  sm_data_area :: memory
  sm_metadata_cache :: "(u64 \<times> CachelineMetadata) list"
  sm_regions :: "MemoryRegion list"

record SharedMemoryInfo =
  si_shm_name :: string
  si_size :: u64
  si_base_addr :: u64
  si_num_cachelines :: u64

record MemoryStats =
  ms_total_capacity :: u64
  ms_used_memory :: u64
  ms_num_cachelines :: u64
  ms_active_cachelines :: u64

text \<open>\<open>MAGIC_NUMBER\<close>, \<open>FORMAT_VERSION\<close> and \<open>sizeof(SharedMemoryHeader)\<close>, seven 8-byte fields.\<close>

definition MAGIC_NUMBER :: u64 where
  "MAGIC_NUMBER = 0x43584C4D454D5348"

definition FORMAT_VERSION :: u64 where
  "FORMAT_VERSION = 1"

abbreviation header_size :: nat where "header_size \<equiv> 56"

section \<open>Construction and initialisation\<close>

definition new_SharedMemoryManager :: "u64 \<Rightarrow> string \<Rightarrow> SharedMemoryManager" where
  "new_SharedMemoryManager capacity_mb shm_name =
     \<lparr>sm_shm_name = shm_name, sm_capacity_mb = capacity_mb, sm_shm_size = capacity_mb * 1024 * 1024,
      sm_header = None, sm_data_area = (\<lambda>_. 0), sm_metadata_cache = [], sm_regions = []\<rparr>"

text \<open>The header found in the mapping, and the value of \<open>CXL_BASE_ADDR\<close> if the variable is set.\<close>

definition initialize_header :: "u64 \<Rightarrow> u64 option \<Rightarrow> SharedMemoryHeader \<Rightarrow> SharedMemoryHeader" where
  "initialize_header shm_size base_addr_env header =
     (if sh_magic header = MAGIC_NUMBER \<and> sh_version header = FORMAT_VERSION then header
      else \<lparr>sh_magic = MAGIC_NUMBER, sh_version = FORMAT_VERSION, sh_total_size = shm_size,
            sh_data_offset = of_nat header_size, sh_metadata_offset = 0,
            sh_num_cachelines = (shm_size - of_nat header_size) div 64,
            sh_base_addr = (case base_addr_env of Some base \<Rightarrow> base | None \<Rightarrow> 0)\<rparr>)"

definition initialize_data_area :: "SharedMemoryManager \<Rightarrow> SharedMemoryHeader \<Rightarrow> SharedMemoryManager" where
  "initialize_data_area m header =
     m\<lparr>sm_data_area := (if sh_magic header \<noteq> MAGIC_NUMBER then (\<lambda>_. 0) else sm_data_area m),
       sm_regions := sm_regions m @ [\<lparr>mr_base_addr = sh_base_addr header,
         mr_size = sh_num_cachelines header * 64, mr_allocated = False\<rparr>]\<rparr>"

text \<open>
  \<open>initialize\<close>: the mapping is what the system calls return, the header and the bytes the region
  holds, or \<^const>\<open>None\<close> when one of them fails.
\<close>

definition manager_initialize ::
  "SharedMemoryManager \<Rightarrow> (SharedMemoryHeader \<times> memory) option \<Rightarrow> u64 option \<Rightarrow> bool \<times> SharedMemoryManager" where
  "manager_initialize m mapping base_addr_env =
     (case mapping of
        None \<Rightarrow> (False, m)
      | Some (header0, bytes) \<Rightarrow>
          let header = initialize_header (sm_shm_size m) base_addr_env header0
          in (True, initialize_data_area (m\<lparr>sm_header := Some header, sm_data_area := bytes\<rparr>) header))"

definition set_base_addr :: "SharedMemoryManager \<Rightarrow> u64 \<Rightarrow> SharedMemoryManager" where
  "set_base_addr m addr = m\<lparr>sm_header := map_option (\<lambda>h. h\<lparr>sh_base_addr := addr\<rparr>) (sm_header m)\<rparr>"

definition get_shm_info :: "SharedMemoryManager \<Rightarrow> SharedMemoryInfo" where
  "get_shm_info m =
     \<lparr>si_shm_name = sm_shm_name m, si_size = sm_shm_size m,
      si_base_addr = (case sm_header m of Some h \<Rightarrow> sh_base_addr h | None \<Rightarrow> 0),
      si_num_cachelines = (case sm_header m of Some h \<Rightarrow> sh_num_cachelines h | None \<Rightarrow> 0)\<rparr>"

section \<open>Access to the data area\<close>

definition cacheline_to_index :: "SharedMemoryManager \<Rightarrow> u64 \<Rightarrow> u64 option" where
  "cacheline_to_index m cacheline_addr =
     (case sm_header m of
        None \<Rightarrow> Some 0
      | Some h \<Rightarrow>
          if sh_base_addr h = 0
          then if sh_num_cachelines h = 0 then None
               else Some ((cacheline_addr div 64) mod sh_num_cachelines h)
          else Some ((cacheline_addr - sh_base_addr h) div 64))"

text \<open>A copy of \<open>n\<close> bytes at an offset of the data area stays inside the mapping.\<close>

definition in_data_area :: "SharedMemoryManager \<Rightarrow> nat \<Rightarrow> nat \<Rightarrow> bool" where
  "in_data_area m off n \<longleftrightarrow> off + n \<le> unat (sm_shm_size m) - header_size"

text \<open>\<open>get_cacheline_data\<close>: the offset of the line in the data area, \<open>Some None\<close> for a null pointer.\<close>

definition get_cacheline_data :: "SharedMemoryManager \<Rightarrow> u64 \<Rightarrow> nat option option" where
  "get_cacheline_data m cacheline_addr =
     (case sm_header m of
        None \<Rightarrow> Some None
      | Some h \<Rightarrow>
          if sh_base_addr h = 0
          then map_option (\<lambda>index. Some (unat index * 64)) (cacheline_to_index m cacheline_addr)
          else if cacheline_addr < sh_base_addr h then Some None
          else map_option
                 (\<lambda>index. if index \<ge> sh_num_cachelines h then None else Some (unat index * 64))
                 (cacheline_to_index m cacheline_addr))"

text \<open>The loop of \<open>read_cacheline\<close> over the lines a request spans, in modulo mode.\<close>

function read_loop :: "SharedMemoryManager \<Rightarrow> u64 \<Rightarrow> nat \<Rightarrow> nat \<Rightarrow> u8 list option" where
  "read_loop m addr sz bytes_read =
     (if bytes_read < sz then
        let current_addr = addr + of_nat bytes_read;
            cacheline_addr = cl_align current_addr;
            offset = unat (current_addr - cacheline_addr);
            bytes_in_cacheline = min (sz - bytes_read) (64 - offset)
        in case cacheline_to_index m cacheline_addr of
             None \<Rightarrow> None
           | Some index \<Rightarrow>
               if in_data_area m (unat index * 64 + offset) bytes_in_cacheline
               then map_option
                      (append (mem_read (sm_data_area m) (unat index * 64 + offset) bytes_in_cacheline))
                      (read_loop m addr sz (bytes_read + bytes_in_cacheline))
               else None
      else Some [])"
  by pat_completeness auto
termination
  by (relation "measure (\<lambda>(m, addr, sz, bytes_read). sz - bytes_read)") (auto simp: unat_cl_offset)

definition read_cacheline :: "SharedMemoryManager \<Rightarrow> u64 \<Rightarrow> nat \<Rightarrow> u8 list option option" where
  "read_cacheline m addr sz =
     (if sz = 0 \<or> sz > 64 then Some None
      else if (case sm_header m of Some h \<Rightarrow> sh_base_addr h = 0 | None \<Rightarrow> False)
      then map_option Some (read_loop m addr sz 0)
      else
        let cacheline_addr = cl_align addr in
        case get_cacheline_data m cacheline_addr of
          None \<Rightarrow> None
        | Some None \<Rightarrow> Some None
        | Some (Some cacheline_data) \<Rightarrow>
            let offset = unat (addr - cacheline_addr)
            in if offset + sz > 64 then Some None
               else if in_data_area m (cacheline_data + offset) sz
               then Some (Some (mem_read (sm_data_area m) (cacheline_data + offset) sz))
               else None)"

function write_loop :: "u64 \<Rightarrow> u8 list \<Rightarrow> nat \<Rightarrow> SharedMemoryManager \<Rightarrow> SharedMemoryManager option" where
  "write_loop addr data bytes_written m =
     (if bytes_written < length data then
        let current_addr = addr + of_nat bytes_written;
            cacheline_addr = cl_align current_addr;
            offset = unat (current_addr - cacheline_addr);
            bytes_in_cacheline = min (length data - bytes_written) (64 - offset)
        in case cacheline_to_index m cacheline_addr of
             None \<Rightarrow> None
           | Some index \<Rightarrow>
               if in_data_area m (unat index * 64 + offset) bytes_in_cacheline
               then write_loop addr data (bytes_written + bytes_in_cacheline)
                      (m\<lparr>sm_data_area := mem_write (sm_data_area m) (unat index * 64 + offset)
                           (take bytes_in_cacheline (drop bytes_written data))\<rparr>)
               else None
      else Some m)"
  by pat_completeness auto
termination
  by (relation "measure (\<lambda>(addr, data, bytes_written, m). length data - bytes_written)")
    (auto simp: unat_cl_offset)

text \<open>\<open>write_cacheline\<close>; \<open>synced\<close> is whether the final \<open>msync\<close> succeeds.\<close>

definition write_cacheline ::
  "SharedMemoryManager \<Rightarrow> u64 \<Rightarrow> u8 list \<Rightarrow> bool \<Rightarrow> (bool \<times> SharedMemoryManager) option" where
  "write_cacheline m addr data synced =
     (if length data = 0 \<or> length data > 64 then Some (False, m)
      else if (case sm_header m of Some h \<Rightarrow> sh_base_addr h = 0 | None \<Rightarrow> False)
      then map_option (\<lambda>m'. (synced, m')) (write_loop addr data 0 m)
      else
        let cacheline_addr = cl_align addr in
        case get_cacheline_data m cacheline_addr of
          None \<Rightarrow> None
        | Some None \<Rightarrow> Some (False, m)
        | Some (Some cacheline_data) \<Rightarrow>
            let offset = unat (addr - cacheline_addr)
            in if offset + length data > 64 then Some (False, m)
               else if in_data_area m (cacheline_data + offset) (length data)
               then Some (synced, m\<lparr>sm_data_area :=
                      mem_write (sm_data_area m) (cacheline_data + offset) data\<rparr>)
               else None)"

definition is_valid_address :: "SharedMemoryManager \<Rightarrow> u64 \<Rightarrow> bool" where
  "is_valid_address m addr =
     (case sm_header m of
        None \<Rightarrow> False
      | Some h \<Rightarrow>
          if sh_base_addr h = 0 then True
          else addr \<ge> sh_base_addr h \<and> addr < sh_base_addr h + sh_num_cachelines h * 64)"

section \<open>Metadata, regions and statistics\<close>

text \<open>
  \<open>get_cacheline_metadata\<close> returns a pointer into the table; callers update the entry through it,
  here with \<open>set_cacheline_metadata\<close>.
\<close>

definition get_cacheline_metadata ::
  "SharedMemoryManager \<Rightarrow> u64 \<Rightarrow> CachelineMetadata \<times> SharedMemoryManager" where
  "get_cacheline_metadata m cacheline_addr =
     (case map_of (sm_metadata_cache m) cacheline_addr of
        Some metadata \<Rightarrow> (metadata, m)
      | None \<Rightarrow>
          (new_CachelineMetadata,
           m\<lparr>sm_metadata_cache := map_set cacheline_addr new_CachelineMetadata (sm_metadata_cache m)\<rparr>))"

definition set_cacheline_metadata ::
  "SharedMemoryManager \<Rightarrow> u64 \<Rightarrow> CachelineMetadata \<Rightarrow> SharedMemoryManager" where
  "set_cacheline_metadata m cacheline_addr metadata =
     m\<lparr>sm_metadata_cache := map_set cacheline_addr metadata (sm_metadata_cache m)\<rparr>"

fun allocate_in :: "MemoryRegion list \<Rightarrow> u64 \<Rightarrow> u64 \<Rightarrow> bool \<times> MemoryRegion list" where
  "allocate_in [] addr sz = (False, [])"
| "allocate_in (region # regions) addr sz =
     (if addr \<ge> mr_base_addr region \<and> addr + sz \<le> mr_base_addr region + mr_size region
         \<and> \<not> mr_allocated region
      then (True, region\<lparr>mr_allocated := True\<rparr> # regions)
      else (case allocate_in regions addr sz of (found, rs) \<Rightarrow> (found, region # rs)))"

definition allocate_region :: "SharedMemoryManager \<Rightarrow> u64 \<Rightarrow> u64 \<Rightarrow> bool \<times> SharedMemoryManager" where
  "allocate_region m addr sz =
     (case allocate_in (sm_regions m) addr sz of (found, rs) \<Rightarrow> (found, m\<lparr>sm_regions := rs\<rparr>))"

fun deallocate_in :: "MemoryRegion list \<Rightarrow> u64 \<Rightarrow> bool \<times> MemoryRegion list" where
  "deallocate_in [] addr = (False, [])"
| "deallocate_in (region # regions) addr =
     (if mr_base_addr region = addr \<and> mr_allocated region
      then (True, region\<lparr>mr_allocated := False\<rparr> # regions)
      else (case deallocate_in regions addr of (found, rs) \<Rightarrow> (found, region # rs)))"

definition deallocate_region :: "SharedMemoryManager \<Rightarrow> u64 \<Rightarrow> bool \<times> SharedMemoryManager" where
  "deallocate_region m addr =
     (case deallocate_in (sm_regions m) addr of (found, rs) \<Rightarrow> (found, m\<lparr>sm_regions := rs\<rparr>))"

definition manager_get_stats :: "SharedMemoryManager \<Rightarrow> MemoryStats" where
  "manager_get_stats m =
     (let active = of_nat (length (sm_metadata_cache m))
      in \<lparr>ms_total_capacity = sm_capacity_mb m * 1024 * 1024, ms_used_memory = active * 64,
          ms_num_cachelines = (case sm_header m of Some h \<Rightarrow> sh_num_cachelines h | None \<Rightarrow> 0),
          ms_active_cachelines = active\<rparr>)"

section \<open>The address map\<close>

text \<open>
  A manager is usable once it is initialised on a mapping that holds at least one line and all the
  lines the header promises.
\<close>

definition manager_ok :: "SharedMemoryManager \<Rightarrow> bool" where
  "manager_ok m \<longleftrightarrow>
     (case sm_header m of
        None \<Rightarrow> False
      | Some h \<Rightarrow> 0 < sh_num_cachelines h
          \<and> unat (sh_num_cachelines h) * 64 \<le> unat (sm_shm_size m) - header_size)"

text \<open>The cell of the data area that holds the byte of an address, and that byte.\<close>

definition byte_offset :: "SharedMemoryManager \<Rightarrow> u64 \<Rightarrow> nat" where
  "byte_offset m a = unat (the (cacheline_to_index m (cl_align a))) * 64 + unat a mod 64"

definition byte_at :: "SharedMemoryManager \<Rightarrow> u64 \<Rightarrow> u8" where
  "byte_at m a = sm_data_area m (byte_offset m a)"

text \<open>The requests the manager serves.\<close>

definition accessible :: "SharedMemoryManager \<Rightarrow> u64 \<Rightarrow> nat \<Rightarrow> bool" where
  "accessible m a n \<longleftrightarrow> 0 < n \<and> n \<le> 64 \<and>
     (case sm_header m of
        None \<Rightarrow> False
      | Some h \<Rightarrow> sh_base_addr h = 0
          \<or> (sh_base_addr h \<le> cl_align a \<and> (cl_align a - sh_base_addr h) div 64 < sh_num_cachelines h
             \<and> unat a mod 64 + n \<le> 64))"

lemma unat_add_in_line:
  assumes "unat a mod 64 + j < 64"
  shows "unat (a + of_nat j :: u64) = unat a + j"
proof -
  have "unat a div 64 < 2 ^ 58" using unat_u64_less [of a] by (simp add: less_mult_imp_div_less)
  then have "unat a div 64 * 64 + 64 \<le> 2 ^ 64" by simp
  then have "unat a + j < 2 ^ 64"
    using assms div_mult_mod_eq [of "unat a" 64] by linarith
  moreover have "unat (of_nat j :: u64) = j" using assms by (intro unat_of_nat_small) simp
  ultimately show ?thesis by (simp add: unat_add_no_wrap)
qed

lemma unat_add_mod_line: "unat (a + of_nat j :: u64) mod 64 = (unat a + j) mod 64"
proof -
  have "(64::nat) dvd 2 ^ 64" by simp
  then show ?thesis by (simp add: unat_word_ariths unat_of_nat mod_mod_cancel mod_simps)
qed

lemma add_in_line:
  assumes "(x::nat) mod 64 + j < 64"
  shows "(x + j) div 64 = x div 64" "(x + j) mod 64 = x mod 64 + j"
proof -
  have x: "x + j = (x mod 64 + j) + x div 64 * 64" by simp
  show "(x + j) div 64 = x div 64"
    by (subst x, subst div_mult_self1) (use assms in simp_all)
  show "(x + j) mod 64 = x mod 64 + j"
    by (subst x, subst mod_mult_self1) (use assms in simp)
qed

lemma add_mod_line_cancel:
  assumes "((x::nat) + i) mod 64 = (x + j) mod 64" and "i < 64" "j < 64"
  shows "i = j"
proof -
  have "64 dvd int (x + i) - int (x + j)"
    using assms(1) by (metis mod_eq_dvd_iff of_nat_mod of_nat_numeral)
  then obtain k where k: "int i - int j = 64 * k" by (auto elim: dvdE)
  have "k = 0" using k assms(2,3) by linarith
  with k show ?thesis by simp
qed

lemma byte_offset_shift:
  assumes "unat a mod 64 + j < 64"
  shows "byte_offset m (a + of_nat j) = byte_offset m a + j"
proof -
  have "(unat a + j) div 64 = unat a div 64" "(unat a + j) mod 64 = unat a mod 64 + j"
    using add_in_line [OF assms] by simp_all
  moreover from this have "cl_align (a + of_nat j) = cl_align a"
    by (simp add: cl_align_eq_iff unat_add_in_line [OF assms])
  ultimately show ?thesis
    by (simp add: byte_offset_def unat_add_in_line [OF assms])
qed

lemma byte_offset_inj:
  assumes "byte_offset m (a + of_nat i) = byte_offset m (a + of_nat j)" and "i < 64" "j < 64"
  shows "i = j"
proof -
  have "(unat a + i) mod 64 = (unat a + j) mod 64"
    using arg_cong [OF assms(1), of "\<lambda>n. n mod 64"]
    by (simp add: byte_offset_def unat_add_mod_line)
  then show ?thesis
    using assms(2,3) by (rule add_mod_line_cancel)
qed


section \<open>Reading and writing bytes\<close>

lemma index_ok:
  assumes "manager_ok m" "accessible m a n"
  obtains index where "cacheline_to_index m (cl_align a) = Some index" "byte_offset m a = unat index * 64 + unat a mod 64"
    "unat index * 64 + 64 \<le> unat (sm_shm_size m) - header_size"
proof -
  obtain h where h: "sm_header m = Some h" "0 < sh_num_cachelines h"
      "unat (sh_num_cachelines h) * 64 \<le> unat (sm_shm_size m) - header_size"
    using assms(1) by (auto simp: manager_ok_def split: option.splits)
  have "\<exists>index. cacheline_to_index m (cl_align a) = Some index \<and> index < sh_num_cachelines h"
    using h assms(2)
    by (cases "sh_base_addr h = 0") (auto simp: cacheline_to_index_def accessible_def word_mod_less_divisor)
  then obtain index where i: "cacheline_to_index m (cl_align a) = Some index" "index < sh_num_cachelines h"
    by blast
  then have "unat index * 64 + 64 \<le> unat (sh_num_cachelines h) * 64"
    by (simp add: word_less_nat_alt)
  then have "unat index * 64 + 64 \<le> unat (sm_shm_size m) - header_size"
    using h(3) by (rule order_trans)
  with i(1) show thesis by (intro that) (simp_all add: byte_offset_def)
qed

text \<open>One step of the loops: the part of a request inside one line.\<close>

lemma line_bytes:
  assumes "unat a mod 64 + n \<le> 64"
  shows "mem_read (sm_data_area m) (byte_offset m a) n = map (\<lambda>i. byte_at m (a + of_nat i)) [0..<n]"
  using assms by (auto simp: mem_read_def byte_at_def byte_offset_shift)


lemma map_shift_upt: "map (\<lambda>i. f (k + i)) [0..<b] = map f [k..<k + b]"
  by (rule nth_equalityI) simp_all

lemma read_loop_eq:
  assumes "manager_ok m" "\<And>b. accessible m b 1" "k \<le> n"
  shows "read_loop m a n k = Some (map (\<lambda>i. byte_at m (a + of_nat i)) [k..<n])"
  using assms
proof (induction m a n k rule: read_loop.induct)
  case (1 m a n k)
  show ?case
  proof (cases "k < n")
    case True
    define c b where "c = a + of_nat k" and "b = min (n - k) (64 - unat c mod 64)"
    have b: "unat c mod 64 + b \<le> 64" "k + b \<le> n" 
      using True by (auto simp: b_def min_def)
    obtain index where i: "cacheline_to_index m (cl_align c) = Some index"
        "byte_offset m c = unat index * 64 + unat c mod 64"
        "unat index * 64 + 64 \<le> unat (sm_shm_size m) - header_size"
      using index_ok [OF 1(2,3)] by metis
    have IH: "read_loop m a n (k + b) = Some (map (\<lambda>i. byte_at m (a + of_nat i)) [k + b..<n])"
      using 1(1) [OF True refl refl refl refl, folded c_def, unfolded unat_cl_offset, folded b_def, OF i(1)]
        1(2,3) b i(3) by (simp add: in_data_area_def)
    have "mem_read (sm_data_area m) (byte_offset m c) b = map (\<lambda>i. byte_at m (a + of_nat i)) [k..<k + b]"
      using line_bytes [OF b(1), of m] map_shift_upt [of "\<lambda>i. byte_at m (a + of_nat i)" k b]
      by (simp add: c_def add.assoc)
    then have "read_loop m a n k = Some (map (\<lambda>i. byte_at m (a + of_nat i)) ([k..<k + b] @ [k + b..<n]))"
      using True i b IH
      by (subst read_loop.simps)
        (simp add: Let_def unat_cl_offset flip: c_def b_def, simp add: in_data_area_def)
    then show ?thesis using b(2) by (metis le_add1 upt_add_eq_append le_add_diff_inverse)
  qed (use 1(4) in simp)
qed


lemma byte_offset_data [simp]: "byte_offset (m\<lparr>sm_data_area := d\<rparr>) = byte_offset m"
  by (simp add: byte_offset_def cacheline_to_index_def fun_eq_iff)

lemma accessible_data [simp]: "accessible (m\<lparr>sm_data_area := d\<rparr>) = accessible m"
  by (simp add: accessible_def fun_eq_iff)

lemma manager_ok_data [simp]: "manager_ok (m\<lparr>sm_data_area := d\<rparr>) = manager_ok m"
  by (simp add: manager_ok_def split: option.splits)

lemma write_loop_spec:
  assumes "manager_ok m" "\<And>b. accessible m b 1" "length data \<le> 64" "k \<le> length data"
  shows "\<exists>d. write_loop a data k m = Some (m\<lparr>sm_data_area := d\<rparr>)
    \<and> (\<forall>i. k \<le> i \<longrightarrow> i < length data \<longrightarrow> d (byte_offset m (a + of_nat i)) = data ! i)
    \<and> (\<forall>p. (\<forall>i. k \<le> i \<longrightarrow> i < length data \<longrightarrow> p \<noteq> byte_offset m (a + of_nat i)) \<longrightarrow> d p = sm_data_area m p)"
  using assms
proof (induction a data k m rule: write_loop.induct)
  case (1 a data k m)
  show ?case
  proof (cases "k < length data")
    case True
    define c b where "c = a + of_nat k" and "b = min (length data - k) (64 - unat c mod 64)"
    have b: "unat c mod 64 + b \<le> 64" "k + b \<le> length data"
      using True by (auto simp: b_def min_def)
    obtain index where i: "cacheline_to_index m (cl_align c) = Some index"
        "byte_offset m c = unat index * 64 + unat c mod 64"
        "unat index * 64 + 64 \<le> unat (sm_shm_size m) - header_size"
      using index_ok [OF 1(2,3)] by metis
    let ?m = "m\<lparr>sm_data_area := mem_write (sm_data_area m) (byte_offset m c) (take b (drop k data))\<rparr>"
    have w: "write_loop a data k m = write_loop a data (k + b) ?m"
      using True i b
      by (subst write_loop.simps)
        (simp add: Let_def unat_cl_offset flip: c_def b_def, simp add: in_data_area_def)
    obtain d where d: "write_loop a data (k + b) ?m = Some (?m\<lparr>sm_data_area := d\<rparr>)"
        "\<And>i. k + b \<le> i \<Longrightarrow> i < length data \<Longrightarrow> d (byte_offset m (a + of_nat i)) = data ! i"
        "\<And>p. (\<And>i. k + b \<le> i \<Longrightarrow> i < length data \<Longrightarrow> p \<noteq> byte_offset m (a + of_nat i))
          \<Longrightarrow> d p = mem_write (sm_data_area m) (byte_offset m c) (take b (drop k data)) p"
      using 1(1) [OF True refl refl refl refl, folded c_def, unfolded unat_cl_offset, folded b_def, OF i(1)]
        1(2-4) b i(2,3) by (simp add: in_data_area_def) blast
    have off: "byte_offset m (a + of_nat i) = byte_offset m c + (i - k)" if "k \<le> i" "i < k + b" for i
      using byte_offset_shift [of c "i - k" m] that b(1) by (simp add: c_def of_nat_diff)
    have "d (byte_offset m (a + of_nat i)) = data ! i" if "k \<le> i" "i < length data" for i
    proof (cases "k + b \<le> i")
      case False
      have "d (byte_offset m (a + of_nat i)) = mem_write (sm_data_area m) (byte_offset m c)
          (take b (drop k data)) (byte_offset m (a + of_nat i))"
        using byte_offset_inj [of m a i] False that(2) 1(4) by (intro d(3)) fastforce
      moreover obtain j where "i = k + j" using le_Suc_ex [OF \<open>k \<le> i\<close>] by blast
      ultimately show ?thesis
        using False off [of i] b(2) by (simp add: mem_write_def)
    qed (use d(2) that in simp)
    moreover have "d p = sm_data_area m p"
      if p: "\<And>i. k \<le> i \<Longrightarrow> i < length data \<Longrightarrow> p \<noteq> byte_offset m (a + of_nat i)" for p
    proof -
      have "d p = mem_write (sm_data_area m) (byte_offset m c) (take b (drop k data)) p"
        using p by (intro d(3)) simp
      moreover have "p < byte_offset m c \<or> byte_offset m c + b \<le> p"
      proof (rule ccontr)
        assume n: "\<not> ?thesis"
        then obtain j where "p = byte_offset m c + j" using le_Suc_ex [of "byte_offset m c" p] by force
        with n show False using p [of "k + j"] off [of "k + j"] b(2) by simp
      qed
      ultimately show ?thesis using b(2) by (simp add: mem_write_outside)
    qed
    ultimately show ?thesis
      using d(1) w by (intro exI [of _ d]) simp
  next
    case False
    then show ?thesis by (intro exI [of _ "sm_data_area m"]) simp
  qed
qed


text \<open>The data area after the bytes of a request have been stored.\<close>

definition written :: "SharedMemoryManager \<Rightarrow> u64 \<Rightarrow> u8 list \<Rightarrow> memory" where
  "written m a data =
     (\<lambda>p. case List.find (\<lambda>i. byte_offset m (a + of_nat i) = p) [0..<length data] of
            Some i \<Rightarrow> data ! i | None \<Rightarrow> sm_data_area m p)"

lemma writtenI:
  assumes "length data \<le> 64" "\<And>i. i < length data \<Longrightarrow> d (byte_offset m (a + of_nat i)) = data ! i"
    "\<And>p. (\<And>i. i < length data \<Longrightarrow> p \<noteq> byte_offset m (a + of_nat i)) \<Longrightarrow> d p = sm_data_area m p"
  shows "d = written m a data"
proof
  fix p
  show "d p = written m a data p"
  proof (cases "List.find (\<lambda>i. byte_offset m (a + of_nat i) = p) [0..<length data]")
    case None
    then have "d p = sm_data_area m p" by (intro assms(3)) (auto simp: find_None_iff)
    with None show ?thesis by (simp add: written_def)
  next
    case (Some i)
    then have "i < length data" "byte_offset m (a + of_nat i) = p"
      by (auto simp: find_Some_iff)
    with Some assms(2) [of i] show ?thesis by (simp add: written_def)
  qed
qed

lemma written_cell:
  assumes "length data \<le> 64" "i < length data"
  shows "written m a data (byte_offset m (a + of_nat i)) = data ! i"
proof -
  have "List.find (\<lambda>j. byte_offset m (a + of_nat j) = byte_offset m (a + of_nat i)) [0..<length data] = Some i"
    using assms byte_offset_inj [of m a _ i] by (force simp: find_Some_iff intro: exI [of _ i])
  then show ?thesis by (simp add: written_def)
qed

lemma written_other:
  "(\<And>i. i < length data \<Longrightarrow> byte_offset m (a + of_nat i) \<noteq> p) \<Longrightarrow> written m a data p = sm_data_area m p"
  by (auto simp: written_def find_Some_iff split: option.splits) blast

lemma mem_write_written:
  assumes "unat a mod 64 + length data \<le> 64"
  shows "mem_write (sm_data_area m) (byte_offset m a) data = written m a data"
proof (rule writtenI)
  show "mem_write (sm_data_area m) (byte_offset m a) data p = sm_data_area m p"
    if p: "\<And>i. i < length data \<Longrightarrow> p \<noteq> byte_offset m (a + of_nat i)" for p
  proof -
    have "p < byte_offset m a \<or> byte_offset m a + length data \<le> p"
    proof (rule ccontr)
      assume n: "\<not> ?thesis"
      then obtain j where "p = byte_offset m a + j" using le_Suc_ex [of "byte_offset m a" p] by force
      with n show False using p [of j] byte_offset_shift [of a j m] assms by simp
    qed
    then show ?thesis by (rule mem_write_outside)
  qed
qed (use assms byte_offset_shift [of a _ m] in \<open>auto simp: mem_write_def\<close>)

lemma read_cacheline_eq:
  assumes "manager_ok m"
  shows "read_cacheline m a n =
    Some (if accessible m a n then Some (map (\<lambda>i. byte_at m (a + of_nat i)) [0..<n]) else None)"
proof -
  obtain h where h: "sm_header m = Some h"
    using assms by (auto simp: manager_ok_def split: option.splits)
  show ?thesis
  proof (cases "n = 0 \<or> n > 64 \<or> sh_base_addr h = 0")
    case True
    then show ?thesis
      using h read_loop_eq [OF assms, of 0 n a] by (auto simp: read_cacheline_def accessible_def)
  next
    case False
    note F = this
    show ?thesis
    proof (cases "accessible m a n")
      case True
      obtain index where i: "cacheline_to_index m (cl_align a) = Some index"
          "byte_offset m a = unat index * 64 + unat a mod 64"
          "unat index * 64 + 64 \<le> unat (sm_shm_size m) - header_size"
        by (rule index_ok [OF assms True])
      then have "get_cacheline_data m (cl_align a) = Some (Some (unat index * 64))"
        using F True h by (auto simp: get_cacheline_data_def accessible_def cacheline_to_index_def)
      with F True h i show ?thesis
        using line_bytes [of a n m]
        by (auto simp: read_cacheline_def unat_cl_offset accessible_def in_data_area_def Let_def)
    next
      case False
      with F h show ?thesis
        by (auto simp: read_cacheline_def get_cacheline_data_def accessible_def cacheline_to_index_def
            unat_cl_offset Let_def)
    qed
  qed
qed

lemma write_cacheline_eq:
  assumes "manager_ok m"
  shows "write_cacheline m a data synced =
    Some (if accessible m a (length data) then (synced, m\<lparr>sm_data_area := written m a data\<rparr>) else (False, m))"
proof -
  obtain h where h: "sm_header m = Some h"
    using assms by (auto simp: manager_ok_def split: option.splits)
  consider "length data = 0 \<or> length data > 64"
    | "length data \<le> 64" "0 < length data" "sh_base_addr h = 0"
    | "length data \<le> 64" "0 < length data" "sh_base_addr h \<noteq> 0"
    by linarith
  then show ?thesis
  proof cases
    case 2
    obtain d where "write_loop a data 0 m = Some (m\<lparr>sm_data_area := d\<rparr>)"
        "\<And>i. i < length data \<Longrightarrow> d (byte_offset m (a + of_nat i)) = data ! i"
        "\<And>p. (\<And>i. i < length data \<Longrightarrow> p \<noteq> byte_offset m (a + of_nat i)) \<Longrightarrow> d p = sm_data_area m p"
      using write_loop_spec [OF assms, of data 0 a] 2 h by (auto simp: accessible_def)
    moreover from this have "d = written m a data"
      using 2(1) by (intro writtenI) blast+
    ultimately show ?thesis
      using 2 h by (auto simp: write_cacheline_def accessible_def)
  next
    case 3
    show ?thesis
    proof (cases "accessible m a (length data)")
      case True
      obtain index where i: "cacheline_to_index m (cl_align a) = Some index"
          "byte_offset m a = unat index * 64 + unat a mod 64"
          "unat index * 64 + 64 \<le> unat (sm_shm_size m) - header_size"
        by (rule index_ok [OF assms True])
      then have "get_cacheline_data m (cl_align a) = Some (Some (unat index * 64))"
        using 3 True h by (auto simp: get_cacheline_data_def accessible_def cacheline_to_index_def)
      with 3 True h i show ?thesis
        using mem_write_written [of a data m]
        by (auto simp: write_cacheline_def unat_cl_offset accessible_def in_data_area_def Let_def)
    next
      case False
      with 3 h show ?thesis
        by (auto simp: write_cacheline_def get_cacheline_data_def accessible_def cacheline_to_index_def
            unat_cl_offset Let_def)
    qed
  qed (use h in \<open>auto simp: write_cacheline_def accessible_def\<close>)
qed


section \<open>A byte store\<close>

text \<open>
  What a client may rely on: a store has cells, an address is kept in one of them, a read returns the
  bytes of the cells, and a write changes the cells of its own addresses only.
\<close>

locale byte_store =
  fixes inv :: "'s \<Rightarrow> bool"
    and accepts :: "'s \<Rightarrow> u64 \<Rightarrow> nat \<Rightarrow> bool"
    and cell :: "'s \<Rightarrow> u64 \<Rightarrow> nat"
    and contents :: "'s \<Rightarrow> nat \<Rightarrow> u8"
    and rd :: "'s \<Rightarrow> u64 \<Rightarrow> nat \<Rightarrow> u8 list option option"
    and wr :: "'s \<Rightarrow> u64 \<Rightarrow> u8 list \<Rightarrow> (bool \<times> 's) option"
  assumes rd_cells: "inv s \<Longrightarrow> rd s a n =
      Some (if accepts s a n then Some (map (\<lambda>i. contents s (cell s (a + of_nat i))) [0..<n]) else None)"
    and wr_rejects: "inv s \<Longrightarrow> \<not> accepts s a (length bs) \<Longrightarrow> wr s a bs = Some (False, s)"
    and wr_cells: "inv s \<Longrightarrow> accepts s a (length bs) \<Longrightarrow>
      \<exists>s'. wr s a bs = Some (True, s') \<and> inv s' \<and> accepts s' = accepts s \<and> cell s' = cell s
        \<and> (\<forall>i < length bs. contents s' (cell s (a + of_nat i)) = bs ! i)
        \<and> (\<forall>p. (\<forall>i < length bs. cell s (a + of_nat i) \<noteq> p) \<longrightarrow> contents s' p = contents s p)"
begin

definition cells :: "'s \<Rightarrow> u64 \<Rightarrow> nat \<Rightarrow> nat set" where
  "cells s a n = (\<lambda>i. cell s (a + of_nat i)) ` {..<n}"

lemma wrE:
  assumes "inv s" "wr s a bs = Some (b, s')" "accepts s a (length bs)"
  shows "b" "inv s'" "accepts s' = accepts s" "cell s' = cell s"
    "i < length bs \<Longrightarrow> contents s' (cell s (a + of_nat i)) = bs ! i"
    "(\<forall>i < length bs. cell s (a + of_nat i) \<noteq> p) \<Longrightarrow> contents s' p = contents s p"
  using wr_cells [OF assms(1,3)] assms(2) by auto

lemma read_back:
  assumes "inv s" "wr s a bs = Some (True, s')"
  shows "rd s' a (length bs) = Some (Some bs)"
proof -
  have acc: "accepts s a (length bs)"
    using assms(2) wr_rejects [OF assms(1), of a bs] by (cases "accepts s a (length bs)") simp_all
  note w = wrE [OF assms acc]
  have "map (\<lambda>i. contents s' (cell s (a + of_nat i))) [0..<length bs] = bs"
    by (intro nth_equalityI) (simp_all add: w(5))
  with acc show ?thesis by (simp add: rd_cells [OF w(2)] w(3,4))
qed

lemma read_other:
  assumes "inv s" "wr s a bs = Some (b, s')" "cells s a (length bs) \<inter> cells s a' n = {}"
  shows "rd s' a' n = rd s a' n"
proof (cases "accepts s a (length bs)")
  case True
  note w = wrE [OF assms(1,2) True]
  have "contents s' (cell s (a' + of_nat j)) = contents s (cell s (a' + of_nat j))" if "j < n" for j
  proof (rule w(6), intro allI impI notI)
    fix i assume "i < length bs" "cell s (a + of_nat i) = cell s (a' + of_nat j)"
    then have "cell s (a' + of_nat j) \<in> cells s a (length bs) \<inter> cells s a' n"
      using that unfolding cells_def by (metis IntI imageI lessThan_iff)
    with assms(3) show False by simp
  qed
  then have "map (\<lambda>i. contents s' (cell s (a' + of_nat i))) [0..<n]
      = map (\<lambda>i. contents s (cell s (a' + of_nat i))) [0..<n]" by simp
  then show ?thesis by (simp add: rd_cells [OF w(2)] rd_cells [OF assms(1)] w(3,4))
next
  case False
  then show ?thesis using assms(2) wr_rejects [OF assms(1) False] by simp
qed

end

interpretation shm: byte_store manager_ok accessible byte_offset sm_data_area read_cacheline
  "\<lambda>m a bs. write_cacheline m a bs True"
proof
  fix m a and bs :: "u8 list"
  assume ok: "manager_ok m" and acc: "accessible m a (length bs)"
  let ?m = "m\<lparr>sm_data_area := written m a bs\<rparr>"
  have len: "length bs \<le> 64" using acc by (simp add: accessible_def)
  show "\<exists>m'. write_cacheline m a bs True = Some (True, m') \<and> manager_ok m' \<and> accessible m' = accessible m
      \<and> byte_offset m' = byte_offset m
      \<and> (\<forall>i < length bs. sm_data_area m' (byte_offset m (a + of_nat i)) = bs ! i)
      \<and> (\<forall>p. (\<forall>i < length bs. byte_offset m (a + of_nat i) \<noteq> p) \<longrightarrow> sm_data_area m' p = sm_data_area m p)"
  proof (intro exI [of _ ?m] conjI allI impI)
    fix p
    assume "\<forall>i < length bs. byte_offset m (a + of_nat i) \<noteq> p"
    then have "written m a bs p = sm_data_area m p" by (intro written_other) blast
    then show "sm_data_area ?m p = sm_data_area m p" by simp
  qed (simp_all add: ok acc write_cacheline_eq written_cell [OF len])
qed (simp_all add: read_cacheline_eq write_cacheline_eq byte_at_def)


section \<open>Properties\<close>

text \<open>
  The data area keeps what is written: a request the manager accepts is stored without touching
  memory outside the mapping, also when it spans two lines or wraps around the end of the address
  space, the same request then reads it back, and every read whose addresses are kept in other
  cells is unaffected.
\<close>

theorem manager_stores_bytes:
  assumes "manager_ok m" and "accessible m a (length bs)"
  shows "\<exists>m'. write_cacheline m a bs True = Some (True, m') \<and> manager_ok m'
    \<and> read_cacheline m' a (length bs) = Some (Some bs)
    \<and> (\<forall>a' n. (\<forall>i < length bs. \<forall>j < n. byte_offset m (a + of_nat i) \<noteq> byte_offset m (a' + of_nat j)) \<longrightarrow>
         read_cacheline m' a' n = read_cacheline m a' n)"
proof -
  obtain m' where m': "write_cacheline m a bs True = Some (True, m')" "manager_ok m'"
    using shm.wr_cells [OF assms] by blast
  moreover have "shm.cells m a (length bs) \<inter> shm.cells m a' n = {}"
    if "\<forall>i < length bs. \<forall>j < n. byte_offset m (a + of_nat i) \<noteq> byte_offset m (a' + of_nat j)" for a' n
    using that by (auto simp: shm.cells_def)
  ultimately show ?thesis
    using shm.read_back [OF assms(1) m'(1)] shm.read_other [OF assms(1) m'(1)] by blast
qed

text \<open>
  In modulo mode two addresses share a cell exactly when they are congruent modulo the size of the
  data area; from a base address that is a multiple of 64, the addresses of the range have cells of
  their own, counted from the base.
\<close>

lemma byte_offset_modulo:
  assumes "sm_header m = Some h" "sh_base_addr h = 0" "0 < sh_num_cachelines h"
  shows "byte_offset m a = unat a mod (unat (sh_num_cachelines h) * 64)"
proof -
  have "unat (cl_align a div 64) = unat a div 64"
    by (simp add: unat_div unat_cl_align)
  then have "byte_offset m a = (unat a div 64) mod unat (sh_num_cachelines h) * 64 + unat a mod 64"
    using assms by (auto simp: byte_offset_def cacheline_to_index_def unat_mod)
  also have "\<dots> = unat a mod (64 * unat (sh_num_cachelines h))"
    by (subst mod_mult2_eq) simp
  finally show ?thesis by (simp add: mult.commute)
qed

lemma byte_offset_based:
  assumes "sm_header m = Some h" "sh_base_addr h \<noteq> 0" "64 dvd unat (sh_base_addr h)" "sh_base_addr h \<le> a"
  shows "byte_offset m a = unat a - unat (sh_base_addr h)"
proof -
  obtain k where k: "unat (sh_base_addr h) = 64 * k" using assms(3) ..
  have le: "64 * k \<le> unat a" using assms(4) by (simp add: word_le_nat_alt k)
  then have kq: "k \<le> unat a div 64" by (simp add: less_eq_div_iff_mult_less_eq mult.commute)
  then have "sh_base_addr h \<le> cl_align a"
    by (simp add: word_le_nat_alt unat_cl_align k mult.commute)
  then have "unat ((cl_align a - sh_base_addr h) div 64) = (unat a div 64 * 64 - 64 * k) div 64"
    by (simp add: unat_div unat_sub unat_cl_align k)
  also have "\<dots> = unat a div 64 - k"
    by (simp add: mult.commute flip: diff_mult_distrib)
  finally have "byte_offset m a = (unat a div 64 - k) * 64 + unat a mod 64"
    using assms(1,2) by (simp add: byte_offset_def cacheline_to_index_def)
  then show ?thesis
    using kq div_mult_mod_eq [of "unat a" 64] by (simp add: k diff_mult_distrib)
qed

theorem manager_alias:
  assumes "sm_header m = Some h" "sh_base_addr h = 0" "0 < sh_num_cachelines h"
  shows "byte_offset m a = byte_offset m b
    \<longleftrightarrow> unat a mod (unat (sh_num_cachelines h) * 64) = unat b mod (unat (sh_num_cachelines h) * 64)"
  by (simp add: byte_offset_modulo [OF assms])

text \<open>
  The address check of the server agrees with the manager: with a base address that is a multiple of
  64 and a range that does not wrap around, an address is valid exactly when its byte can be read.
\<close>

theorem valid_address_readable:
  assumes "manager_ok m" "sm_header m = Some h" "64 dvd unat (sh_base_addr h)"
    "unat (sh_base_addr h) + unat (sh_num_cachelines h) * 64 < 2 ^ 64"
  shows "is_valid_address m a \<longleftrightarrow> (\<exists>byte. read_cacheline m a 1 = Some (Some [byte]))"
proof -
  have "is_valid_address m a \<longleftrightarrow> accessible m a 1"
  proof (cases "sh_base_addr h = 0")
    case False
    obtain k where k: "unat (sh_base_addr h) = 64 * k" using assms(3) ..
    let ?n = "unat (sh_num_cachelines h)"
    have "unat (sh_num_cachelines h * 64) = ?n * 64"
      using assms(4) by (simp add: unat_word_ariths)
    then have e: "unat (sh_base_addr h + sh_num_cachelines h * 64) = 64 * k + ?n * 64"
      using assms(4) k by (simp add: unat_word_ariths)
    have le: "sh_base_addr h \<le> a \<longleftrightarrow> sh_base_addr h \<le> cl_align a"
      using less_eq_div_iff_mult_less_eq [of 64 k "unat a"]
      by (simp add: word_le_nat_alt unat_cl_align k mult.commute)
    have "(cl_align a - sh_base_addr h) div 64 < sh_num_cachelines h \<longleftrightarrow> unat a < 64 * k + ?n * 64"
      if "sh_base_addr h \<le> cl_align a"
    proof -
      have "unat ((cl_align a - sh_base_addr h) div 64) = (unat a div 64 * 64 - 64 * k) div 64"
        using that by (simp add: unat_div unat_sub unat_cl_align k)
      also have "\<dots> = unat a div 64 - k"
        by (simp add: mult.commute flip: diff_mult_distrib)
      finally show ?thesis
        using that less_eq_div_iff_mult_less_eq [of 64 k "unat a"]
          div_less_iff_less_mult [of 64 "unat a" "?n + k"]
        by (simp add: word_less_nat_alt word_le_nat_alt unat_cl_align k algebra_simps less_diff_conv2)
    qed
    then show ?thesis
      using False assms(2) le e
      by (auto simp: is_valid_address_def accessible_def word_less_nat_alt k)
  qed (use assms(2) in \<open>simp add: is_valid_address_def accessible_def\<close>)
  then show ?thesis using assms(1) by (simp add: read_cacheline_eq)
qed


text \<open>
  Initialisation on a new mapping succeeds and leaves a usable manager with one free region over all
  its lines; the contents of the mapping are whatever the system provides.
\<close>

theorem initialize_fresh:
  assumes "0 < capacity" "capacity < 2 ^ 44" "sh_magic h \<noteq> MAGIC_NUMBER"
  shows "\<exists>m h'. manager_initialize (new_SharedMemoryManager capacity name) (Some (h, bytes)) env = (True, m)
    \<and> manager_ok m \<and> sm_header m = Some h' \<and> sm_data_area m = bytes
    \<and> unat (sh_num_cachelines h') = (unat capacity * 2 ^ 20 - header_size) div 64
    \<and> sh_base_addr h' = (case env of Some base \<Rightarrow> base | None \<Rightarrow> 0)
    \<and> sm_regions m = [\<lparr>mr_base_addr = sh_base_addr h', mr_size = sh_num_cachelines h' * 64, mr_allocated = False\<rparr>]"
proof -
  have "unat capacity < 2 ^ 44" using assms(2) by (simp add: word_less_nat_alt)
  then have sz: "unat (1048576 * capacity) = unat capacity * 1048576"
    by (simp add: unat_word_ariths)
  have pos: "1 \<le> unat capacity" using assms(1) by (simp add: word_less_nat_alt)
  then have "unat (capacity * 1024 * 1024 - of_nat header_size) = unat capacity * 2 ^ 20 - header_size"
    by (subst unat_sub) (simp_all add: word_le_nat_alt sz)
  then have n: "unat ((capacity * 1024 * 1024 - of_nat header_size) div 64)
      = (unat capacity * 2 ^ 20 - header_size) div 64"
    by (simp add: unat_div)
  have "0 < (unat capacity * 2 ^ 20 - header_size) div 64" using pos by (simp add: div_greater_zero_iff)
  then show ?thesis
    using assms(3) n
    by (simp add: manager_initialize_def initialize_header_def initialize_data_area_def
        new_SharedMemoryManager_def manager_ok_def sz Let_def word_less_nat_alt)
qed

section \<open>Examples\<close>

definition blank_header :: SharedMemoryHeader where
  "blank_header = \<lparr>sh_magic = 0, sh_version = 0, sh_total_size = 0, sh_data_offset = 0, sh_metadata_offset = 0,
     sh_num_cachelines = 0, sh_base_addr = 0\<rparr>"

definition example_manager :: "u64 option \<Rightarrow> SharedMemoryManager" where
  "example_manager env =
     snd (manager_initialize (new_SharedMemoryManager 1 ''/cxlmemsim_pgas'') (Some (blank_header, \<lambda>_. 0)) env)"

lemma example_manager_fields:
  "sm_shm_size (example_manager env) = 1048576"
  "sm_header (example_manager env) = Some \<lparr>sh_magic = MAGIC_NUMBER, sh_version = 1, sh_total_size = 1048576,
     sh_data_offset = 56, sh_metadata_offset = 0, sh_num_cachelines = 16383,
     sh_base_addr = (case env of Some base \<Rightarrow> base | None \<Rightarrow> 0)\<rparr>"
  by (simp_all add: example_manager_def manager_initialize_def new_SharedMemoryManager_def
      initialize_header_def initialize_data_area_def blank_header_def MAGIC_NUMBER_def FORMAT_VERSION_def Let_def)

lemma example_manager_ok: "manager_ok (example_manager env)"
  by (simp add: manager_ok_def example_manager_fields)

definition example_bytes :: "u8 list" where
  "example_bytes = [1, 2, 3, 4, 5, 6, 7, 8]"

lemma length_example_bytes: "length example_bytes = 8"
  by (simp add: example_bytes_def)

theorem manager_stores_bytes_witness:
  "\<exists>m'. write_cacheline (example_manager None) (- 3) example_bytes True = Some (True, m')
    \<and> read_cacheline m' (- 3) 8 = Some (Some example_bytes)"
  using manager_stores_bytes [OF example_manager_ok, of None "- 3" example_bytes]
  by (auto simp: accessible_def example_manager_fields length_example_bytes)

theorem manager_alias_witness:
  "byte_offset (example_manager None) 64 = byte_offset (example_manager None) (64 + 16383 * 64)"
  using manager_alias [OF example_manager_fields(2), of None 64 "64 + 16383 * 64"] by simp

theorem valid_address_readable_witness:
  "is_valid_address (example_manager (Some 0x1000)) 0x1040
    \<and> (\<exists>byte. read_cacheline (example_manager (Some 0x1000)) 0x1040 1 = Some (Some [byte]))"
  using valid_address_readable [OF example_manager_ok example_manager_fields(2), of "Some 0x1000" "0x1040"]
  by (simp add: is_valid_address_def example_manager_fields)

theorem initialize_fresh_witness:
  "\<exists>m h'. manager_initialize (new_SharedMemoryManager 1 ''a'') (Some (blank_header, \<lambda>_. 7)) None = (True, m)
    \<and> manager_ok m \<and> sm_header m = Some h' \<and> sm_data_area m 0 = 7 \<and> unat (sh_num_cachelines h') = 16383"
  using initialize_fresh [of 1 blank_header "''a''" "\<lambda>_. 7" None]
  by (auto simp: blank_header_def MAGIC_NUMBER_def)

text \<open>
  The data area is never cleared: \<open>initialize_header\<close> has stored the magic number before
  \<open>initialize_data_area\<close> tests for its absence.
\<close>

lemma initialize_never_clears:
  "manager_initialize m (Some (h, bytes)) env = (ok, m') \<Longrightarrow> sm_data_area m' = bytes"
  by (auto simp: manager_initialize_def initialize_data_area_def initialize_header_def Let_def split: if_splits)

text \<open>
  A backing file written with a larger capacity keeps its header when it is reopened with a smaller
  one, and a request beyond the new mapping then runs outside it.
\<close>

lemma reopened_file_overruns:
  fixes m
  defines "m \<equiv> snd (manager_initialize (new_SharedMemoryManager 1 ''f'')
      (Some (blank_header\<lparr>sh_magic := MAGIC_NUMBER, sh_version := 1, sh_num_cachelines := 65535\<rparr>, \<lambda>_. 0)) None)"
  shows "\<not> manager_ok m" "read_cacheline m 0x200000 8 = None"
proof -
  have h: "sm_shm_size m = 1048576"
    "sm_header m = Some (blank_header\<lparr>sh_magic := MAGIC_NUMBER, sh_version := 1, sh_num_cachelines := 65535\<rparr>)"
    by (simp_all add: m_def manager_initialize_def new_SharedMemoryManager_def
      initialize_header_def initialize_data_area_def MAGIC_NUMBER_def FORMAT_VERSION_def Let_def)
  show "\<not> manager_ok m" by (simp add: manager_ok_def h)
  show "read_cacheline m 0x200000 8 = None"
    by (simp add: read_cacheline_def h blank_header_def cacheline_to_index_def in_data_area_def Let_def
        cl_align_def)
qed

text \<open>A base address that is not a multiple of 64: its first bytes are valid and cannot be read.\<close>

lemma unaligned_base_unreadable:
  "is_valid_address (example_manager (Some 0x1010)) 0x1010
    \<and> read_cacheline (example_manager (Some 0x1010)) 0x1010 1 = Some None"
  by (simp add: is_valid_address_def read_cacheline_eq [OF example_manager_ok] accessible_def
      example_manager_fields cl_align_def)

text \<open>One allocation takes the only region whole, whatever its size.\<close>

lemma allocation_takes_all:
  fixes m
  defines "m \<equiv> snd (allocate_region (example_manager None) 0 64)"
  shows "fst (allocate_region (example_manager None) 0 64)" "\<not> fst (allocate_region m 4096 64)"
  by (simp_all add: m_def allocate_region_def example_manager_def manager_initialize_def
      new_SharedMemoryManager_def initialize_header_def initialize_data_area_def blank_header_def Let_def
      MAGIC_NUMBER_def)

section \<open>The metadata table\<close>

definition metadata_at :: "SharedMemoryManager \<Rightarrow> u64 \<Rightarrow> CachelineMetadata" where
  "metadata_at m a = (case map_of (sm_metadata_cache m) a of Some md \<Rightarrow> md | None \<Rightarrow> new_CachelineMetadata)"

definition metadata_sorted :: "SharedMemoryManager \<Rightarrow> bool" where
  "metadata_sorted m \<longleftrightarrow> sorted_wrt (<) (map fst (sm_metadata_cache m))"

lemma get_metadata:
  assumes "get_cacheline_metadata m a = (md, m')" "metadata_sorted m"
  shows "md = metadata_at m a" "metadata_at m' = metadata_at m" "metadata_sorted m'"
    "sm_header m' = sm_header m" "sm_data_area m' = sm_data_area m" "sm_shm_size m' = sm_shm_size m"
    "sm_regions m' = sm_regions m" "sm_shm_name m' = sm_shm_name m" "sm_capacity_mb m' = sm_capacity_mb m"
  using assms
  by (cases "map_of (sm_metadata_cache m) a";
      auto simp: get_cacheline_metadata_def metadata_at_def metadata_sorted_def map_of_map_set
      sorted_map_set fun_eq_iff)+

lemma set_metadata:
  assumes "metadata_sorted m"
  shows "metadata_at (set_cacheline_metadata m a md) = (metadata_at m)(a := md)"
    "metadata_sorted (set_cacheline_metadata m a md)"
  using assms
  by (auto simp: set_cacheline_metadata_def metadata_at_def metadata_sorted_def map_of_map_set
      sorted_map_set fun_eq_iff)

lemma set_metadata_frame [simp]:
  "sm_header (set_cacheline_metadata m a md) = sm_header m"
  "sm_data_area (set_cacheline_metadata m a md) = sm_data_area m"
  "sm_shm_size (set_cacheline_metadata m a md) = sm_shm_size m"
  by (simp_all add: set_cacheline_metadata_def)

end
