(* ===== verification/Ring_Queue.thy ===== *)
theory Ring_Queue
  imports Prelude
begin

text \<open>
  Bounded queues: the contract that the ring buffers of the repository share, and the arithmetic of
  their indices.  A ring of \<open>n\<close> slots holds the slots from its tail up to, but not including, its
  head, both counted modulo \<open>n\<close>; it is full with \<open>n - 1\<close> entries.
\<close>

section \<open>Ring indices\<close>

definition ring_slots :: "nat \<Rightarrow> nat \<Rightarrow> nat \<Rightarrow> nat list" where
  "ring_slots n tail head = map (\<lambda>i. (tail + i) mod n) [0..<(head + n - tail) mod n]"

lemma ring_slots_empty [simp]: "ring_slots n i i = []"
  by (simp add: ring_slots_def)

lemma ring_slots_less: "0 < n \<Longrightarrow> i \<in> set (ring_slots n tail head) \<Longrightarrow> i < n"
  by (auto simp: ring_slots_def)

lemma length_ring_slots: "0 < n \<Longrightarrow> length (ring_slots n tail head) < n"
  by (simp add: ring_slots_def)

lemma mod_once: "a < 2 * n \<Longrightarrow> (a::nat) mod n = (if a < n then a else a - n)"
  by (cases "a < n") (simp_all add: mod_if [of a n])

lemma ring_next: "(i::nat) < n \<Longrightarrow> (i + 1) mod n = (if i + 1 = n then 0 else i + 1)"
  by (cases "i + 1 = n") simp_all

lemma ring_distance:
  assumes "(tail::nat) < n" "head < n"
  shows "(head + n - tail) mod n = (if tail \<le> head then head - tail else head + n - tail)"
  using assms mod_once [of "head + n - tail" n] by (auto split: if_splits)

lemma ring_slots_nil_iff:
  assumes "tail < n" "head < n"
  shows "ring_slots n tail head = [] \<longleftrightarrow> tail = head"
  using assms by (auto simp: ring_slots_def ring_distance)

lemma ring_end:
  assumes "(tail::nat) < n" "head < n"
  shows "(tail + (head + n - tail) mod n) mod n = head"
  using assms ring_distance [of tail n head] mod_once [of "tail + (head + n - tail) mod n" n]
  by (simp split: if_splits)

lemma ring_slots_push:
  assumes "tail < n" "head < n" "(head + 1) mod n \<noteq> tail"
  shows "ring_slots n tail ((head + 1) mod n) = ring_slots n tail head @ [head]"
proof -
  let ?h = "(head + 1) mod n" and ?d = "(head + n - tail) mod n"
  have "?h < n" using assms(1) by simp
  then have "(?h + n - tail) mod n = Suc ?d"
    using assms ring_distance [of tail n head] ring_distance [of tail n ?h] ring_next [of head n]
    by (simp split: if_splits)
  then show ?thesis using ring_end [OF assms(1,2)] by (simp add: ring_slots_def)
qed

lemma ring_slots_pop:
  assumes "tail < n" "head < n" "tail \<noteq> head"
  shows "ring_slots n tail head = tail # ring_slots n ((tail + 1) mod n) head"
proof -
  let ?t = "(tail + 1) mod n"
  have "?t < n" using assms(1) by simp
  then have d: "(head + n - tail) mod n = Suc ((head + n - ?t) mod n)"
    using assms ring_distance [of tail n head] ring_distance [of ?t n head] ring_next [of tail n]
    by (simp split: if_splits)
  have "map (\<lambda>i. (tail + i) mod n) [0..<Suc k] = tail # map (\<lambda>i. (?t + i) mod n) [0..<k]" for k
    using assms(1) by (simp add: upt_conv_Cons map_Suc_upt [symmetric] mod_simps del: upt_Suc)
  then show ?thesis by (simp only: ring_slots_def d)
qed

lemma ring_slots_inj:
  assumes "(tail::nat) < n" "i < n" "j < n" "(tail + i) mod n = (tail + j) mod n"
  shows "i = j"
  using assms mod_once [of "tail + i" n] mod_once [of "tail + j" n] by (simp split: if_splits)

lemma ring_slots_distinct:
  assumes "tail < n"
  shows "distinct (ring_slots n tail head)"
proof -
  have "(head + n - tail) mod n < n" using assms by simp
  then have less: "i < n" if "i \<in> set [0..<(head + n - tail) mod n]" for i
    using that by (metis atLeastLessThan_iff less_trans set_upt)
  have "inj_on (\<lambda>i. (tail + i) mod n) (set [0..<(head + n - tail) mod n])"
    by (rule inj_onI) (rule ring_slots_inj [OF assms less less])
  then show ?thesis by (simp add: ring_slots_def distinct_map)
qed

lemma ring_head_free:
  assumes "tail < n" "head < n"
  shows "head \<notin> set (ring_slots n tail head)"
proof
  let ?d = "(head + n - tail) mod n"
  assume "head \<in> set (ring_slots n tail head)"
  then obtain i where i: "i < ?d" "(tail + i) mod n = head"
    unfolding ring_slots_def by (metis (mono_tags, lifting) atLeastLessThan_iff imageE set_map set_upt)
  have d: "?d < n" using assms(1) by simp
  have "i = ?d"
    by (rule ring_slots_inj [OF assms(1) less_trans [OF i(1) d] d]) (simp only: i(2) ring_end [OF assms])
  with i(1) show False by simp
qed

section \<open>The queue contract\<close>

datatype 'a queue_op = Enqueue 'a | Dequeue

text \<open>A run of operations: the entries accepted, the entries delivered and the final queue.\<close>

fun queue_run ::
  "('q \<Rightarrow> 'a \<Rightarrow> bool \<times> 'q) \<Rightarrow> ('q \<Rightarrow> 'a option \<times> 'q) \<Rightarrow> 'a queue_op list \<Rightarrow> 'q \<Rightarrow> 'a list \<times> 'a list \<times> 'q" where
  "queue_run enq deq [] q = ([], [], q)"
| "queue_run enq deq (Enqueue x # ops) q =
     (case enq q x of (ok, q1) \<Rightarrow>
        (case queue_run enq deq ops q1 of (acc, del, q2) \<Rightarrow> (if ok then x # acc else acc, del, q2)))"
| "queue_run enq deq (Dequeue # ops) q =
     (case deq q of (r, q1) \<Rightarrow>
        (case queue_run enq deq ops q1 of (acc, del, q2) \<Rightarrow>
           (acc, case r of Some x \<Rightarrow> x # del | None \<Rightarrow> del, q2)))"

locale bounded_queue =
  fixes inv :: "'q \<Rightarrow> bool"
    and contents :: "'q \<Rightarrow> 'a list"
    and capacity :: nat
    and enq :: "'q \<Rightarrow> 'a \<Rightarrow> bool \<times> 'q"
    and deq :: "'q \<Rightarrow> 'a option \<times> 'q"
  assumes bounded: "inv q \<Longrightarrow> length (contents q) \<le> capacity"
    and enq_full: "inv q \<Longrightarrow> length (contents q) = capacity \<Longrightarrow>
      \<not> fst (enq q x) \<and> inv (snd (enq q x)) \<and> contents (snd (enq q x)) = contents q"
    and enq_room: "inv q \<Longrightarrow> length (contents q) < capacity \<Longrightarrow>
      fst (enq q x) \<and> inv (snd (enq q x)) \<and> contents (snd (enq q x)) = contents q @ [x]"
    and deq_empty: "inv q \<Longrightarrow> contents q = [] \<Longrightarrow> deq q = (None, q)"
    and deq_first: "inv q \<Longrightarrow> contents q = x # xs \<Longrightarrow>
      fst (deq q) = Some x \<and> inv (snd (deq q)) \<and> contents (snd (deq q)) = xs"
begin

lemma enq_cases:
  assumes "inv q" "enq q x = (ok, q')"
  shows "inv q' \<and> ok = (length (contents q) < capacity) \<and> contents q' = contents q @ (if ok then [x] else [])"
proof (cases "length (contents q) < capacity")
  case True
  then show ?thesis using enq_room [OF assms(1) True, of x] assms(2) by simp
next
  case False
  then have "length (contents q) = capacity" using bounded [OF assms(1)] by simp
  then show ?thesis using enq_full [OF assms(1), of x] assms(2) by simp
qed

lemma deq_cases:
  assumes "inv q" "deq q = (r, q')"
  shows "inv q' \<and> r = (case contents q of [] \<Rightarrow> None | x # _ \<Rightarrow> Some x) \<and> contents q' = tl (contents q)"
proof (cases "contents q")
  case Nil
  then show ?thesis using deq_empty [OF assms(1) Nil] assms by simp
next
  case (Cons x xs)
  then show ?thesis using deq_first [OF assms(1) Cons] assms(2) by simp
qed

text \<open>
  First in, first out, with nothing lost, duplicated or reordered: what was in the queue and what was
  accepted is what was delivered, followed by what is still in the queue.
\<close>

lemma run_fifo:
  assumes "inv q" "queue_run enq deq ops q = (acc, del, q')"
  shows "inv q' \<and> contents q @ acc = del @ contents q'"
  using assms
proof (induction ops arbitrary: q acc del)
  case (Cons op ops)
  show ?case
  proof (cases op)
    case (Enqueue x)
    obtain ok q1 where e: "enq q x = (ok, q1)" by (cases "enq q x")
    obtain acc1 del1 where r: "queue_run enq deq ops q1 = (acc1, del1, q')"
        "acc = (if ok then x # acc1 else acc1)" "del = del1"
      using Cons.prems(2) e Enqueue by (auto split: prod.splits)
    have q1: "inv q1" "contents q1 = contents q @ (if ok then [x] else [])"
      using enq_cases [OF Cons.prems(1) e] by blast+
    show ?thesis using Cons.IH [OF q1(1) r(1)] q1(2) r(2,3) by (cases ok) simp_all
  next
    case Dequeue
    obtain x q1 where d: "deq q = (x, q1)" by (cases "deq q")
    obtain acc1 del1 where r: "queue_run enq deq ops q1 = (acc1, del1, q')" "acc = acc1"
        "del = (case x of Some y \<Rightarrow> y # del1 | None \<Rightarrow> del1)"
      using Cons.prems(2) d Dequeue by (auto split: prod.splits)
    have q1: "inv q1" "x = (case contents q of [] \<Rightarrow> None | x # _ \<Rightarrow> Some x)" "contents q1 = tl (contents q)"
      using deq_cases [OF Cons.prems(1) d] by blast+
    show ?thesis using Cons.IH [OF q1(1) r(1)] q1(2,3) r(2,3) by (cases "contents q") simp_all
  qed
qed simp

end

end
