(* ===== verification/Shm_Ring.thy ===== *)
theory Shm_Ring
  imports Ring_Queue
begin

text \<open>
  The shared-memory channel between clients and the server, \<open>src/include/shm_communication.h\<close> and
  \<open>src/src/shm_communication.cpp\<close>: one ring of request and response slots per client.  The client
  puts requests at the head, the server takes them at the tail and puts a response into the first
  free slot at or after the head, where the client looks for it.

  Here one call is one step; the single loads and stores of a call, and what happens when the calls of
  several threads overlap, are in \<open>Ring_Threads\<close>.  What the other side writes while a call waits, and
  whether a semaphore wait times out, are arguments.
\<close>

section \<open>Data\<close>

record ShmRequest =
  sq_op_type :: u8
  sq_addr :: u64
  sq_size :: u64
  sq_timestamp :: u64
  sq_value :: u64
  sq_expected :: u64
  sq_data :: "u8 list"

record ShmResponse =
  sp_status :: u8
  sp_latency_ns :: u64
  sp_old_value :: u64
  sp_data :: "u8 list"

record ring_entry =
  en_request_ready :: bool
  en_response_ready :: bool
  en_request :: ShmRequest
  en_response :: ShmResponse

abbreviation RING_SIZE :: nat where "RING_SIZE \<equiv> 1024"
abbreviation MAX_CLIENTS :: nat where "MAX_CLIENTS \<equiv> 64"

record ShmRingBuffer =
  rb_head :: u32
  rb_tail :: u32
  rb_pending_count :: u32
  rb_entries :: "ring_entry list"
  rb_total_requests :: u64
  rb_total_responses :: u64

record ShmClientInfo =
  sc_client_id :: u32
  sc_pid :: int
  sc_connected :: bool

record ShmCommunication =
  sm_magic :: u64
  sm_version :: u32
  sm_server_ready :: bool
  sm_clients :: "ShmClientInfo list"
  sm_ring_buffers :: "ShmRingBuffer list"

record ShmStats =
  ss_total_requests :: u64
  ss_total_responses :: u64
  ss_active_clients :: u32

section \<open>Initialisation\<close>

definition ring_initialize :: "ShmRingBuffer \<Rightarrow> ShmRingBuffer" where
  "ring_initialize ring =
     ring\<lparr>rb_head := 0, rb_tail := 0, rb_pending_count := 0, rb_total_requests := 0, rb_total_responses := 0,
       rb_entries := map (\<lambda>e. e\<lparr>en_request_ready := False, en_response_ready := False\<rparr>) (rb_entries ring)\<rparr>"

definition COMM_MAGIC :: u64 where
  "COMM_MAGIC = 0x434D454D53484D43"

definition comm_initialize :: "ShmCommunication \<Rightarrow> ShmCommunication" where
  "comm_initialize comm =
     comm\<lparr>sm_magic := COMM_MAGIC, sm_version := 1, sm_server_ready := False,
       sm_clients := map (\<lambda>c. c\<lparr>sc_connected := False\<rparr>) (sm_clients comm),
       sm_ring_buffers := map ring_initialize (sm_ring_buffers comm)\<rparr>"

definition comm_is_valid :: "ShmCommunication \<Rightarrow> bool" where
  "comm_is_valid comm \<longleftrightarrow> sm_magic comm = COMM_MAGIC \<and> sm_version comm = 1"

section \<open>One ring\<close>

text \<open>\<open>send_request\<close> on the client's ring.\<close>

definition ring_send :: "ShmRingBuffer \<Rightarrow> ShmRequest \<Rightarrow> bool \<times> ShmRingBuffer" where
  "ring_send ring request =
     (let head = rb_head ring;
          next_head = (head + 1) mod of_nat RING_SIZE
      in if next_head = rb_tail ring then (False, ring)
         else
           (True,
            ring\<lparr>rb_entries := (rb_entries ring)[unat head := (rb_entries ring ! unat head)
                    \<lparr>en_request := request, en_request_ready := True, en_response_ready := False\<rparr>],
                 rb_head := next_head, rb_pending_count := rb_pending_count ring + 1,
                 rb_total_requests := rb_total_requests ring + 1\<rparr>))"

text \<open>The request at the tail, if there is one, and the steps that follow once it has been copied.\<close>

definition peek_request :: "ShmRingBuffer \<Rightarrow> ShmRequest option" where
  "peek_request ring =
     (if rb_tail ring \<noteq> rb_head ring
      then let entry = rb_entries ring ! unat (rb_tail ring mod of_nat RING_SIZE)
           in if en_request_ready entry then Some (en_request entry) else None
      else None)"

definition consume_request :: "u32 \<Rightarrow> ShmRingBuffer \<Rightarrow> ShmRingBuffer" where
  "consume_request tail ring =
     (let i = unat (tail mod of_nat RING_SIZE)
      in ring\<lparr>rb_entries := (rb_entries ring)[i := (rb_entries ring ! i)\<lparr>en_request_ready := False\<rparr>],
              rb_tail := (tail + 1) mod of_nat RING_SIZE,
              rb_pending_count := rb_pending_count ring - 1\<rparr>)"

definition ring_take :: "ShmRingBuffer \<Rightarrow> ShmRequest option \<times> ShmRingBuffer" where
  "ring_take ring =
     (case peek_request ring of
        None \<Rightarrow> (None, ring)
      | Some request \<Rightarrow> (Some request, consume_request (rb_tail ring) ring))"

text \<open>The search of \<open>send_response\<close> for a slot, starting at the head.\<close>

fun free_slot :: "ring_entry list \<Rightarrow> nat list \<Rightarrow> nat option" where
  "free_slot entries [] = None"
| "free_slot entries (i # is) =
     (if \<not> en_request_ready (entries ! i) \<and> \<not> en_response_ready (entries ! i) then Some i
      else free_slot entries is)"

definition ring_respond :: "ShmRingBuffer \<Rightarrow> ShmResponse \<Rightarrow> bool \<times> ShmRingBuffer" where
  "ring_respond ring response =
     (case free_slot (rb_entries ring) (map (\<lambda>i. (unat (rb_head ring) + i) mod RING_SIZE) [0..<RING_SIZE]) of
        None \<Rightarrow> (False, ring)
      | Some i \<Rightarrow>
          (True,
           ring\<lparr>rb_entries := (rb_entries ring)[i := (rb_entries ring ! i)
                   \<lparr>en_response := response, en_response_ready := True\<rparr>],
                rb_total_responses := rb_total_responses ring + 1\<rparr>))"

text \<open>One pass of \<open>wait_for_response\<close> over the slots, in index order.\<close>

definition ring_poll :: "ShmRingBuffer \<Rightarrow> ShmResponse option \<times> ShmRingBuffer" where
  "ring_poll ring =
     (case List.find (\<lambda>i. en_response_ready (rb_entries ring ! i)) [0..<RING_SIZE] of
        None \<Rightarrow> (None, ring)
      | Some i \<Rightarrow>
          (Some (en_response (rb_entries ring ! i)),
           ring\<lparr>rb_entries := (rb_entries ring)[i := (rb_entries ring ! i)\<lparr>en_response_ready := False\<rparr>]\<rparr>))"

section \<open>The channel\<close>

definition set_ring :: "ShmCommunication \<Rightarrow> nat \<Rightarrow> ShmRingBuffer \<Rightarrow> ShmCommunication" where
  "set_ring comm i ring = comm\<lparr>sm_ring_buffers := (sm_ring_buffers comm)[i := ring]\<rparr>"

text \<open>The scan of \<open>wait_for_request\<close> over the connected clients, from slot \<open>i\<close> on; client ids are slots plus one.\<close>

fun scan_clients :: "ShmCommunication \<Rightarrow> nat list \<Rightarrow> (u32 \<times> ShmRequest) option \<times> ShmCommunication" where
  "scan_clients comm [] = (None, comm)"
| "scan_clients comm (i # is) =
     (if \<not> sc_connected (sm_clients comm ! i) then scan_clients comm is
      else
        (case ring_take (sm_ring_buffers comm ! i) of
           (Some request, ring) \<Rightarrow> (Some (of_nat (i + 1), request), set_ring comm i ring)
         | (None, _) \<Rightarrow> scan_clients comm is))"

text \<open>
  \<open>wait_for_request\<close> of the server: \<open>signalled\<close> is the shared memory at the moment the request semaphore
  is signalled, \<^const>\<open>None\<close> when the wait times out or fails.
\<close>

definition wait_for_request ::
  "ShmCommunication \<Rightarrow> int \<Rightarrow> ShmCommunication option \<Rightarrow> (u32 \<times> ShmRequest) option \<times> ShmCommunication" where
  "wait_for_request comm timeout_ms signalled =
     (case scan_clients comm [0..<MAX_CLIENTS] of
        (Some result, comm1) \<Rightarrow> (Some result, comm1)
      | (None, comm1) \<Rightarrow>
          if timeout_ms = 0 then (None, comm1)
          else (case signalled of
                  None \<Rightarrow> (None, comm1)
                | Some comm2 \<Rightarrow> scan_clients comm2 [0..<MAX_CLIENTS]))"

definition send_response :: "ShmCommunication \<Rightarrow> u32 \<Rightarrow> ShmResponse \<Rightarrow> bool \<times> ShmCommunication" where
  "send_response comm client_id response =
     (if client_id = 0 \<or> client_id > of_nat MAX_CLIENTS then (False, comm)
      else
        let i = unat client_id - 1
        in case ring_respond (sm_ring_buffers comm ! i) response of
             (ok, ring) \<Rightarrow> (ok, set_ring comm i ring))"

text \<open>
  \<open>connect\<close> claims the first free client slot and then resets its ring; the client id is 0 when all
  slots are taken.  The other side can run between the two halves.
\<close>

definition claim_slot :: "ShmCommunication \<Rightarrow> (nat \<times> ShmCommunication) option" where
  "claim_slot comm =
     (case List.find (\<lambda>i. \<not> sc_connected (sm_clients comm ! i)) [0..<MAX_CLIENTS] of
        None \<Rightarrow> None
      | Some i \<Rightarrow>
          Some (i, comm\<lparr>sm_clients := (sm_clients comm)[i := (sm_clients comm ! i)\<lparr>sc_connected := True\<rparr>]\<rparr>))"

definition setup_slot :: "int \<Rightarrow> nat \<Rightarrow> ShmCommunication \<Rightarrow> ShmCommunication" where
  "setup_slot pid i comm =
     (let comm1 = comm\<lparr>sm_clients := (sm_clients comm)[i := (sm_clients comm ! i)
                    \<lparr>sc_client_id := of_nat (i + 1), sc_pid := pid\<rparr>]\<rparr>
      in set_ring comm1 i (ring_initialize (sm_ring_buffers comm1 ! i)))"

definition connect :: "ShmCommunication \<Rightarrow> int \<Rightarrow> u32 \<times> ShmCommunication" where
  "connect comm pid =
     (case claim_slot comm of
        None \<Rightarrow> (0, comm)
      | Some (i, comm1) \<Rightarrow> (of_nat (i + 1), setup_slot pid i comm1))"

definition send_request :: "ShmCommunication \<Rightarrow> u32 \<Rightarrow> ShmRequest \<Rightarrow> bool \<times> ShmCommunication" where
  "send_request comm client_id request =
     (if client_id = 0 then (False, comm)
      else
        let i = unat client_id - 1
        in case ring_send (sm_ring_buffers comm ! i) request of
             (ok, ring) \<Rightarrow> (ok, set_ring comm i ring))"

text \<open>
  \<open>wait_for_response\<close> polls until a response is found or the time is up.  Its argument is the shared
  memory as it is found at each poll, with whether the time is up after it; the result is \<^const>\<open>None\<close>
  while the call is still waiting.
\<close>

fun wait_for_response ::
  "(ShmCommunication \<times> bool) list \<Rightarrow> u32 \<Rightarrow> (ShmResponse option \<times> ShmCommunication) option" where
  "wait_for_response [] client_id = None"
| "wait_for_response ((comm, expired) # polls) client_id =
     (if client_id = 0 then Some (None, comm)
      else
        let i = unat client_id - 1
        in case ring_poll (sm_ring_buffers comm ! i) of
             (Some response, ring) \<Rightarrow> Some (Some response, set_ring comm i ring)
           | (None, _) \<Rightarrow> if expired then Some (None, comm) else wait_for_response polls client_id)"

definition disconnect :: "ShmCommunication \<Rightarrow> u32 \<Rightarrow> u32 \<times> ShmCommunication" where
  "disconnect comm client_id =
     (if client_id > 0 \<and> client_id \<le> of_nat MAX_CLIENTS
      then let i = unat client_id - 1
           in (0, comm\<lparr>sm_clients := (sm_clients comm)[i := (sm_clients comm ! i)\<lparr>sc_connected := False\<rparr>]\<rparr>)
      else (client_id, comm))"

definition client_is_connected :: "ShmCommunication \<Rightarrow> u32 \<Rightarrow> bool" where
  "client_is_connected comm client_id \<longleftrightarrow>
     client_id > 0 \<and> client_id \<le> of_nat MAX_CLIENTS \<and> sc_connected (sm_clients comm ! (unat client_id - 1))"

definition comm_get_stats :: "ShmCommunication \<Rightarrow> ShmStats" where
  "comm_get_stats comm =
     \<lparr>ss_total_requests = sum_list (map rb_total_requests (sm_ring_buffers comm)),
      ss_total_responses = sum_list (map rb_total_responses (sm_ring_buffers comm)),
      ss_active_clients = of_nat (length (filter sc_connected (sm_clients comm)))\<rparr>"

section \<open>A ring is a bounded queue of requests\<close>

definition pending_slots :: "ShmRingBuffer \<Rightarrow> nat list" where
  "pending_slots ring = ring_slots RING_SIZE (unat (rb_tail ring)) (unat (rb_head ring))"

definition ring_requests :: "ShmRingBuffer \<Rightarrow> ShmRequest list" where
  "ring_requests ring = map (\<lambda>i. en_request (rb_entries ring ! i)) (pending_slots ring)"

definition ring_ok :: "ShmRingBuffer \<Rightarrow> bool" where
  "ring_ok ring \<longleftrightarrow>
     length (rb_entries ring) = RING_SIZE \<and> unat (rb_head ring) < RING_SIZE \<and> unat (rb_tail ring) < RING_SIZE
     \<and> (\<forall>i < RING_SIZE. en_request_ready (rb_entries ring ! i) \<longleftrightarrow> i \<in> set (pending_slots ring))
     \<and> rb_pending_count ring = of_nat (length (pending_slots ring))"

lemma length_ring_requests: "length (ring_requests ring) = length (pending_slots ring)"
  by (simp add: ring_requests_def)

lemma unat_ring_next:
  assumes "unat (i :: u32) < RING_SIZE"
  shows "unat ((i + 1) mod 1024) = (unat i + 1) mod RING_SIZE"
proof -
  have "unat (i + 1) = unat i + 1" using assms by (subst unat_add_no_wrap) simp_all
  then show ?thesis by (simp add: unat_mod)
qed

lemma unat_ring_index: "unat (i :: u32) < RING_SIZE \<Longrightarrow> unat (i mod 1024) = unat i"
  by (simp add: unat_mod)

lemma pending_full_iff:
  assumes "ring_ok ring"
  shows "(rb_head ring + 1) mod 1024 = rb_tail ring \<longleftrightarrow> length (pending_slots ring) = RING_SIZE - 1"
proof -
  let ?h = "unat (rb_head ring)" and ?t = "unat (rb_tail ring)"
  have b: "?h < RING_SIZE" "?t < RING_SIZE" using assms by (simp_all add: ring_ok_def)
  have "(rb_head ring + 1) mod 1024 = rb_tail ring \<longleftrightarrow> (?h + 1) mod RING_SIZE = ?t"
    using unat_ring_next [OF b(1)] by (metis word_unat_eq_iff)
  also have "\<dots> \<longleftrightarrow> (?h + RING_SIZE - ?t) mod RING_SIZE = RING_SIZE - 1"
    unfolding ring_distance [OF b(2,1)] ring_next [OF b(1)] using b by (auto split: if_splits)
  also have "\<dots> \<longleftrightarrow> length (pending_slots ring) = RING_SIZE - 1"
    by (simp add: pending_slots_def ring_slots_def)
  finally show ?thesis .
qed

lemma ring_send_full:
  assumes "ring_ok ring" "length (pending_slots ring) = RING_SIZE - 1"
  shows "ring_send ring q = (False, ring)"
  using assms pending_full_iff [OF assms(1)] by (simp add: ring_send_def)

lemma ring_send_room:
  assumes "ring_ok ring" "length (pending_slots ring) < RING_SIZE - 1"
  shows "\<exists>ring'. ring_send ring q = (True, ring') \<and> ring_ok ring' \<and> ring_requests ring' = ring_requests ring @ [q]
    \<and> rb_tail ring' = rb_tail ring \<and> unat (rb_head ring') = (unat (rb_head ring) + 1) mod RING_SIZE
    \<and> (\<forall>i < RING_SIZE. en_response_ready (rb_entries ring' ! i) \<longleftrightarrow>
          i \<noteq> unat (rb_head ring) \<and> en_response_ready (rb_entries ring ! i))"
proof -
  let ?h = "unat (rb_head ring)" and ?t = "unat (rb_tail ring)"
  let ?r = "snd (ring_send ring q)"
  have b: "?h < RING_SIZE" "?t < RING_SIZE" "length (rb_entries ring) = RING_SIZE"
    using assms(1) by (simp_all add: ring_ok_def)
  have nf: "(rb_head ring + 1) mod 1024 \<noteq> rb_tail ring"
    using assms pending_full_iff [OF assms(1)] by simp
  then have "(?h + 1) mod RING_SIZE \<noteq> ?t"
    using unat_ring_next [OF b(1)] by (metis word_unat_eq_iff)
  then have slots: "pending_slots ?r = pending_slots ring @ [?h]"
    using nf ring_slots_push [OF b(2,1)] unat_ring_next [OF b(1)] by (simp add: ring_send_def pending_slots_def Let_def)
  have h: "?h \<notin> set (pending_slots ring)"
    unfolding pending_slots_def by (rule ring_head_free [OF b(2,1)])
  have r: "ring_send ring q = (True, ?r)" "rb_tail ?r = rb_tail ring" "rb_head ?r = (rb_head ring + 1) mod 1024"
    "rb_pending_count ?r = rb_pending_count ring + 1"
    "rb_entries ?r = (rb_entries ring)[?h := (rb_entries ring ! ?h)
        \<lparr>en_request := q, en_request_ready := True, en_response_ready := False\<rparr>]"
    using nf by (simp_all add: ring_send_def Let_def)
  have "ring_ok ?r"
    using assms(1) slots b unat_ring_next [OF b(1)]
    by (simp add: ring_ok_def r(2-) nth_list_update)
  moreover have "ring_requests ?r = ring_requests ring @ [q]"
    using h b(1,3) by (auto simp: ring_requests_def slots r(5) nth_list_update)
  ultimately show ?thesis
    using r b unat_ring_next [OF b(1)]
    by (intro exI [of _ ?r]) (simp add: nth_list_update)
qed


lemma pending_nil_iff:
  assumes "ring_ok ring"
  shows "pending_slots ring = [] \<longleftrightarrow> rb_tail ring = rb_head ring"
  using assms ring_slots_nil_iff [of "unat (rb_tail ring)" RING_SIZE "unat (rb_head ring)"]
  by (simp add: pending_slots_def ring_ok_def word_unat_eq_iff)

lemma ring_take_nil:
  assumes "ring_ok ring" "pending_slots ring = []"
  shows "ring_take ring = (None, ring)"
  using assms pending_nil_iff [OF assms(1)] by (simp add: ring_take_def peek_request_def)

lemma pending_Cons:
  assumes "ring_ok ring" "pending_slots ring \<noteq> []"
  shows "pending_slots ring = unat (rb_tail ring)
    # ring_slots RING_SIZE ((unat (rb_tail ring) + 1) mod RING_SIZE) (unat (rb_head ring))"
  using assms pending_nil_iff [OF assms(1)] unfolding pending_slots_def
  by (intro ring_slots_pop) (auto simp: ring_ok_def word_unat_eq_iff)

lemma peek_pending:
  assumes "ring_ok ring" "pending_slots ring \<noteq> []"
  shows "peek_request ring = Some (hd (ring_requests ring))"
proof -
  have "unat (rb_tail ring) \<in> set (pending_slots ring)" by (subst pending_Cons [OF assms]) simp
  then have "en_request_ready (rb_entries ring ! unat (rb_tail ring))"
    using assms(1) by (simp add: ring_ok_def)
  moreover have "hd (ring_requests ring) = en_request (rb_entries ring ! unat (rb_tail ring))"
    by (simp add: ring_requests_def pending_Cons [OF assms])
  moreover have "rb_tail ring \<noteq> rb_head ring" using pending_nil_iff [OF assms(1)] assms(2) by simp
  moreover have "unat (rb_tail ring mod 1024) = unat (rb_tail ring)"
    using assms(1) by (intro unat_ring_index) (simp add: ring_ok_def)
  ultimately show ?thesis by (simp add: peek_request_def)
qed

lemma ring_take_Cons:
  assumes "ring_ok ring" "ring_requests ring = q # qs"
  shows "\<exists>ring'. ring_take ring = (Some q, ring') \<and> ring_ok ring' \<and> ring_requests ring' = qs
    \<and> rb_head ring' = rb_head ring
    \<and> (\<forall>i < RING_SIZE. en_response_ready (rb_entries ring' ! i) \<longleftrightarrow> en_response_ready (rb_entries ring ! i))"
proof -
  let ?h = "unat (rb_head ring)" and ?t = "unat (rb_tail ring)"
  let ?r = "consume_request (rb_tail ring) ring"
  have ne: "pending_slots ring \<noteq> []" using assms(2) by (auto simp: ring_requests_def)
  have b: "?h < RING_SIZE" "?t < RING_SIZE" "length (rb_entries ring) = RING_SIZE"
    using assms(1) by (simp_all add: ring_ok_def)
  have t: "unat (rb_tail ring mod 1024) = ?t" by (rule unat_ring_index [OF b(2)])
  have r: "rb_head ?r = rb_head ring" "rb_tail ?r = (rb_tail ring + 1) mod 1024"
    "rb_pending_count ?r = rb_pending_count ring - 1"
    "rb_entries ?r = (rb_entries ring)[?t := (rb_entries ring ! ?t)\<lparr>en_request_ready := False\<rparr>]"
    by (simp_all add: consume_request_def t Let_def)
  have slots: "pending_slots ring = ?t # pending_slots ?r"
    using pending_Cons [OF assms(1) ne] unat_ring_next [OF b(2)] by (simp add: pending_slots_def r(1,2))
  have d: "?t \<notin> set (pending_slots ?r)"
    using ring_slots_distinct [OF b(2), of ?h] slots by (simp add: pending_slots_def)
  have "ring_ok ?r"
    using assms(1) slots b d unat_ring_next [OF b(2)]
    by (simp add: ring_ok_def r nth_list_update)
  moreover have "ring_requests ?r = qs"
  proof -
    have e: "ring_requests ?r = map (\<lambda>i. en_request (rb_entries ring ! i)) (pending_slots ?r)"
      using b(2,3) by (simp add: ring_requests_def r(4) nth_list_update)
    have "map (\<lambda>i. en_request (rb_entries ring ! i)) (pending_slots ?r) = qs"
      using assms(2) by (simp add: ring_requests_def slots)
    then show ?thesis by (simp only: e)
  qed
  ultimately show ?thesis
    using peek_pending [OF assms(1) ne] assms(2) b
    by (intro exI [of _ ?r]) (simp add: ring_take_def r nth_list_update)
qed

interpretation ring: bounded_queue ring_ok ring_requests "RING_SIZE - 1" ring_send ring_take
proof
  fix ring :: ShmRingBuffer
  assume ok: "ring_ok ring"
  show "length (ring_requests ring) \<le> RING_SIZE - 1"
    using length_ring_slots [of RING_SIZE "unat (rb_tail ring)" "unat (rb_head ring)"]
    by (simp add: length_ring_requests pending_slots_def)
  fix q
  show "\<not> fst (ring_send ring q) \<and> ring_ok (snd (ring_send ring q))
      \<and> ring_requests (snd (ring_send ring q)) = ring_requests ring"
    if "length (ring_requests ring) = RING_SIZE - 1"
    using that ok ring_send_full [OF ok, of q] by (simp add: length_ring_requests)
  show "fst (ring_send ring q) \<and> ring_ok (snd (ring_send ring q))
      \<and> ring_requests (snd (ring_send ring q)) = ring_requests ring @ [q]"
    if "length (ring_requests ring) < RING_SIZE - 1"
    using that ring_send_room [OF ok, of q] by (force simp: length_ring_requests)
  show "ring_take ring = (None, ring)" if "ring_requests ring = []"
    using that ring_take_nil [OF ok] by (simp add: ring_requests_def)
  show "fst (ring_take ring) = Some q \<and> ring_ok (snd (ring_take ring))
      \<and> ring_requests (snd (ring_take ring)) = qs" if "ring_requests ring = q # qs" for qs
    using ring_take_Cons [OF ok that] by force
qed


section \<open>Responses\<close>

definition responses_ready :: "ShmRingBuffer \<Rightarrow> nat set" where
  "responses_ready ring = {i. i < RING_SIZE \<and> en_response_ready (rb_entries ring ! i)}"

definition ring_quiet :: "ShmRingBuffer \<Rightarrow> bool" where
  "ring_quiet ring \<longleftrightarrow> ring_ok ring \<and> ring_requests ring = [] \<and> responses_ready ring = {}"

lemma free_slot_first:
  "\<not> en_request_ready (entries ! i) \<Longrightarrow> \<not> en_response_ready (entries ! i) \<Longrightarrow> free_slot entries (i # is) = Some i"
  by simp

lemma free_slot_None:
  "free_slot entries is = None \<longleftrightarrow> (\<forall>i \<in> set is. en_request_ready (entries ! i) \<or> en_response_ready (entries ! i))"
  by (induction "is") auto

lemma free_slot_SomeD:
  "free_slot entries is = Some i \<Longrightarrow> i \<in> set is \<and> \<not> en_request_ready (entries ! i) \<and> \<not> en_response_ready (entries ! i)"
  by (induction "is") (auto split: if_splits)

text \<open>A response goes into a free slot and leaves the requests alone.\<close>

lemma ring_respond_spec:
  assumes "ring_ok ring" "ring_respond ring p = (ok, ring')"
  shows "ring_ok ring'" "ring_requests ring' = ring_requests ring" "rb_head ring' = rb_head ring"
    "ok \<Longrightarrow> \<exists>i < RING_SIZE. i \<notin> responses_ready ring \<and> i \<notin> set (pending_slots ring)
       \<and> responses_ready ring' = insert i (responses_ready ring) \<and> en_response (rb_entries ring' ! i) = p
       \<and> (\<forall>j. j \<noteq> i \<longrightarrow> en_response (rb_entries ring' ! j) = en_response (rb_entries ring ! j))"
    "\<not> ok \<Longrightarrow> ring' = ring"
proof -
  let ?slots = "map (\<lambda>i. (unat (rb_head ring) + i) mod RING_SIZE) [0..<RING_SIZE]"
  have len: "length (rb_entries ring) = RING_SIZE" using assms(1) by (simp add: ring_ok_def)
  have "ring_ok ring' \<and> ring_requests ring' = ring_requests ring \<and> rb_head ring' = rb_head ring
    \<and> (ok \<longrightarrow> (\<exists>i < RING_SIZE. i \<notin> responses_ready ring \<and> i \<notin> set (pending_slots ring)
       \<and> responses_ready ring' = insert i (responses_ready ring) \<and> en_response (rb_entries ring' ! i) = p
       \<and> (\<forall>j. j \<noteq> i \<longrightarrow> en_response (rb_entries ring' ! j) = en_response (rb_entries ring ! j))))
    \<and> (\<not> ok \<longrightarrow> ring' = ring)"
  proof (cases "free_slot (rb_entries ring) ?slots")
    case None
    then show ?thesis using assms by (simp add: ring_respond_def)
  next
    case (Some i)
    have i: "i < RING_SIZE" "\<not> en_request_ready (rb_entries ring ! i)" "\<not> en_response_ready (rb_entries ring ! i)"
      using free_slot_SomeD [OF Some] by auto
    let ?es = "(rb_entries ring)[i := (rb_entries ring ! i)\<lparr>en_response := p, en_response_ready := True\<rparr>]"
    have r: "ok" "ring' = ring\<lparr>rb_entries := ?es, rb_total_responses := rb_total_responses ring + 1\<rparr>"
      using assms(2) Some by (simp_all add: ring_respond_def)
    have p: "pending_slots ring' = pending_slots ring" by (simp add: pending_slots_def r(2))
    have same: "en_request (?es ! j) = en_request (rb_entries ring ! j)"
      "en_request_ready (?es ! j) = en_request_ready (rb_entries ring ! j)" for j
      using i(1) len by (simp_all add: nth_list_update)
    have "ring_ok ring'" using assms(1) p same by (simp add: ring_ok_def r(2))
    moreover have "ring_requests ring' = ring_requests ring"
      using same by (simp add: ring_requests_def p) (simp add: r(2))
    moreover have "i \<notin> set (pending_slots ring)" using assms(1) i(1,2) by (simp add: ring_ok_def)
    moreover have "responses_ready ring' = insert i (responses_ready ring)"
      using i(1) len by (auto simp: responses_ready_def r(2) nth_list_update)
    ultimately show ?thesis
      using i len r(1) by (auto simp: r(2) nth_list_update responses_ready_def intro!: exI [of _ i])
  qed
  then show "ring_ok ring'" "ring_requests ring' = ring_requests ring" "rb_head ring' = rb_head ring"
    "ok \<Longrightarrow> \<exists>i < RING_SIZE. i \<notin> responses_ready ring \<and> i \<notin> set (pending_slots ring)
       \<and> responses_ready ring' = insert i (responses_ready ring) \<and> en_response (rb_entries ring' ! i) = p
       \<and> (\<forall>j. j \<noteq> i \<longrightarrow> en_response (rb_entries ring' ! j) = en_response (rb_entries ring ! j))"
    "\<not> ok \<Longrightarrow> ring' = ring"
    by blast+
qed

text \<open>There is room for a response whenever some slot holds neither a request nor a response.\<close>

lemma ring_respond_room:
  assumes "ring_ok ring" "responses_ready ring = {}"
  shows "fst (ring_respond ring p)"
proof -
  let ?slots = "map (\<lambda>i. (unat (rb_head ring) + i) mod RING_SIZE) [0..<RING_SIZE]"
  let ?h = "unat (rb_head ring)"
  have b: "?h < RING_SIZE" "unat (rb_tail ring) < RING_SIZE" using assms(1) by (simp_all add: ring_ok_def)
  have "?h \<notin> set (pending_slots ring)"
    unfolding pending_slots_def by (rule ring_head_free [OF b(2,1)])
  then have "\<not> en_request_ready (rb_entries ring ! ?h)" "\<not> en_response_ready (rb_entries ring ! ?h)"
    using assms b(1) by (auto simp: ring_ok_def responses_ready_def)
  moreover have "(?h + 0) mod RING_SIZE \<in> set ?slots"
    by (simp only: set_map) (rule imageI, simp)
  moreover have "(?h + 0) mod RING_SIZE = ?h" using b(1) by simp
  ultimately have "free_slot (rb_entries ring) ?slots \<noteq> None"
    unfolding free_slot_None by metis
  then show ?thesis by (auto simp: ring_respond_def)
qed

lemma ring_poll_None: "responses_ready ring = {} \<Longrightarrow> ring_poll ring = (None, ring)"
proof -
  assume "responses_ready ring = {}"
  then have "List.find (\<lambda>i. en_response_ready (rb_entries ring ! i)) [0..<RING_SIZE] = None"
    unfolding find_None_iff by (auto simp: responses_ready_def)
  then show ?thesis by (simp add: ring_poll_def)
qed

lemma ring_poll_single:
  assumes "ring_ok ring" "responses_ready ring = {i}"
  shows "\<exists>ring'. ring_poll ring = (Some (en_response (rb_entries ring ! i)), ring') \<and> ring_ok ring'
    \<and> ring_requests ring' = ring_requests ring \<and> responses_ready ring' = {}"
proof -
  have len: "length (rb_entries ring) = RING_SIZE" using assms(1) by (simp add: ring_ok_def)
  have i: "i < RING_SIZE" "en_response_ready (rb_entries ring ! i)"
    "\<And>j. j < RING_SIZE \<Longrightarrow> en_response_ready (rb_entries ring ! j) \<longleftrightarrow> j = i"
    using assms(2) by (auto simp: responses_ready_def)
  have f: "List.find (\<lambda>i. en_response_ready (rb_entries ring ! i)) [0..<RING_SIZE] = Some i"
    unfolding find_Some_iff using i by (intro exI [of _ i]) auto
  let ?r = "ring\<lparr>rb_entries := (rb_entries ring)[i := (rb_entries ring ! i)\<lparr>en_response_ready := False\<rparr>]\<rparr>"
  have same: "en_request (rb_entries ?r ! j) = en_request (rb_entries ring ! j)"
    "en_request_ready (rb_entries ?r ! j) = en_request_ready (rb_entries ring ! j)" for j
    using i(1) len by (simp_all add: nth_list_update)
  have p: "pending_slots ?r = pending_slots ring" by (simp add: pending_slots_def)
  have "ring_ok ?r" using assms(1) p same by (simp add: ring_ok_def)
  moreover have "ring_requests ?r = ring_requests ring" using same by (simp add: ring_requests_def p)
  moreover have "responses_ready ?r = {}"
    using i len by (auto simp: responses_ready_def nth_list_update)
  ultimately show ?thesis using f by (simp add: ring_poll_def)
qed


lemma ring_exchange:
  assumes "ring_quiet ring"
  obtains r1 r2 r3 r4 where "ring_send ring q = (True, r1)" "ring_take r1 = (Some q, r2)"
    "ring_respond r2 p = (True, r3)" "ring_poll r3 = (Some p, r4)" "ring_quiet r4"
    "ring_ok r1" "ring_requests r1 = [q]" "responses_ready r1 = {}" "ring_quiet r2" "ring_requests r3 = []"
    "ring_ok r3"
proof -
  have ring: "ring_ok ring" "pending_slots ring = []" "responses_ready ring = {}" "ring_requests ring = []"
    using assms by (auto simp: ring_quiet_def ring_requests_def)
  obtain r1 where r1: "ring_send ring q = (True, r1)" "ring_ok r1" "ring_requests r1 = [q]"
      "responses_ready r1 = {}"
    using ring_send_room [OF ring(1), of q] ring(2-4) by (auto simp: responses_ready_def)
  obtain r2 where r2: "ring_take r1 = (Some q, r2)" "ring_ok r2" "ring_requests r2 = []" "responses_ready r2 = {}"
    using ring_take_Cons [OF r1(2,3)] r1(4) by (auto simp: responses_ready_def)
  obtain r3 where r3: "ring_respond r2 p = (True, r3)"
    using ring_respond_room [OF r2(2,4), of p] by (cases "ring_respond r2 p") auto
  obtain i where i: "responses_ready r3 = {i}" "en_response (rb_entries r3 ! i) = p"
    using ring_respond_spec(4) [OF r2(2) r3] r2(4) by auto
  note ok3 = ring_respond_spec(1,2) [OF r2(2) r3]
  obtain r4 where "ring_poll r3 = (Some p, r4)" "ring_ok r4" "ring_requests r4 = []" "responses_ready r4 = {}"
    using ring_poll_single [OF ok3(1) i(1)] i(2) ok3(2) r2(3) by auto
  with that [OF r1(1) r2(1) r3] r1 r2 ok3 show thesis by (auto simp: ring_quiet_def)
qed

section \<open>The channel\<close>

definition comm_ok :: "ShmCommunication \<Rightarrow> bool" where
  "comm_ok comm \<longleftrightarrow> length (sm_clients comm) = MAX_CLIENTS \<and> length (sm_ring_buffers comm) = MAX_CLIENTS
     \<and> (\<forall>ring \<in> set (sm_ring_buffers comm). ring_ok ring)"

definition comm_quiet :: "ShmCommunication \<Rightarrow> bool" where
  "comm_quiet comm \<longleftrightarrow> length (sm_clients comm) = MAX_CLIENTS \<and> length (sm_ring_buffers comm) = MAX_CLIENTS
     \<and> (\<forall>ring \<in> set (sm_ring_buffers comm). ring_quiet ring)"

lemma comm_quiet_ok: "comm_quiet comm \<Longrightarrow> comm_ok comm"
  by (auto simp: comm_quiet_def comm_ok_def ring_quiet_def)

definition comm_idle :: "ShmCommunication \<Rightarrow> bool" where
  "comm_idle comm \<longleftrightarrow> comm_ok comm \<and> (\<forall>ring \<in> set (sm_ring_buffers comm). ring_requests ring = [])"

lemma comm_quiet_idle: "comm_quiet comm \<Longrightarrow> comm_idle comm"
  by (auto simp: comm_quiet_def comm_idle_def comm_ok_def ring_quiet_def)

lemma set_ring_fields [simp]:
  "sm_clients (set_ring comm i ring) = sm_clients comm"
  "length (sm_ring_buffers (set_ring comm i ring)) = length (sm_ring_buffers comm)"
  "i < length (sm_ring_buffers comm) \<Longrightarrow> sm_ring_buffers (set_ring comm i ring) ! i = ring"
  "set_ring (set_ring comm i ring) i ring' = set_ring comm i ring'"
  by (simp_all add: set_ring_def)

lemma set_ring_quiet:
  assumes "comm_quiet comm" "ring_quiet ring"
  shows "comm_quiet (set_ring comm i ring)"
  using assms set_update_subset_insert [of "sm_ring_buffers comm" i ring]
  by (auto simp: comm_quiet_def set_ring_def)

lemma set_ring_idle:
  assumes "comm_idle comm" "ring_ok ring" "ring_requests ring = []"
  shows "comm_idle (set_ring comm i ring)"
  using assms set_update_subset_insert [of "sm_ring_buffers comm" i ring]
  by (auto simp: comm_idle_def comm_ok_def set_ring_def)

definition serves :: "ShmCommunication \<Rightarrow> nat \<Rightarrow> bool" where
  "serves comm i \<longleftrightarrow> sc_connected (sm_clients comm ! i) \<and> ring_requests (sm_ring_buffers comm ! i) \<noteq> []"

lemma scan_clients_eq:
  assumes "\<And>i. i \<in> set is \<Longrightarrow> ring_ok (sm_ring_buffers comm ! i)"
  shows "scan_clients comm is =
    (case List.find (serves comm) is of
       None \<Rightarrow> (None, comm)
     | Some i \<Rightarrow> (Some (of_nat (i + 1), hd (ring_requests (sm_ring_buffers comm ! i))),
                  set_ring comm i (snd (ring_take (sm_ring_buffers comm ! i)))))"
  using assms
proof (induction "is")
  case (Cons i "is")
  let ?r = "sm_ring_buffers comm ! i"
  have ok: "ring_ok ?r" using Cons.prems by simp
  note IH = Cons.IH [OF Cons.prems [OF list.set_intros(2)]]
  show ?case
  proof (cases "ring_requests ?r")
    case Nil
    then show ?thesis using IH ring.deq_empty [OF ok Nil] by (simp add: serves_def)
  next
    case (Cons q qs)
    then show ?thesis
      using IH ring_take_Cons [OF ok Cons] by (auto simp: serves_def)
  qed
qed simp


section \<open>Properties\<close>

text \<open>Calls on a ring made one after the other: first in, first out.\<close>

lemma ring_calls_fifo:
  assumes "ring_ok ring" and "queue_run ring_send ring_take ops ring = (accepted, delivered, ring')"
  shows "ring_ok ring' \<and> ring_requests ring @ accepted = delivered @ ring_requests ring'
    \<and> length (ring_requests ring') \<le> 1023
    \<and> (fst (ring_send ring' q) \<longleftrightarrow> length (ring_requests ring') < 1023)"
  using ring.run_fifo [OF assms] ring.bounded [of ring'] ring.enq_cases [of ring' q]
  by (cases "ring_send ring' q") auto

text \<open>
  The server always serves the connected client with the smallest id that has a request pending, and
  gets the oldest request of that client.
\<close>

theorem wait_serves_first:
  assumes "comm_ok comm"
  shows "fst (wait_for_request comm timeout None) =
    map_option (\<lambda>i. (of_nat (i + 1), hd (ring_requests (sm_ring_buffers comm ! i))))
      (List.find (\<lambda>i. sc_connected (sm_clients comm ! i) \<and> ring_requests (sm_ring_buffers comm ! i) \<noteq> []) [0..<64])"
proof -
  have "ring_ok (sm_ring_buffers comm ! i)" if "i \<in> set [0..<MAX_CLIENTS]" for i
    using assms that by (simp add: comm_ok_def)
  then have "scan_clients comm [0..<MAX_CLIENTS] =
    (case List.find (serves comm) [0..<MAX_CLIENTS] of
       None \<Rightarrow> (None, comm)
     | Some i \<Rightarrow> (Some (of_nat (i + 1), hd (ring_requests (sm_ring_buffers comm ! i))),
                  set_ring comm i (snd (ring_take (sm_ring_buffers comm ! i)))))"
    by (rule scan_clients_eq)
  moreover have "serves comm = (\<lambda>i. sc_connected (sm_clients comm ! i) \<and> ring_requests (sm_ring_buffers comm ! i) \<noteq> [])"
    by (simp add: serves_def fun_eq_iff)
  ultimately show ?thesis
    by (simp add: wait_for_request_def split: option.splits)
qed

text \<open>A worker that finds no request pending leaves the channel as it is.\<close>

lemma wait_idle:
  assumes "comm_idle comm"
  shows "wait_for_request comm timeout None = (None, comm)"
proof -
  have "ring_ok (sm_ring_buffers comm ! i)" "\<not> serves comm i" if "i \<in> set [0..<MAX_CLIENTS]" for i
    using assms that by (auto simp: comm_idle_def comm_ok_def serves_def)
  then have "List.find (serves comm) [0..<MAX_CLIENTS] = None"
    "scan_clients comm [0..<MAX_CLIENTS] =
      (case List.find (serves comm) [0..<MAX_CLIENTS] of
         None \<Rightarrow> (None, comm)
       | Some i \<Rightarrow> (Some (of_nat (i + 1), hd (ring_requests (sm_ring_buffers comm ! i))),
                    set_ring comm i (snd (ring_take (sm_ring_buffers comm ! i)))))"
    by (auto simp: find_None_iff intro: scan_clients_eq)
  then show ?thesis by (simp add: wait_for_request_def)
qed

text \<open>One exchange, as a lemma for the components that use the channel.\<close>

lemma comm_exchange:
  assumes "comm_quiet comm" and "client_is_connected comm client_id"
  shows "\<exists>c1 c2 c3 c4. send_request comm client_id q = (True, c1)
    \<and> wait_for_request c1 timeout None = (Some (client_id, q), c2)
    \<and> send_response c2 client_id p = (True, c3)
    \<and> wait_for_response [(c3, expired)] client_id = Some (Some p, c4)
    \<and> comm_idle c2 \<and> comm_idle c3 \<and> comm_quiet c4 \<and> sm_clients c4 = sm_clients comm"
proof -
  let ?i = "unat client_id - 1"
  have id: "client_id \<noteq> 0" "\<not> client_id > 64" "sc_connected (sm_clients comm ! ?i)"
    using assms(2) by (auto simp: client_is_connected_def)
  then have "0 < unat client_id" "unat client_id \<le> 64"
    by (simp_all add: word_le_nat_alt word_less_nat_alt unat_gt_0)
  then have i: "?i < MAX_CLIENTS" "of_nat (?i + 1) = client_id" by simp_all
  have len: "length (sm_ring_buffers comm) = MAX_CLIENTS" using assms(1) by (simp add: comm_quiet_def)
  have q0: "ring_quiet (sm_ring_buffers comm ! ?i)"
    using assms(1) i(1) by (simp add: comm_quiet_def)
  obtain r1 r2 r3 r4 where r: "ring_send (sm_ring_buffers comm ! ?i) q = (True, r1)" "ring_take r1 = (Some q, r2)"
    "ring_respond r2 p = (True, r3)" "ring_poll r3 = (Some p, r4)" "ring_quiet r4"
    "ring_ok r1" "ring_requests r1 = [q]" "ring_quiet r2" "ring_ok r3" "ring_requests r3 = []"
    by (rule ring_exchange [OF q0, of q p])
  let ?c = "\<lambda>r. set_ring comm ?i r"
  have oks: "ring_ok (sm_ring_buffers (?c r1) ! j)" if "j \<in> set [0..<MAX_CLIENTS]" for j
    using that r(6) assms(1) len i(1) by (cases "j = ?i") (auto simp: set_ring_def comm_quiet_def ring_quiet_def)
  have "serves (?c r1) j \<longleftrightarrow> j = ?i" if "j < MAX_CLIENTS" for j
    using that assms(1) id(3) r(7) i(1) len
    by (cases "j = ?i") (auto simp: serves_def set_ring_def comm_quiet_def ring_quiet_def)
  then have "List.find (serves (?c r1)) [0..<MAX_CLIENTS] = Some ?i"
    unfolding find_Some_iff using i(1) by (intro exI [of _ ?i]) auto
  then have "scan_clients (?c r1) [0..<MAX_CLIENTS] = (Some (client_id, q), ?c r2)"
    using scan_clients_eq [of "[0..<MAX_CLIENTS]" "?c r1", OF oks] r(2,7) i len by simp
  then have "wait_for_request (?c r1) timeout None = (Some (client_id, q), ?c r2)"
    by (simp add: wait_for_request_def)
  moreover have "send_request comm client_id q = (True, ?c r1)"
    using id(1) r(1) by (simp add: send_request_def Let_def)
  moreover have "send_response (?c r2) client_id p = (True, ?c r3)"
    using id(1,2) r(3) i(1) len by (simp add: send_response_def Let_def)
  moreover have "wait_for_response [(?c r3, expired)] client_id = Some (Some p, ?c r4)"
    using id(1) r(4) i(1) len by (simp add: Let_def)
  moreover have "comm_quiet (?c r4)" by (rule set_ring_quiet [OF assms(1) r(5)])
  moreover have "comm_idle (?c r2)" "comm_idle (?c r3)"
    using r(8-10) by (auto simp: ring_quiet_def intro!: set_ring_idle comm_quiet_idle [OF assms(1)])
  moreover have "sm_clients (?c r4) = sm_clients comm" by simp
  ultimately show ?thesis by blast
qed

text \<open>
  C13. A synchronous exchange over the channel completes: the client sends a request, one thread of the
  server takes it and gets it under the id of the client, that thread responds, the client gets the
  response, and the channel is quiet again, ready for the next exchange.  The four calls are made one
  after the other, and no other thread calls into the channel during the exchange.
\<close>

theorem exchange_completes:
  assumes "comm_quiet comm" and "client_is_connected comm client_id"
  shows "\<exists>c1 c2 c3 c4. send_request comm client_id q = (True, c1)
    \<and> wait_for_request c1 timeout None = (Some (client_id, q), c2)
    \<and> send_response c2 client_id p = (True, c3)
    \<and> wait_for_response [(c3, expired)] client_id = Some (Some p, c4)
    \<and> comm_quiet c4 \<and> client_is_connected c4 client_id"
proof -
  obtain c1 c2 c3 c4 where "send_request comm client_id q = (True, c1)"
    "wait_for_request c1 timeout None = (Some (client_id, q), c2)" "send_response c2 client_id p = (True, c3)"
    "wait_for_response [(c3, expired)] client_id = Some (Some p, c4)" "comm_quiet c4" "sm_clients c4 = sm_clients comm"
    using comm_exchange [OF assms] by blast
  then show ?thesis using assms(2) by (auto simp: client_is_connected_def)
qed


text \<open>
  Connecting gives the client the smallest free id and an empty ring.
\<close>

lemma ring_initialize_quiet:
  assumes "length (rb_entries ring) = RING_SIZE"
  shows "ring_quiet (ring_initialize ring)"
  using assms
  by (auto simp: ring_quiet_def ring_ok_def ring_initialize_def pending_slots_def ring_requests_def
      responses_ready_def)

theorem connect_gives_quiet_ring:
  assumes "comm_ok comm" and "\<not> list_all sc_connected (sm_clients comm)"
  shows "\<exists>i < 64. fst (connect comm pid) = of_nat (i + 1) \<and> \<not> sc_connected (sm_clients comm ! i)
    \<and> (\<forall>j < i. sc_connected (sm_clients comm ! j))
    \<and> client_is_connected (snd (connect comm pid)) (of_nat (i + 1)) \<and> comm_ok (snd (connect comm pid))
    \<and> ring_quiet (sm_ring_buffers (snd (connect comm pid)) ! i)
    \<and> (\<forall>j. j \<noteq> i \<longrightarrow> sm_ring_buffers (snd (connect comm pid)) ! j = sm_ring_buffers comm ! j)"
proof -
  have len: "length (sm_clients comm) = MAX_CLIENTS" "length (sm_ring_buffers comm) = MAX_CLIENTS"
    using assms(1) by (simp_all add: comm_ok_def)
  then obtain k where "k < MAX_CLIENTS" "\<not> sc_connected (sm_clients comm ! k)"
    using assms(2) by (auto simp: list_all_length)
  then have "List.find (\<lambda>i. \<not> sc_connected (sm_clients comm ! i)) [0..<MAX_CLIENTS] \<noteq> None"
    by (auto simp: find_None_iff)
  then obtain i where i: "List.find (\<lambda>i. \<not> sc_connected (sm_clients comm ! i)) [0..<MAX_CLIENTS] = Some i"
    by blast
  have fi: "i < MAX_CLIENTS" "\<not> sc_connected (sm_clients comm ! i)" "\<forall>j < i. sc_connected (sm_clients comm ! j)"
    using i by (auto simp: find_Some_iff)
  let ?c = "snd (connect comm pid)"
  let ?ring = "ring_initialize (sm_ring_buffers comm ! i)"
  have c: "fst (connect comm pid) = of_nat (i + 1)" "sm_ring_buffers ?c = (sm_ring_buffers comm)[i := ?ring]"
    "sm_clients ?c = (sm_clients comm)[i := (sm_clients comm ! i)
        \<lparr>sc_connected := True, sc_client_id := of_nat (i + 1), sc_pid := pid\<rparr>]"
    using i fi(1) len by (simp_all add: connect_def claim_slot_def setup_slot_def set_ring_def Let_def)
  have "ring_ok (sm_ring_buffers comm ! i)" using assms(1) fi(1) by (simp add: comm_ok_def)
  then have q: "ring_quiet ?ring" by (intro ring_initialize_quiet) (simp add: ring_ok_def)
  then have "comm_ok ?c"
    using assms(1) set_update_subset_insert [of "sm_ring_buffers comm" i ?ring]
    by (auto simp: comm_ok_def c(2,3) ring_quiet_def)
  moreover have "client_is_connected ?c (of_nat (i + 1))"
  proof -
    have "unat (of_nat (i + 1) :: u32) = i + 1" using fi(1) by (intro unat_of_nat_small) simp
    then show ?thesis
      using fi(1) len by (simp add: client_is_connected_def c(3) word_less_nat_alt word_le_nat_alt)
  qed
  ultimately show ?thesis
    using fi q len by (intro exI [of _ i]) (simp add: c)
qed

section \<open>Examples and observations\<close>

definition blank_request :: ShmRequest where
  "blank_request = \<lparr>sq_op_type = 0, sq_addr = 0, sq_size = 0, sq_timestamp = 0, sq_value = 0, sq_expected = 0,
     sq_data = replicate 64 0\<rparr>"

definition blank_response :: ShmResponse where
  "blank_response = \<lparr>sp_status = 0, sp_latency_ns = 0, sp_old_value = 0, sp_data = replicate 64 0\<rparr>"

definition example_ring :: ShmRingBuffer where
  "example_ring = ring_initialize \<lparr>rb_head = 5, rb_tail = 3, rb_pending_count = 2,
     rb_entries = replicate RING_SIZE \<lparr>en_request_ready = True, en_response_ready = True,
       en_request = blank_request, en_response = blank_response\<rparr>,
     rb_total_requests = 7, rb_total_responses = 5\<rparr>"

definition example_comm :: ShmCommunication where
  "example_comm = comm_initialize \<lparr>sm_magic = 0, sm_version = 0, sm_server_ready = False,
     sm_clients = replicate MAX_CLIENTS \<lparr>sc_client_id = 0, sc_pid = 0, sc_connected = True\<rparr>,
     sm_ring_buffers = replicate MAX_CLIENTS example_ring\<rparr>"

lemma example_ring_quiet: "ring_quiet example_ring"
  unfolding example_ring_def by (rule ring_initialize_quiet) simp

lemma example_comm_quiet: "comm_quiet example_comm"
proof -
  have "ring_quiet (ring_initialize example_ring)"
    by (rule ring_initialize_quiet) (use example_ring_quiet in \<open>simp add: ring_quiet_def ring_ok_def\<close>)
  then show ?thesis by (simp add: example_comm_def comm_initialize_def comm_quiet_def)
qed

lemma example_comm_free: "\<not> list_all sc_connected (sm_clients example_comm)"
  by (simp add: example_comm_def comm_initialize_def list_all_iff)

theorem connect_gives_quiet_ring_witness:
  "\<exists>i < 64. fst (connect example_comm 42) = of_nat (i + 1) \<and> ring_quiet (sm_ring_buffers (snd (connect example_comm 42)) ! i)"
  using connect_gives_quiet_ring [OF comm_quiet_ok [OF example_comm_quiet] example_comm_free, of 42] by blast

lemma connected_quiet:
  assumes "comm_quiet comm" "fst (connect comm pid) \<noteq> 0"
  shows "comm_quiet (snd (connect comm pid))"
proof -
  obtain i where i: "List.find (\<lambda>i. \<not> sc_connected (sm_clients comm ! i)) [0..<MAX_CLIENTS] = Some i"
    using assms(2) by (auto simp: connect_def claim_slot_def split: option.splits)
  then have "i < MAX_CLIENTS" by (auto simp: find_Some_iff)
  then have "ring_quiet (sm_ring_buffers comm ! i)" using assms(1) by (simp add: comm_quiet_def)
  then have "ring_quiet (ring_initialize (sm_ring_buffers comm ! i))"
    by (intro ring_initialize_quiet) (simp add: ring_quiet_def ring_ok_def)
  then show ?thesis
    using assms(1) i set_update_subset_insert [of "sm_ring_buffers comm" i "ring_initialize (sm_ring_buffers comm ! i)"]
    by (auto simp: connect_def claim_slot_def setup_slot_def set_ring_def comm_quiet_def Let_def)
qed

theorem wait_serves_first_witness: "fst (wait_for_request example_comm 100 None) = None"
proof -
  have "ring_requests (sm_ring_buffers example_comm ! i) = []" if "i < 64" for i
    using that example_comm_quiet by (simp add: comm_quiet_def ring_quiet_def)
  then have "List.find (\<lambda>i. sc_connected (sm_clients example_comm ! i)
      \<and> ring_requests (sm_ring_buffers example_comm ! i) \<noteq> []) [0..<64] = None"
    unfolding find_None_iff by auto
  then show ?thesis
    using wait_serves_first [OF comm_quiet_ok [OF example_comm_quiet], of 100] by simp
qed

lemma example_connected:
  "client_is_connected (snd (connect example_comm 42)) 1" "comm_quiet (snd (connect example_comm 42))"
proof -
  let ?comm = "snd (connect example_comm 42)"
  have e: "sc_connected (sm_clients example_comm ! 0) = False"
    by (simp add: example_comm_def comm_initialize_def)
  have f: "List.find (\<lambda>i. \<not> sc_connected (sm_clients example_comm ! i)) [0..<MAX_CLIENTS] = Some 0"
    unfolding find_Some_iff using e by (intro exI [of _ 0]) simp
  have c: "fst (connect example_comm 42) = 1" "client_is_connected ?comm 1"
    using example_comm_quiet f
    by (simp_all add: connect_def claim_slot_def setup_slot_def set_ring_def client_is_connected_def
        comm_quiet_def Let_def)
  show "client_is_connected ?comm 1" by (rule c(2))
  show "comm_quiet ?comm"
    by (rule connected_quiet [OF example_comm_quiet]) (simp add: c(1))
qed

theorem exchange_completes_witness:
  "\<exists>c1 c2 c3 c4. send_request (snd (connect example_comm 42)) 1 blank_request = (True, c1)
    \<and> wait_for_request c1 100 None = (Some (1, blank_request), c2)
    \<and> send_response c2 1 blank_response = (True, c3)
    \<and> wait_for_response [(c3, False)] 1 = Some (Some blank_response, c4)"
  using exchange_completes [OF example_connected(2,1), of blank_request 100 blank_response False] by blast

text \<open>
  A client that sends its next request before it has read the response to the last one loses that
  response: the response is in the slot at the head, which the next request takes over.
\<close>

lemma response_lost:
  assumes "ring_quiet ring" "ring_send ring q1 = (True, r1)" "ring_take r1 = (Some q1, r2)"
    "ring_respond r2 p1 = (True, r3)" "ring_send r3 q2 = (True, r4)"
  shows "ring_poll r4 = (None, r4)"
proof -
  have ok: "ring_ok ring" "ring_requests ring = []" "pending_slots ring = []" "responses_ready ring = {}"
    using assms(1) by (auto simp: ring_quiet_def ring_requests_def)
  have r1: "ring_ok r1" "ring_requests r1 = [q1]" "responses_ready r1 = {}"
    using ring_send_room [OF ok(1), of q1] ok(2-4) assms(2) by (auto simp: responses_ready_def)
  have r2: "ring_ok r2" "ring_requests r2 = []" "responses_ready r2 = {}"
    using ring_take_Cons [OF r1(1,2)] assms(3) r1(3) by (auto simp: responses_ready_def)
  let ?h = "unat (rb_head r2)"
  have b: "?h < RING_SIZE" "unat (rb_tail r2) < RING_SIZE" "length (rb_entries r2) = RING_SIZE"
    using r2(1) by (simp_all add: ring_ok_def)
  have "?h \<notin> set (pending_slots r2)" unfolding pending_slots_def by (rule ring_head_free [OF b(2,1)])
  then have free: "\<not> en_request_ready (rb_entries r2 ! ?h)" "\<not> en_response_ready (rb_entries r2 ! ?h)"
    using r2 b(1) by (auto simp: ring_ok_def responses_ready_def)
  have "map (\<lambda>i. (?h + i) mod RING_SIZE) [0..<RING_SIZE]
      = ?h # map (\<lambda>i. (?h + i) mod RING_SIZE) [1..<RING_SIZE]"
    using b(1) upt_conv_Cons [of 0 RING_SIZE] by simp
  then have "r3 = r2\<lparr>rb_entries := (rb_entries r2)[?h := (rb_entries r2 ! ?h)
        \<lparr>en_response := p1, en_response_ready := True\<rparr>], rb_total_responses := rb_total_responses r2 + 1\<rparr>"
    using assms(4) free by (simp add: ring_respond_def)
  then have r3: "responses_ready r3 = {?h}" "rb_head r3 = rb_head r2"
    using r2(3) b by (auto simp: responses_ready_def nth_list_update)
  have ok3: "ring_ok r3" "ring_requests r3 = []"
    using ring_respond_spec(1,2) [OF r2(1) assms(4)] r2(2) by simp_all
  then have "length (pending_slots r3) < RING_SIZE - 1" by (simp add: ring_requests_def)
  from ring_send_room [OF ok3(1) this, of q2] have "responses_ready r4 = {}"
    using assms(5) r3 by (auto simp: responses_ready_def)
  then show ?thesis by (rule ring_poll_None)
qed

end
