(* ===== verification/Ring_Threads.thy ===== *)
theory Ring_Threads
  imports Shm_Ring
begin

text \<open>
  One ring of the shared-memory channel at the grain of single loads and stores: the client that runs
  \<open>send_request\<close> and the workers of the server that run \<open>wait_for_request\<close> (\<open>src/src/shm_communication.cpp\<close>,
  four of them in \<open>run_shm_mode\<close> of \<open>src/src/main_server.cc\<close>) are processes with a location in their code,
  and a schedule says who makes the next step.  The workers use no lock.  The steps are sequentially
  consistent, and the copy of a request is one step.  When no two workers are inside their calls at
  the same time the ring is a queue, whatever the schedule; when they overlap it need not be.
\<close>

section \<open>The processes\<close>

text \<open>Where \<open>send_request\<close> is; the locations carry its local variables.\<close>

datatype client_pc =
    Client_idle
  | Client_head ShmRequest u32
  | Client_room ShmRequest u32
  | Client_copied ShmRequest u32
  | Client_marked ShmRequest u32
  | Client_cleared ShmRequest u32
  | Client_published
  | Client_counted

definition set_entry :: "ShmRingBuffer \<Rightarrow> nat \<Rightarrow> (ring_entry \<Rightarrow> ring_entry) \<Rightarrow> ShmRingBuffer" where
  "set_entry ring i f = ring\<lparr>rb_entries := (rb_entries ring)[i := f (rb_entries ring ! i)]\<rparr>"

text \<open>
  The next step of the client; a new call is for the given request.  The last component is the request
  that the step makes visible to the server.
\<close>

fun client_step :: "ShmRequest \<Rightarrow> ShmRingBuffer \<Rightarrow> client_pc \<Rightarrow> ShmRingBuffer \<times> client_pc \<times> ShmRequest list" where
  "client_step request ring Client_idle = (ring, Client_head request (rb_head ring), [])"
| "client_step request ring (Client_head q head) =
     (ring, if (head + 1) mod of_nat RING_SIZE = rb_tail ring then Client_idle else Client_room q head, [])"
| "client_step request ring (Client_room q head) =
     (set_entry ring (unat head) (\<lambda>e. e\<lparr>en_request := q\<rparr>), Client_copied q head, [])"
| "client_step request ring (Client_copied q head) =
     (set_entry ring (unat head) (\<lambda>e. e\<lparr>en_request_ready := True\<rparr>), Client_marked q head, [])"
| "client_step request ring (Client_marked q head) =
     (set_entry ring (unat head) (\<lambda>e. e\<lparr>en_response_ready := False\<rparr>), Client_cleared q head, [])"
| "client_step request ring (Client_cleared q head) =
     (ring\<lparr>rb_head := (head + 1) mod of_nat RING_SIZE\<rparr>, Client_published, [q])"
| "client_step request ring Client_published =
     (ring\<lparr>rb_pending_count := rb_pending_count ring + 1\<rparr>, Client_counted, [])"
| "client_step request ring Client_counted =
     (ring\<lparr>rb_total_requests := rb_total_requests ring + 1\<rparr>, Client_idle, [])"

text \<open>Where \<open>wait_for_request\<close> is with this ring; a worker that looks at another ring is idle here.\<close>

datatype worker_pc =
    Worker_idle
  | Worker_tail u32
  | Worker_sees u32
  | Worker_ready u32
  | Worker_copied u32 ShmRequest
  | Worker_cleared u32 ShmRequest
  | Worker_advanced ShmRequest

text \<open>The next step of a worker; the last component is the request that the step takes out of the ring.\<close>

fun worker_step :: "ShmRingBuffer \<Rightarrow> worker_pc \<Rightarrow> ShmRingBuffer \<times> worker_pc \<times> ShmRequest list" where
  "worker_step ring Worker_idle = (ring, Worker_tail (rb_tail ring), [])"
| "worker_step ring (Worker_tail tail) =
     (ring, if tail \<noteq> rb_head ring then Worker_sees tail else Worker_idle, [])"
| "worker_step ring (Worker_sees tail) =
     (ring, if en_request_ready (rb_entries ring ! unat (tail mod of_nat RING_SIZE)) then Worker_ready tail
            else Worker_idle, [])"
| "worker_step ring (Worker_ready tail) =
     (ring, Worker_copied tail (en_request (rb_entries ring ! unat (tail mod of_nat RING_SIZE))), [])"
| "worker_step ring (Worker_copied tail q) =
     (set_entry ring (unat (tail mod of_nat RING_SIZE)) (\<lambda>e. e\<lparr>en_request_ready := False\<rparr>), Worker_cleared tail q, [])"
| "worker_step ring (Worker_cleared tail q) =
     (ring\<lparr>rb_tail := (tail + 1) mod of_nat RING_SIZE\<rparr>, Worker_advanced q, [q])"
| "worker_step ring (Worker_advanced q) =
     (ring\<lparr>rb_pending_count := rb_pending_count ring - 1\<rparr>, Worker_idle, [])"

section \<open>Schedules\<close>

record ring_threads =
  rt_ring :: ShmRingBuffer
  rt_client :: client_pc
  rt_workers :: "worker_pc list"
  rt_published :: "ShmRequest list"
  rt_taken :: "(nat \<times> ShmRequest) list"

text \<open>
  A step of the client, a step of a worker, or a write to the response part of a slot, which
  \<open>send_response\<close> and \<open>wait_for_response\<close> make.
\<close>

datatype ring_event = Client_runs ShmRequest | Worker_runs nat | Response_written nat bool ShmResponse

fun threads_step :: "ring_threads \<Rightarrow> ring_event \<Rightarrow> ring_threads" where
  "threads_step s (Client_runs q) =
     (case client_step q (rt_ring s) (rt_client s) of (ring, pc, new) \<Rightarrow>
        s\<lparr>rt_ring := ring, rt_client := pc, rt_published := rt_published s @ new\<rparr>)"
| "threads_step s (Worker_runs w) =
     (if w < length (rt_workers s)
      then case worker_step (rt_ring s) (rt_workers s ! w) of (ring, pc, got) \<Rightarrow>
             s\<lparr>rt_ring := ring, rt_workers := (rt_workers s)[w := pc],
               rt_taken := rt_taken s @ map (Pair w) got\<rparr>
      else s)"
| "threads_step s (Response_written i ready p) =
     s\<lparr>rt_ring := set_entry (rt_ring s) i (\<lambda>e. e\<lparr>en_response := p, en_response_ready := ready\<rparr>)\<rparr>"

definition ring_schedule :: "ring_threads \<Rightarrow> ring_event list \<Rightarrow> ring_threads" where
  "ring_schedule = foldl threads_step"

text \<open>At most one worker is inside its call.\<close>

definition workers_apart :: "worker_pc list \<Rightarrow> bool" where
  "workers_apart ws \<longleftrightarrow> length (filter (\<lambda>p. p \<noteq> Worker_idle) ws) \<le> 1"

fun schedule_apart :: "ring_threads \<Rightarrow> ring_event list \<Rightarrow> bool" where
  "schedule_apart s [] \<longleftrightarrow> workers_apart (rt_workers s)"
| "schedule_apart s (e # es) \<longleftrightarrow> workers_apart (rt_workers s) \<and> schedule_apart (threads_step s e) es"

abbreviation NUM_WORKERS :: nat where "NUM_WORKERS \<equiv> 4"

definition threads_start :: "ShmRingBuffer \<Rightarrow> ring_threads" where
  "threads_start ring =
     \<lparr>rt_ring = ring, rt_client = Client_idle, rt_workers = replicate NUM_WORKERS Worker_idle,
      rt_published = [], rt_taken = []\<rparr>"

section \<open>The steps of one call, uninterrupted\<close>

lemma replicate_eqs:
  "replicate 3 x = [x, x, x]" "replicate 4 x = [x, x, x, x]" "replicate 6 x = [x, x, x, x, x, x]"
  by (simp_all add: numeral_eq_Suc)

lemma ring_schedule_simps [simp]:
  "ring_schedule s [] = s" "ring_schedule s (e # es) = ring_schedule (threads_step s e) es"
  by (simp_all add: ring_schedule_def)

lemma set_entry_simps [simp]:
  "rb_head (set_entry ring i f) = rb_head ring" "rb_tail (set_entry ring i f) = rb_tail ring"
  "rb_pending_count (set_entry ring i f) = rb_pending_count ring"
  "rb_total_requests (set_entry ring i f) = rb_total_requests ring"
  "rb_entries (set_entry ring i f) = (rb_entries ring)[i := f (rb_entries ring ! i)]"
  by (simp_all add: set_entry_def)

text \<open>A client that is not interrupted sends its request as \<^const>\<open>ring_send\<close> says.\<close>

lemma client_uninterrupted:
  assumes "rt_client s = Client_idle" "unat (rb_head (rt_ring s)) < length (rb_entries (rt_ring s))"
  shows "\<exists>n. ring_schedule s (replicate n (Client_runs q)) =
    s\<lparr>rt_ring := snd (ring_send (rt_ring s) q),
      rt_published := rt_published s @ (if fst (ring_send (rt_ring s) q) then [q] else [])\<rparr>"
proof (cases "(rb_head (rt_ring s) + 1) mod 1024 = rb_tail (rt_ring s)")
  case True
  then have "ring_schedule s (replicate (Suc (Suc 0)) (Client_runs q)) =
    s\<lparr>rt_ring := snd (ring_send (rt_ring s) q), rt_published := rt_published s @ []\<rparr>"
    using assms(1) by (simp add: ring_send_def)
  then show ?thesis using True by (intro exI [of _ "Suc (Suc 0)"]) (simp add: ring_send_def)
next
  case False
  then have "ring_schedule s (replicate (Suc (Suc (Suc (Suc (Suc (Suc (Suc (Suc 0)))))))) (Client_runs q)) =
    s\<lparr>rt_ring := snd (ring_send (rt_ring s) q), rt_published := rt_published s @ [q]\<rparr>"
    using assms by (simp add: ring_send_def set_entry_def Let_def)
  then show ?thesis using False by (intro exI [of _ "Suc (Suc (Suc (Suc (Suc (Suc (Suc (Suc 0)))))))"]) (simp add: ring_send_def Let_def)
qed

text \<open>A worker that is not interrupted takes a request as \<^const>\<open>ring_take\<close> says.\<close>

lemma worker_uninterrupted:
  assumes "w < length (rt_workers s)" "rt_workers s ! w = Worker_idle"
  shows "\<exists>n. ring_schedule s (replicate n (Worker_runs w)) =
    s\<lparr>rt_ring := snd (ring_take (rt_ring s)),
      rt_taken := rt_taken s @ (case fst (ring_take (rt_ring s)) of None \<Rightarrow> [] | Some q \<Rightarrow> [(w, q)])\<rparr>"
proof -
  have same: "(rt_workers s)[w := Worker_idle] = rt_workers s"
    using assms(2) by (metis list_update_id)
  let ?e = "rb_entries (rt_ring s) ! unat (rb_tail (rt_ring s) mod 1024)"
  consider (empty) "rb_tail (rt_ring s) = rb_head (rt_ring s)"
    | (unready) "rb_tail (rt_ring s) \<noteq> rb_head (rt_ring s)" "\<not> en_request_ready ?e"
    | (ready) "rb_tail (rt_ring s) \<noteq> rb_head (rt_ring s)" "en_request_ready ?e" by blast
  then show ?thesis
  proof cases
    case empty
    then show ?thesis using assms same
      by (intro exI [of _ "Suc (Suc 0)"]) (simp add: ring_take_def peek_request_def)
  next
    case unready
    then show ?thesis using assms same
      by (intro exI [of _ "Suc (Suc (Suc 0))"]) (simp add: ring_take_def peek_request_def Let_def)
  next
    case ready
    then show ?thesis using assms same
      by (intro exI [of _ "Suc (Suc (Suc (Suc (Suc (Suc (Suc 0))))))"])
        (simp add: ring_take_def peek_request_def consume_request_def set_entry_def Let_def)
  qed
qed


section \<open>The invariant\<close>

text \<open>
  What holds of the ring \<^const>\<open>rb_entries\<close> while the client is at \<open>c\<close> and the only worker inside its
  call, if any, is at \<open>w\<close>.  A slot has its request flag set when it is pending and not yet cleared by
  the worker, or when the client has marked it and not yet published it.
\<close>

fun client_ok :: "ShmRingBuffer \<Rightarrow> client_pc \<Rightarrow> bool" where
  "client_ok ring (Client_head q head) \<longleftrightarrow> head = rb_head ring"
| "client_ok ring (Client_room q head) \<longleftrightarrow> head = rb_head ring \<and> length (pending_slots ring) < RING_SIZE - 1"
| "client_ok ring (Client_copied q head) \<longleftrightarrow>
     head = rb_head ring \<and> length (pending_slots ring) < RING_SIZE - 1 \<and> en_request (rb_entries ring ! unat head) = q"
| "client_ok ring (Client_marked q head) \<longleftrightarrow>
     head = rb_head ring \<and> length (pending_slots ring) < RING_SIZE - 1 \<and> en_request (rb_entries ring ! unat head) = q"
| "client_ok ring (Client_cleared q head) \<longleftrightarrow>
     head = rb_head ring \<and> length (pending_slots ring) < RING_SIZE - 1 \<and> en_request (rb_entries ring ! unat head) = q"
| "client_ok ring _ \<longleftrightarrow> True"

fun worker_ok :: "ShmRingBuffer \<Rightarrow> worker_pc \<Rightarrow> bool" where
  "worker_ok ring (Worker_tail tail) \<longleftrightarrow> tail = rb_tail ring"
| "worker_ok ring (Worker_sees tail) \<longleftrightarrow> tail = rb_tail ring \<and> tail \<noteq> rb_head ring"
| "worker_ok ring (Worker_ready tail) \<longleftrightarrow> tail = rb_tail ring \<and> tail \<noteq> rb_head ring"
| "worker_ok ring (Worker_copied tail q) \<longleftrightarrow>
     tail = rb_tail ring \<and> tail \<noteq> rb_head ring \<and> en_request (rb_entries ring ! unat tail) = q"
| "worker_ok ring (Worker_cleared tail q) \<longleftrightarrow>
     tail = rb_tail ring \<and> tail \<noteq> rb_head ring \<and> en_request (rb_entries ring ! unat tail) = q"
| "worker_ok ring _ \<longleftrightarrow> True"

fun client_marks :: "client_pc \<Rightarrow> bool" where
  "client_marks (Client_marked _ _) \<longleftrightarrow> True"
| "client_marks (Client_cleared _ _) \<longleftrightarrow> True"
| "client_marks _ \<longleftrightarrow> False"

fun worker_clears :: "worker_pc \<Rightarrow> bool" where
  "worker_clears (Worker_cleared _ _) \<longleftrightarrow> True"
| "worker_clears _ \<longleftrightarrow> False"

definition slot_marked :: "ShmRingBuffer \<Rightarrow> client_pc \<Rightarrow> worker_pc \<Rightarrow> nat \<Rightarrow> bool" where
  "slot_marked ring c w i \<longleftrightarrow>
     (i \<in> set (pending_slots ring) \<and> \<not> (worker_clears w \<and> i = unat (rb_tail ring)))
     \<or> (client_marks c \<and> i = unat (rb_head ring))"

definition count_due :: "ShmRingBuffer \<Rightarrow> client_pc \<Rightarrow> worker_pc \<Rightarrow> bool" where
  "count_due ring c w \<longleftrightarrow>
     rb_pending_count ring + (case c of Client_published \<Rightarrow> 1 | _ \<Rightarrow> 0)
     = of_nat (length (pending_slots ring)) + (case w of Worker_advanced _ \<Rightarrow> 1 | _ \<Rightarrow> 0)"

definition threads_ok :: "ShmRingBuffer \<Rightarrow> client_pc \<Rightarrow> worker_pc \<Rightarrow> bool" where
  "threads_ok ring c w \<longleftrightarrow>
     length (rb_entries ring) = RING_SIZE \<and> unat (rb_head ring) < RING_SIZE \<and> unat (rb_tail ring) < RING_SIZE
     \<and> (\<forall>i < RING_SIZE. en_request_ready (rb_entries ring ! i) \<longleftrightarrow> slot_marked ring c w i)
     \<and> count_due ring c w \<and> client_ok ring c \<and> worker_ok ring w"

lemma threads_okI:
  assumes "length (rb_entries ring) = RING_SIZE" "unat (rb_head ring) < RING_SIZE" "unat (rb_tail ring) < RING_SIZE"
    and "\<And>i. i < RING_SIZE \<Longrightarrow> en_request_ready (rb_entries ring ! i) \<longleftrightarrow> slot_marked ring c w i"
    and "count_due ring c w" "client_ok ring c" "worker_ok ring w"
  shows "threads_ok ring c w"
  using assms by (simp add: threads_ok_def)

lemma threads_okD:
  assumes "threads_ok ring c w"
  shows "\<And>i. i < RING_SIZE \<Longrightarrow> en_request_ready (rb_entries ring ! i) \<longleftrightarrow> slot_marked ring c w i"
    "count_due ring c w" "client_ok ring c" "worker_ok ring w"
  using assms by (simp_all add: threads_ok_def)

lemma threads_ok_idle: "threads_ok ring Client_idle Worker_idle \<longleftrightarrow> ring_ok ring"
  by (simp add: threads_ok_def ring_ok_def slot_marked_def count_due_def)

lemma threads_bounds:
  assumes "threads_ok ring c w"
  shows "length (rb_entries ring) = RING_SIZE" "unat (rb_head ring) < RING_SIZE" "unat (rb_tail ring) < RING_SIZE"
    "unat (rb_head ring) \<notin> set (pending_slots ring)"
    "unat (rb_tail ring mod 1024) = unat (rb_tail ring)"
    "rb_tail ring \<noteq> rb_head ring \<Longrightarrow> unat (rb_tail ring) \<in> set (pending_slots ring)"
proof -
  show b: "length (rb_entries ring) = RING_SIZE" "unat (rb_head ring) < RING_SIZE" "unat (rb_tail ring) < RING_SIZE"
    using assms by (simp_all add: threads_ok_def)
  show "unat (rb_head ring) \<notin> set (pending_slots ring)"
    unfolding pending_slots_def by (rule ring_head_free [OF b(3,2)])
  show "unat (rb_tail ring mod 1024) = unat (rb_tail ring)" by (rule unat_ring_index [OF b(3)])
  show "unat (rb_tail ring) \<in> set (pending_slots ring)" if "rb_tail ring \<noteq> rb_head ring"
    using that ring_slots_pop [OF b(3,2)] by (simp add: pending_slots_def word_unat_eq_iff)
qed

lemma pending_slots_cong [simp]:
  "pending_slots (set_entry ring i f) = pending_slots ring"
  "pending_slots (ring\<lparr>rb_pending_count := n\<rparr>) = pending_slots ring"
  "pending_slots (ring\<lparr>rb_total_requests := k\<rparr>) = pending_slots ring"
  by (simp_all add: pending_slots_def)

lemma ring_requests_cong [simp]:
  "ring_requests (ring\<lparr>rb_pending_count := n\<rparr>) = ring_requests ring"
  "ring_requests (ring\<lparr>rb_total_requests := k\<rparr>) = ring_requests ring"
  by (simp_all add: ring_requests_def)

lemma ring_requests_set_entry:
  assumes "i \<notin> set (pending_slots ring) \<or> (\<forall>e. en_request (f e) = en_request e)"
  shows "ring_requests (set_entry ring i f) = ring_requests ring"
proof -
  have "en_request (rb_entries (set_entry ring i f) ! j) = en_request (rb_entries ring ! j)"
    if "j \<in> set (pending_slots ring)" for j
    using assms that by (cases "j = i"; cases "i < length (rb_entries ring)") (auto simp: list_update_beyond)
  then show ?thesis by (simp add: ring_requests_def)
qed

text \<open>Publishing adds the slot at the head to the pending ones, advancing takes the one at the tail away.\<close>

lemma publish_slots:
  assumes "threads_ok ring c w" "length (pending_slots ring) < RING_SIZE - 1"
  shows "pending_slots (ring\<lparr>rb_head := (rb_head ring + 1) mod 1024\<rparr>) = pending_slots ring @ [unat (rb_head ring)]"
proof -
  let ?h = "unat (rb_head ring)" and ?t = "unat (rb_tail ring)"
  note b = threads_bounds [OF assms(1)]
  have "(?h + 1) mod RING_SIZE \<noteq> ?t"
  proof
    assume "(?h + 1) mod RING_SIZE = ?t"
    then have "(?h + RING_SIZE - ?t) mod RING_SIZE = RING_SIZE - 1"
      unfolding ring_distance [OF b(3,2)] ring_next [OF b(2)] using b(2,3) by (auto split: if_splits)
    then show False using assms(2) by (simp add: pending_slots_def ring_slots_def)
  qed
  then show ?thesis
    using ring_slots_push [OF b(3,2)] unat_ring_next [OF b(2)] by (simp add: pending_slots_def)
qed

lemma advance_slots:
  assumes "threads_ok ring c w" "rb_tail ring \<noteq> rb_head ring"
  shows "pending_slots ring = unat (rb_tail ring) # pending_slots (ring\<lparr>rb_tail := (rb_tail ring + 1) mod 1024\<rparr>)"
  using assms(2) threads_bounds(2,3) [OF assms(1)] ring_slots_pop [of "unat (rb_tail ring)" RING_SIZE "unat (rb_head ring)"]
    unat_ring_next [of "rb_tail ring"]
  by (simp add: pending_slots_def word_unat_eq_iff)

lemma advance_distinct:
  assumes "threads_ok ring c w" "rb_tail ring \<noteq> rb_head ring"
  shows "unat (rb_tail ring) \<notin> set (pending_slots (ring\<lparr>rb_tail := (rb_tail ring + 1) mod 1024\<rparr>))"
  using ring_slots_distinct [OF threads_bounds(3) [OF assms(1)], of "unat (rb_head ring)"] advance_slots [OF assms]
  by (simp add: pending_slots_def)

lemma full_iff:
  assumes "threads_ok ring c w"
  shows "(rb_head ring + 1) mod 1024 = rb_tail ring \<longleftrightarrow> length (pending_slots ring) = RING_SIZE - 1"
proof -
  let ?h = "unat (rb_head ring)" and ?t = "unat (rb_tail ring)"
  note b = threads_bounds [OF assms]
  have "(rb_head ring + 1) mod 1024 = rb_tail ring \<longleftrightarrow> (?h + 1) mod RING_SIZE = ?t"
    using unat_ring_next [OF b(2)] by (metis word_unat_eq_iff)
  also have "\<dots> \<longleftrightarrow> (?h + RING_SIZE - ?t) mod RING_SIZE = RING_SIZE - 1"
    unfolding ring_distance [OF b(3,2)] ring_next [OF b(2)] using b by (auto split: if_splits)
  also have "\<dots> \<longleftrightarrow> length (pending_slots ring) = RING_SIZE - 1"
    by (simp add: pending_slots_def ring_slots_def)
  finally show ?thesis .
qed


section \<open>Every step keeps the invariant\<close>

lemma worker_ok_set_entry:
  assumes "worker_ok ring w" "i \<noteq> unat (rb_tail ring) \<or> (\<forall>e. en_request (f e) = en_request e)"
  shows "worker_ok (set_entry ring i f) w"
proof -
  have "en_request ((rb_entries ring)[i := f (rb_entries ring ! i)] ! unat (rb_tail ring))
      = en_request (rb_entries ring ! unat (rb_tail ring))"
    using assms(2) by (cases "i = unat (rb_tail ring)"; cases "i < length (rb_entries ring)")
      (auto simp: list_update_beyond)
  then show ?thesis using assms(1) by (cases w) auto
qed

lemma client_ok_set_entry:
  assumes "client_ok ring c" "\<forall>e. en_request (f e) = en_request e"
  shows "client_ok (set_entry ring i f) c"
proof -
  have "en_request ((rb_entries ring)[i := f (rb_entries ring ! i)] ! unat (rb_head ring))
      = en_request (rb_entries ring ! unat (rb_head ring))"
    using assms(2) by (cases "i = unat (rb_head ring)"; cases "i < length (rb_entries ring)")
      (auto simp: list_update_beyond)
  then show ?thesis using assms(1) by (cases c) auto
qed

lemma client_keeps_pc:
  assumes "threads_ok ring c w" "client_ok ring c'" "client_marks c' = client_marks c"
    "c \<noteq> Client_published" "c' \<noteq> Client_published"
  shows "threads_ok ring c' w"
proof -
  have "count_due ring c' w" using threads_okD(2) [OF assms(1)] assms(4,5) 
    by (cases c; cases c') (simp_all add: count_due_def)
  moreover have "slot_marked ring c' w i = slot_marked ring c w i" for i using assms(3) by (simp add: slot_marked_def)
  ultimately show ?thesis using assms(1,2) by (simp add: threads_ok_def)
qed

text \<open>Writing the entry at the head, which is not pending.\<close>

lemma client_writes_head:
  assumes "threads_ok ring c w" "\<not> client_marks c" "c \<noteq> Client_published" "c' \<noteq> Client_published"
    and "\<And>e. en_request_ready (f e) \<longleftrightarrow> (if client_marks c' then True else en_request_ready e)"
    and "client_ok (set_entry ring (unat (rb_head ring)) f) c'"
  shows "threads_ok (set_entry ring (unat (rb_head ring)) f) c' w"
    "ring_requests (set_entry ring (unat (rb_head ring)) f) = ring_requests ring"
proof -
  let ?r = "set_entry ring (unat (rb_head ring)) f"
  note b = threads_bounds [OF assms(1)] and d = threads_okD [OF assms(1)]
  show "ring_requests ?r = ring_requests ring" by (rule ring_requests_set_entry) (simp add: b(4))
  have w: "worker_ok ?r w"
  proof (cases "rb_tail ring = rb_head ring")
    case True
    then show ?thesis using d(4) by (cases w) simp_all
  next
    case False
    then have "unat (rb_head ring) \<noteq> unat (rb_tail ring)" by (simp add: word_unat_eq_iff)
    then show ?thesis using worker_ok_set_entry [OF d(4)] by simp
  qed
  have "count_due ?r c' w" using d(2) assms(3,4) by (cases c; cases c') (simp_all add: count_due_def)
  moreover have "en_request_ready (rb_entries ?r ! i) \<longleftrightarrow> slot_marked ?r c' w i" if "i < RING_SIZE" for i
  proof (cases "i = unat (rb_head ring)")
    case True
    then show ?thesis using b(1,2,4) d(1) [OF that] assms(2,5) by (simp add: slot_marked_def)
  next
    case False
    then show ?thesis using d(1) [OF that] by (simp add: slot_marked_def)
  qed
  ultimately show "threads_ok ?r c' w" using b w assms(6) by (intro threads_okI) simp_all
qed


text \<open>Writing the response part of an entry.\<close>

lemma response_keeps:
  assumes "threads_ok ring c w" "\<And>e. en_request (f e) = en_request e" "\<And>e. en_request_ready (f e) = en_request_ready e"
  shows "threads_ok (set_entry ring i f) c w" "ring_requests (set_entry ring i f) = ring_requests ring"
proof -
  note b = threads_bounds [OF assms(1)] and d = threads_okD [OF assms(1)]
  show "ring_requests (set_entry ring i f) = ring_requests ring" by (rule ring_requests_set_entry) (simp add: assms(2))
  have "en_request_ready (rb_entries (set_entry ring i f) ! j) = en_request_ready (rb_entries ring ! j)" if "j < RING_SIZE" for j
    using b(1) that assms(3) by (cases "j = i") simp_all
  moreover have "slot_marked (set_entry ring i f) c w = slot_marked ring c w" by (simp add: slot_marked_def fun_eq_iff)
  moreover have "count_due (set_entry ring i f) c w" using d(2) by (simp add: count_due_def)
  ultimately show "threads_ok (set_entry ring i f) c w"
    using b(1-3) d(1) client_ok_set_entry [OF d(3)] worker_ok_set_entry [OF d(4)] assms(2)
    by (intro threads_okI) simp_all
qed

text \<open>Storing the new head.\<close>

lemma publish_keeps:
  assumes "threads_ok ring (Client_cleared q h) w"
  shows "threads_ok (ring\<lparr>rb_head := (h + 1) mod 1024\<rparr>) Client_published w
    \<and> ring_requests (ring\<lparr>rb_head := (h + 1) mod 1024\<rparr>) = ring_requests ring @ [q]"
proof -
  note b = threads_bounds [OF assms] and d = threads_okD [OF assms]
  have c: "h = rb_head ring" "length (pending_slots ring) < RING_SIZE - 1" "en_request (rb_entries ring ! unat (rb_head ring)) = q"
    using d(3) by auto
  let ?r = "ring\<lparr>rb_head := (h + 1) mod 1024\<rparr>"
  have slots: "pending_slots ?r = pending_slots ring @ [unat (rb_head ring)]"
    unfolding c(1) by (rule publish_slots [OF assms c(2)])
  have ne: "rb_tail ?r \<noteq> rb_head ?r" using c(1,2) full_iff [OF assms] by auto
  have "worker_ok ?r w" using d(4) ne by (cases w) simp_all
  moreover have "unat (rb_head ?r) < RING_SIZE" using unat_ring_next [OF b(2)] by (simp add: c(1))
  moreover have "count_due ?r Client_published w" using d(2) by (simp add: count_due_def slots)
  moreover have "slot_marked ?r Client_published w i = slot_marked ring (Client_cleared q h) w i" for i
  proof (cases "worker_clears w")
    case True
    then have "rb_tail ring \<noteq> rb_head ring" using d(4) by (cases w) simp_all
    then have "unat (rb_tail ring) \<noteq> unat (rb_head ring)" by (simp add: word_unat_eq_iff)
    then show ?thesis by (auto simp: slot_marked_def slots)
  next
    case False
    then show ?thesis by (auto simp: slot_marked_def slots)
  qed
  ultimately have "threads_ok ?r Client_published w" using b d(1) by (intro threads_okI) simp_all
  moreover have "ring_requests ?r = ring_requests ring @ [q]" using c(3) by (simp add: ring_requests_def slots)
  ultimately show ?thesis by blast
qed

lemma count_keeps:
  assumes "threads_ok ring c w" "count_due (ring\<lparr>rb_pending_count := n\<rparr>) c' w'"
    and "client_marks c' = client_marks c" "worker_clears w' = worker_clears w" "client_ok ring c'" "worker_ok ring w'"
  shows "threads_ok (ring\<lparr>rb_pending_count := n\<rparr>) c' w'"
proof -
  have "client_ok (ring\<lparr>rb_pending_count := n\<rparr>) c'" using assms(5) by (cases c') simp_all
  moreover have "worker_ok (ring\<lparr>rb_pending_count := n\<rparr>) w'" using assms(6) by (cases w') simp_all
  moreover have "slot_marked (ring\<lparr>rb_pending_count := n\<rparr>) c' w' i = slot_marked ring c w i" for i
    using assms(3,4) by (simp add: slot_marked_def)
  ultimately show ?thesis using threads_bounds [OF assms(1)] threads_okD(1) [OF assms(1)] assms(2)
    by (intro threads_okI) simp_all
qed

lemma counted_keeps:
  assumes "threads_ok ring Client_counted w"
  shows "threads_ok (ring\<lparr>rb_total_requests := n\<rparr>) Client_idle w"
proof -
  have "worker_ok (ring\<lparr>rb_total_requests := n\<rparr>) w" using threads_okD(4) [OF assms] by (cases w) simp_all
  moreover have "slot_marked (ring\<lparr>rb_total_requests := n\<rparr>) Client_idle w i = slot_marked ring Client_counted w i" for i
    by (simp add: slot_marked_def)
  moreover have "count_due (ring\<lparr>rb_total_requests := n\<rparr>) Client_idle w"
    using threads_okD(2) [OF assms] by (simp add: count_due_def)
  ultimately show ?thesis using threads_bounds [OF assms] threads_okD(1) [OF assms]
    by (intro threads_okI) simp_all
qed

lemma client_keeps:
  assumes "threads_ok ring c w" "client_step q ring c = (ring', c', new)"
  shows "threads_ok ring' c' w \<and> ring_requests ring' = ring_requests ring @ new"
proof (cases c)
  case Client_idle
  then show ?thesis using assms client_keeps_pc [OF assms(1), of "Client_head q (rb_head ring)"] by auto
next
  case (Client_head q' h)
  have h: "h = rb_head ring" using threads_okD(3) [OF assms(1)] by (simp add: Client_head)
  have "length (pending_slots ring) \<le> RING_SIZE - 1"
    using length_ring_slots [of RING_SIZE "unat (rb_tail ring)" "unat (rb_head ring)"] by (simp add: pending_slots_def)
  then have "client_ok ring c'" "\<not> client_marks c'" "c' \<noteq> Client_published" 
    using assms(2) full_iff [OF assms(1)] by (auto simp: Client_head h)
  then show ?thesis using assms(2) client_keeps_pc [OF assms(1), of c'] by (simp add: Client_head)
next
  case (Client_room q' h)
  then show ?thesis
    using assms(2) threads_okD(3) [OF assms(1)] threads_bounds(1,2) [OF assms(1)]
      client_writes_head [OF assms(1), of "Client_copied q' h" "\<lambda>e. e\<lparr>en_request := q'\<rparr>"] by auto
next
  case (Client_copied q' h)
  then show ?thesis
    using assms(2) threads_okD(3) [OF assms(1)] threads_bounds(1,2) [OF assms(1)]
      client_writes_head [OF assms(1), of "Client_marked q' h" "\<lambda>e. e\<lparr>en_request_ready := True\<rparr>"] by auto
next
  case (Client_marked q' h)
  have "threads_ok ring (Client_cleared q' h) w"
    by (rule client_keeps_pc [OF assms(1)]) (use Client_marked threads_okD(3) [OF assms(1)] in auto)
  then show ?thesis
    using assms(2) Client_marked response_keeps [of ring "Client_cleared q' h" w "\<lambda>e. e\<lparr>en_response_ready := False\<rparr>"] by auto
next
  case (Client_cleared q' h)
  then show ?thesis using assms publish_keeps [of ring q' h w] by auto
next
  case Client_published
  have "count_due (ring\<lparr>rb_pending_count := rb_pending_count ring + 1\<rparr>) Client_counted w"
    using threads_okD(2) [OF assms(1)] by (simp add: count_due_def Client_published)
  then show ?thesis
    using assms(2) count_keeps [OF assms(1)] threads_okD(4) [OF assms(1)] by (auto simp: Client_published)
next
  case Client_counted
  then show ?thesis using assms counted_keeps by auto
qed


lemma worker_keeps_pc:
  assumes "threads_ok ring c w" "worker_ok ring w'" "\<not> worker_clears w" "\<not> worker_clears w'"
    "\<And>q. w \<noteq> Worker_advanced q" "\<And>q. w' \<noteq> Worker_advanced q"
  shows "threads_ok ring c w'"
proof -
  have "count_due ring c w'" using threads_okD(2) [OF assms(1)] assms(5,6)
    by (cases w; cases w') (auto simp: count_due_def)
  moreover have "slot_marked ring c w' i = slot_marked ring c w i" for i using assms(3,4) by (simp add: slot_marked_def)
  ultimately show ?thesis using assms(1,2) by (simp add: threads_ok_def)
qed

text \<open>Clearing the flag of the entry at the tail.\<close>

lemma clear_keeps:
  assumes "threads_ok ring c (Worker_copied t q)"
  shows "threads_ok (set_entry ring (unat t) (\<lambda>e. e\<lparr>en_request_ready := False\<rparr>)) c (Worker_cleared t q)
    \<and> ring_requests (set_entry ring (unat t) (\<lambda>e. e\<lparr>en_request_ready := False\<rparr>)) = ring_requests ring"
proof -
  let ?f = "\<lambda>e. e\<lparr>en_request_ready := False\<rparr>"
  let ?r = "set_entry ring (unat t) ?f" and ?w = "Worker_cleared t q"
  note b = threads_bounds [OF assms] and d = threads_okD [OF assms]
  have t: "t = rb_tail ring" "rb_tail ring \<noteq> rb_head ring" using d(4) by auto
  then have ne: "unat (rb_tail ring) \<noteq> unat (rb_head ring)" by (simp add: word_unat_eq_iff)
  have "worker_ok ring ?w" using d(4) by auto
  then have "worker_ok ?r ?w" by (rule worker_ok_set_entry) simp
  moreover have "client_ok ?r c" by (rule client_ok_set_entry [OF d(3)]) simp
  moreover have "count_due ?r c ?w" using d(2) by (simp add: count_due_def)
  moreover have "en_request_ready (rb_entries ?r ! i) \<longleftrightarrow> slot_marked ?r c ?w i" if "i < RING_SIZE" for i
  proof (cases "i = unat (rb_tail ring)")
    case True
    then show ?thesis using b(1,3) ne by (simp add: slot_marked_def t(1))
  next
    case False
    then show ?thesis using d(1) [OF that] by (simp add: slot_marked_def t(1))
  qed
  ultimately have "threads_ok ?r c ?w" using b(1-3) by (intro threads_okI) (simp_all del: worker_ok.simps)
  moreover have "ring_requests ?r = ring_requests ring" by (rule ring_requests_set_entry) simp
  ultimately show ?thesis by blast
qed

text \<open>Storing the new tail.\<close>

lemma advance_keeps:
  assumes "threads_ok ring c (Worker_cleared t q)"
  shows "threads_ok (ring\<lparr>rb_tail := (t + 1) mod 1024\<rparr>) c (Worker_advanced q)
    \<and> ring_requests ring = q # ring_requests (ring\<lparr>rb_tail := (t + 1) mod 1024\<rparr>)"
proof -
  let ?r = "ring\<lparr>rb_tail := (t + 1) mod 1024\<rparr>" and ?w = "Worker_advanced q"
  note b = threads_bounds [OF assms] and d = threads_okD [OF assms]
  have t: "t = rb_tail ring" "rb_tail ring \<noteq> rb_head ring" "en_request (rb_entries ring ! unat (rb_tail ring)) = q"
    using d(4) by auto
  have slots: "pending_slots ring = unat (rb_tail ring) # pending_slots ?r"
    unfolding t(1) by (rule advance_slots [OF assms t(2)])
  have out: "unat (rb_tail ring) \<notin> set (pending_slots ?r)"
    unfolding t(1) by (rule advance_distinct [OF assms t(2)])
  have "client_ok ?r c" using d(3) slots by (cases c) auto
  moreover have "unat (rb_tail ?r) < RING_SIZE" using unat_ring_next [OF b(3)] by (simp add: t(1))
  moreover have "count_due ?r c ?w" using d(2) by (cases c) (simp_all add: count_due_def slots)
  moreover have "slot_marked ?r c ?w i = slot_marked ring c (Worker_cleared t q) i" for i
    using out by (auto simp: slot_marked_def slots)
  ultimately have "threads_ok ?r c ?w" using b d(1) by (intro threads_okI) simp_all
  moreover have "ring_requests ring = q # ring_requests ?r" using t(3) by (simp add: ring_requests_def slots)
  ultimately show ?thesis by blast
qed

lemma worker_keeps:
  assumes "threads_ok ring c w" "worker_step ring w = (ring', w', got)"
  shows "threads_ok ring' c w' \<and> ring_requests ring = got @ ring_requests ring'"
proof (cases w)
  case Worker_idle
  then show ?thesis using assms worker_keeps_pc [OF assms(1), of "Worker_tail (rb_tail ring)"] by auto
next
  case (Worker_tail t)
  then show ?thesis
    using assms(2) threads_okD(4) [OF assms(1)] worker_keeps_pc [OF assms(1), of w'] by (auto split: if_splits)
next
  case (Worker_sees t)
  then show ?thesis
    using assms(2) threads_okD(4) [OF assms(1)] worker_keeps_pc [OF assms(1), of w'] by (auto split: if_splits)
next
  case (Worker_ready t)
  then have "t = rb_tail ring" using threads_okD(4) [OF assms(1)] by simp
  then show ?thesis
    using Worker_ready assms(2) threads_okD(4) [OF assms(1)] threads_bounds(5) [OF assms(1)]
      worker_keeps_pc [OF assms(1), of w'] by auto
next
  case (Worker_copied t q)
  then have "t = rb_tail ring" using threads_okD(4) [OF assms(1)] by simp
  then show ?thesis
    using Worker_copied assms clear_keeps [of ring c t q] threads_bounds(5) [OF assms(1)] by auto
next
  case (Worker_cleared t q)
  then show ?thesis using assms advance_keeps [of ring c t q] by auto
next
  case (Worker_advanced q)
  have "count_due (ring\<lparr>rb_pending_count := rb_pending_count ring - 1\<rparr>) c Worker_idle"
    using threads_okD(2) [OF assms(1)] by (cases c) (simp_all add: count_due_def Worker_advanced algebra_simps)
  then show ?thesis
    using assms(2) count_keeps [OF assms(1)] threads_okD(3) [OF assms(1)] by (auto simp: Worker_advanced)
qed

section \<open>Runs in which the workers do not overlap\<close>

definition current :: "worker_pc list \<Rightarrow> worker_pc" where
  "current ws = (case filter (\<lambda>p. p \<noteq> Worker_idle) ws of [] \<Rightarrow> Worker_idle | p # _ \<Rightarrow> p)"

lemma current_step:
  assumes "i < length ws" "workers_apart ws" "workers_apart (ws[i := p])" "ws ! i \<noteq> Worker_idle \<or> p \<noteq> Worker_idle"
  shows "current ws = ws ! i" "current (ws[i := p]) = p"
proof -
  let ?act = "\<lambda>p. p \<noteq> Worker_idle"
  have ws: "ws = take i ws @ ws ! i # drop (Suc i) ws" by (rule id_take_nth_drop [OF assms(1)])
  have ws': "ws[i := p] = take i ws @ p # drop (Suc i) ws" by (rule upd_conv_take_nth_drop [OF assms(1)])
  have f: "filter ?act ws = filter ?act (take i ws) @ filter ?act [ws ! i] @ filter ?act (drop (Suc i) ws)"
    by (subst ws) simp
  have f': "filter ?act (ws[i := p]) = filter ?act (take i ws) @ filter ?act [p] @ filter ?act (drop (Suc i) ws)"
    by (simp add: ws')
  have "filter ?act (take i ws) = []" "filter ?act (drop (Suc i) ws) = []"
    using assms(2-4) unfolding workers_apart_def f f' by (auto split: if_splits)
  then have "filter ?act ws = filter ?act [ws ! i]" "filter ?act (ws[i := p]) = filter ?act [p]"
    unfolding f f' by (simp_all only: append_Nil append_Nil2)
  then show "current ws = ws ! i" "current (ws[i := p]) = p" by (simp_all add: current_def)
qed

lemma worker_step_moves: "worker_step ring w = (ring', w', got) \<Longrightarrow> w \<noteq> Worker_idle \<or> w' \<noteq> Worker_idle"
  by (cases w) auto

lemma threads_step_keeps:
  assumes "threads_ok (rt_ring s) (rt_client s) (current (rt_workers s))"
    and "workers_apart (rt_workers s)" "workers_apart (rt_workers (threads_step s e))"
  shows "threads_ok (rt_ring (threads_step s e)) (rt_client (threads_step s e)) (current (rt_workers (threads_step s e)))
    \<and> (\<exists>new got. rt_published (threads_step s e) = rt_published s @ new
        \<and> map snd (rt_taken (threads_step s e)) = map snd (rt_taken s) @ got
        \<and> ring_requests (rt_ring s) @ new = got @ ring_requests (rt_ring (threads_step s e)))"
proof (cases e)
  case (Client_runs q)
  obtain ring' c' new where c: "client_step q (rt_ring s) (rt_client s) = (ring', c', new)"
    by (cases "client_step q (rt_ring s) (rt_client s)")
  show ?thesis using client_keeps [OF assms(1) c] by (simp add: Client_runs c)
next
  case (Worker_runs i)
  show ?thesis
  proof (cases "i < length (rt_workers s)")
    case True
    obtain ring' w' got where w: "worker_step (rt_ring s) (rt_workers s ! i) = (ring', w', got)"
      by (cases "worker_step (rt_ring s) (rt_workers s ! i)")
    have "workers_apart ((rt_workers s)[i := w'])" using assms(3) True by (simp add: Worker_runs w)
    note cur = current_step [OF True assms(2) this worker_step_moves [OF w]]
    show ?thesis
      using worker_keeps [OF assms(1) [unfolded cur(1)] w] True by (simp add: Worker_runs w cur(2) comp_def)
  next
    case False
    then show ?thesis using assms(1) by (simp add: Worker_runs)
  qed
next
  case (Response_written i ready p)
  then show ?thesis using response_keeps [OF assms(1)] by simp
qed

lemma schedule_keeps:
  assumes "threads_ok (rt_ring s) (rt_client s) (current (rt_workers s))" "schedule_apart s es"
  shows "threads_ok (rt_ring (ring_schedule s es)) (rt_client (ring_schedule s es)) (current (rt_workers (ring_schedule s es)))
    \<and> (\<exists>new got. rt_published (ring_schedule s es) = rt_published s @ new
        \<and> map snd (rt_taken (ring_schedule s es)) = map snd (rt_taken s) @ got
        \<and> ring_requests (rt_ring s) @ new = got @ ring_requests (rt_ring (ring_schedule s es)))"
  using assms
proof (induction es arbitrary: s)
  case (Cons e es)
  have apart: "workers_apart (rt_workers s)" "schedule_apart (threads_step s e) es" using Cons.prems(2) by simp_all
  have "workers_apart (rt_workers (threads_step s e))" using apart(2) by (cases es) simp_all
  note step = threads_step_keeps [OF Cons.prems(1) apart(1) this]
  obtain new got where n: "rt_published (threads_step s e) = rt_published s @ new"
      "map snd (rt_taken (threads_step s e)) = map snd (rt_taken s) @ got"
      "ring_requests (rt_ring s) @ new = got @ ring_requests (rt_ring (threads_step s e))" using step by blast
  obtain new' got' where n': "rt_published (ring_schedule (threads_step s e) es) = rt_published (threads_step s e) @ new'"
      "map snd (rt_taken (ring_schedule (threads_step s e) es)) = map snd (rt_taken (threads_step s e)) @ got'"
      "ring_requests (rt_ring (threads_step s e)) @ new' = got' @ ring_requests (rt_ring (ring_schedule (threads_step s e) es))"
    using Cons.IH [OF conjunct1 [OF step] apart(2)] by blast
  have "ring_requests (rt_ring s) @ new @ new' = (got @ got') @ ring_requests (rt_ring (ring_schedule (threads_step s e) es))"
    using n(3) n'(3) by (metis append.assoc)
  then show ?case using Cons.IH [OF conjunct1 [OF step] apart(2)] n(1,2) n'(1,2) by (auto intro!: exI [of _ "new @ new'"])
qed simp


section \<open>Properties\<close>

text \<open>
  C12. One client and the four workers run on a ring, step by step and in any interleaving, with responses
  being written and read in between.  As long as no two workers are inside \<open>wait_for_request\<close> on this
  ring at the same time, the workers together take the requests in the order in which the client
  published them, each exactly once; at most 1023 requests are pending, a request is refused exactly
  when that many are pending at the moment of the check, and once all calls have returned the flags and
  the count of the ring are those of its pending requests.  Nothing in the code keeps the workers from
  overlapping; when they do, a request can be taken twice.
\<close>

theorem ring_fifo:
  assumes "ring_ok ring" "schedule_apart (threads_start ring) es"
    and "s = ring_schedule (threads_start ring) es"
  shows "ring_requests ring @ rt_published s = map snd (rt_taken s) @ ring_requests (rt_ring s)
    \<and> length (ring_requests (rt_ring s)) \<le> 1023
    \<and> (\<forall>q head. rt_client s = Client_head q head \<longrightarrow>
         (rt_client (threads_step s (Client_runs q')) = Client_idle \<longleftrightarrow> length (ring_requests (rt_ring s)) = 1023))
    \<and> (rt_client s = Client_idle \<and> list_all (\<lambda>p. p = Worker_idle) (rt_workers s) \<longrightarrow> ring_ok (rt_ring s))"
proof -
  have "threads_ok ring Client_idle (current (replicate NUM_WORKERS Worker_idle))"
    using assms(1) by (simp add: threads_ok_idle current_def)
  then have k: "threads_ok (rt_ring s) (rt_client s) (current (rt_workers s))"
    "ring_requests ring @ rt_published s = map snd (rt_taken s) @ ring_requests (rt_ring s)"
    using schedule_keeps [OF _ assms(2)] by (auto simp: assms(3) threads_start_def)
  have "length (ring_requests (rt_ring s)) \<le> 1023"
    using length_ring_slots [of RING_SIZE "unat (rb_tail (rt_ring s))" "unat (rb_head (rt_ring s))"]
    by (simp add: length_ring_requests pending_slots_def)
  moreover have "rt_client (threads_step s (Client_runs q')) = Client_idle \<longleftrightarrow> length (ring_requests (rt_ring s)) = 1023"
    if "rt_client s = Client_head q head" for q head
    using that threads_okD(3) [OF k(1)] full_iff [OF k(1)] by (simp add: length_ring_requests)
  moreover have "ring_ok (rt_ring s)" if "rt_client s = Client_idle" "list_all (\<lambda>p. p = Worker_idle) (rt_workers s)"
  proof -
    have "filter (\<lambda>p. p \<noteq> Worker_idle) (rt_workers s) = []" using that(2) by (simp add: list_all_iff filter_empty_conv)
    then have "current (rt_workers s) = Worker_idle" by (simp add: current_def)
    then show ?thesis using k(1) that(1) threads_ok_idle by simp
  qed
  ultimately show ?thesis using k(2) by blast
qed

text \<open>
  An example: worker 2 takes a request while the client is still between publishing and counting it,
  and worker 0 comes after it.
\<close>

definition example_schedule :: "ring_event list" where
  "example_schedule =
     replicate 6 (Client_runs blank_request) @ replicate 4 (Worker_runs 2) @ [Client_runs blank_request, Response_written 7 True blank_response]
     @ replicate 3 (Worker_runs 2) @ [Client_runs blank_request, Worker_runs 0, Worker_runs 0]"

lemma example_ring_start:
  "rb_head example_ring = 0" "rb_tail example_ring = 0" "length (rb_entries example_ring) = 1024" "ring_requests example_ring = []"
  using example_ring_quiet by (simp_all add: example_ring_def ring_initialize_def ring_quiet_def ring_requests_def pending_slots_def)

theorem ring_fifo_witness:
  "schedule_apart (threads_start example_ring) example_schedule
    \<and> rt_published (ring_schedule (threads_start example_ring) example_schedule) = [blank_request]
    \<and> rt_taken (ring_schedule (threads_start example_ring) example_schedule) = [(2, blank_request)]
    \<and> ring_requests (rt_ring (ring_schedule (threads_start example_ring) example_schedule)) = []"
proof -
  have "schedule_apart (threads_start example_ring) example_schedule
    \<and> rt_published (ring_schedule (threads_start example_ring) example_schedule) = [blank_request]
    \<and> rt_taken (ring_schedule (threads_start example_ring) example_schedule) = [(2, blank_request)]"
    by (simp add: example_schedule_def threads_start_def workers_apart_def example_ring_start replicate_eqs)
  moreover from this have "ring_requests example_ring @ [blank_request]
      = map snd [(2::nat, blank_request)] @ ring_requests (rt_ring (ring_schedule (threads_start example_ring) example_schedule))"
    using ring_fifo [of example_ring example_schedule, OF _ _ refl] example_ring_quiet by (simp add: ring_quiet_def)
  ultimately show ?thesis by (simp add: example_ring_start)
qed

text \<open>
  Two workers that read the tail before either has moved it both take the same request, and the
  count of pending requests goes below zero.
\<close>

lemma request_taken_twice:
  assumes "ring_ok ring" "ring_requests ring = [q]"
  shows "\<exists>es. rt_taken (ring_schedule (threads_start ring) es) = [(0, q), (1, q)]
    \<and> rb_pending_count (rt_ring (ring_schedule (threads_start ring) es)) = UINT32_MAX"
proof -
  have ne: "pending_slots ring \<noteq> []" and one: "length (pending_slots ring) = 1"
    using assms(2) length_ring_requests [of ring] by (auto simp: ring_requests_def)
  have t: "rb_tail ring \<noteq> rb_head ring" using pending_nil_iff [OF assms(1)] ne by simp
  have "peek_request ring = Some q" using peek_pending [OF assms(1) ne] assms(2) by simp
  then have e: "en_request_ready (rb_entries ring ! unat (rb_tail ring mod 1024))"
      "en_request (rb_entries ring ! unat (rb_tail ring mod 1024)) = q"
    using t by (simp_all add: peek_request_def Let_def split: if_splits)
  have "rb_pending_count ring = 1" using assms(1) one by (simp add: ring_ok_def)
  then show ?thesis
    using t e
    by (intro exI [of _ "[Worker_runs 0, Worker_runs 1, Worker_runs 0, Worker_runs 1, Worker_runs 0, Worker_runs 1,
        Worker_runs 0, Worker_runs 1, Worker_runs 0, Worker_runs 1, Worker_runs 0, Worker_runs 1, Worker_runs 0, Worker_runs 1]"])
      (simp add: threads_start_def replicate_eqs)
qed

end
