(* ===== verification/Mem_Server.thy ===== *)
theory Mem_Server
  imports CXL_Controller Shm_Manager Shm_Ring "HOL-Library.Monad_Syntax"
begin

text \<open>
  The memory server of \<open>src/src/main_server.cc\<close>, \<open>ThreadPerConnectionServer\<close>: it serves reads, writes,
  atomic operations, fences and accesses to the label storage area for the clients of a simulated
  memory, keeps a coherency state per cache line, queues back invalidations, and charges each request
  a latency computed by the controller, the congestion of the server and the coherency state.

  A request is handled under the server's locks, so one call is one step.  What the call learns from
  its environment is in a record: the clock, at the time of a coherency action and later when the
  congestion is computed, and the outcome of the \<open>msync\<close> calls, one for each write to the shared
  memory the call makes.  \<^const>\<open>None\<close> is undefined behaviour: an access outside the mapped memory or
  through a dangling pointer.  Logging is left out; growing the label storage is taken to succeed.
\<close>

section \<open>Data\<close>

record ServerRequest =
  rq_op_type :: u8
  rq_addr :: u64
  rq_size :: u64
  rq_timestamp :: u64
  rq_value :: u64
  rq_expected :: u64
  rq_data :: "u8 list"

record ServerResponse =
  rp_status :: u8
  rp_latency_ns :: u64
  rp_old_value :: u64
  rp_data :: "u8 list"

abbreviation OP_READ :: u8 where "OP_READ \<equiv> 0"
abbreviation OP_WRITE :: u8 where "OP_WRITE \<equiv> 1"
abbreviation OP_GET_SHM_INFO :: u8 where "OP_GET_SHM_INFO \<equiv> 2"
abbreviation OP_ATOMIC_FAA :: u8 where "OP_ATOMIC_FAA \<equiv> 3"
abbreviation OP_ATOMIC_CAS :: u8 where "OP_ATOMIC_CAS \<equiv> 4"
abbreviation OP_FENCE :: u8 where "OP_FENCE \<equiv> 5"
abbreviation OP_LSA_READ :: u8 where "OP_LSA_READ \<equiv> 6"
abbreviation OP_LSA_WRITE :: u8 where "OP_LSA_WRITE \<equiv> 7"

record BackInvalidationEntry =
  bi_cacheline_addr :: u64
  bi_source_thread_id :: int
  bi_timestamp :: u64
  bi_dirty_data :: "u8 list"

record Server =
  sv_controller :: CXLController
  sv_shm_manager :: SharedMemoryManager
  sv_active_requests :: int
  sv_total_bandwidth_used :: u64
  sv_last_reset :: int
  sv_back_invalidation_queue :: "(u64 \<times> BackInvalidationEntry list) list"
  sv_total_reads :: u64
  sv_total_writes :: u64
  sv_total_atomic_faa :: u64
  sv_total_atomic_cas :: u64
  sv_total_atomic_cas_success :: u64
  sv_total_fences :: u64
  sv_coherency_invalidations :: u64
  sv_coherency_downgrades :: u64
  sv_back_invalidations :: u64
  sv_lsa_data :: "u8 list"
  sv_lsa_size :: u64

record request_env =
  ev_now :: int
  ev_later :: int
  ev_msync :: "nat \<Rightarrow> bool"
  ev_grows :: "nat \<Rightarrow> bool"

definition new_Server :: "CXLController \<Rightarrow> SharedMemoryManager \<Rightarrow> int \<Rightarrow> Server" where
  "new_Server ctrl manager now =
     \<lparr>sv_controller = ctrl, sv_shm_manager = manager, sv_active_requests = 0, sv_total_bandwidth_used = 0,
      sv_last_reset = now, sv_back_invalidation_queue = [], sv_total_reads = 0, sv_total_writes = 0,
      sv_total_atomic_faa = 0, sv_total_atomic_cas = 0, sv_total_atomic_cas_success = 0, sv_total_fences = 0,
      sv_coherency_invalidations = 0, sv_coherency_downgrades = 0, sv_back_invalidations = 0,
      sv_lsa_data = replicate (256 * 1024) 0, sv_lsa_size = 256 * 1024\<rparr>"

section \<open>Coherency\<close>

definition server_downgrade_owner :: "Server \<Rightarrow> int \<Rightarrow> CachelineMetadata \<Rightarrow> Server" where
  "server_downgrade_owner srv requesting_thread info =
     (if cm_owner info \<noteq> - 1 \<and> cm_owner info \<noteq> requesting_thread
      then srv\<lparr>sv_coherency_downgrades := sv_coherency_downgrades srv + 1\<rparr> else srv)"

definition handle_read_coherency ::
  "Server \<Rightarrow> int \<Rightarrow> CachelineMetadata \<Rightarrow> CachelineMetadata \<times> Server" where
  "handle_read_coherency srv thread_id info =
     (case cm_state info of
        CS_INVALID \<Rightarrow>
          (info\<lparr>cm_state := CS_SHARED, cm_sharers := insert thread_id (cm_sharers info)\<rparr>, srv)
      | CS_SHARED \<Rightarrow> (info\<lparr>cm_sharers := insert thread_id (cm_sharers info)\<rparr>, srv)
      | _ \<Rightarrow>
          (info\<lparr>cm_state := CS_SHARED, cm_owner := - 1,
                cm_sharers := insert thread_id (insert (cm_owner info) (cm_sharers info))\<rparr>,
           server_downgrade_owner srv thread_id info))"

definition server_invalidate_sharers :: "Server \<Rightarrow> int \<Rightarrow> CachelineMetadata \<Rightarrow> Server" where
  "server_invalidate_sharers srv requesting_thread info =
     srv\<lparr>sv_coherency_invalidations := sv_coherency_invalidations srv
            + of_nat (card (cm_sharers info - {requesting_thread}))
            + (if cm_owner info \<noteq> - 1 \<and> cm_owner info \<noteq> requesting_thread then 1 else 0)\<rparr>"

definition handle_write_coherency ::
  "Server \<Rightarrow> int \<Rightarrow> int \<Rightarrow> CachelineMetadata \<Rightarrow> CachelineMetadata \<times> Server" where
  "handle_write_coherency srv now thread_id info =
     (let dirty = (\<lambda>i. i\<lparr>cm_has_dirty_update := True, cm_dirty_update_time := word_of_int now\<rparr>)
      in case cm_state info of
           CS_INVALID \<Rightarrow> (info\<lparr>cm_state := CS_MODIFIED, cm_owner := thread_id\<rparr>, srv)
         | CS_SHARED \<Rightarrow>
             (dirty (info\<lparr>cm_state := CS_MODIFIED, cm_owner := thread_id, cm_sharers := {}\<rparr>),
              server_invalidate_sharers srv thread_id info)
         | _ \<Rightarrow>
             (if cm_owner info \<noteq> thread_id
              then (dirty (info\<lparr>cm_state := CS_MODIFIED, cm_owner := thread_id\<rparr>),
                    server_invalidate_sharers srv thread_id info)
              else (info\<lparr>cm_state := CS_MODIFIED, cm_owner := thread_id\<rparr>, srv)))"

section \<open>Back invalidation\<close>

definition pending_entries :: "Server \<Rightarrow> u64 \<Rightarrow> BackInvalidationEntry list" where
  "pending_entries srv cacheline_addr =
     (case map_of (sv_back_invalidation_queue srv) cacheline_addr of Some q \<Rightarrow> q | None \<Rightarrow> [])"

definition register_back_invalidation :: "u64 \<Rightarrow> int \<Rightarrow> u8 list \<Rightarrow> u64 \<Rightarrow> Server \<Rightarrow> Server" where
  "register_back_invalidation cacheline_addr source_thread_id dirty_data timestamp srv =
     srv\<lparr>sv_back_invalidation_queue :=
       map_set cacheline_addr
         (pending_entries srv cacheline_addr @
            [\<lparr>bi_cacheline_addr = cacheline_addr, bi_source_thread_id = source_thread_id,
              bi_timestamp = timestamp, bi_dirty_data = dirty_data\<rparr>])
         (sv_back_invalidation_queue srv)\<rparr>"

text \<open>
  The loop over the queue of a line: \<open>k\<close> counts the writes made so far, \<open>had\<close> tells whether one of
  them succeeded.
\<close>

fun apply_entries ::
  "(nat \<Rightarrow> bool) \<Rightarrow> nat \<Rightarrow> u64 \<Rightarrow> BackInvalidationEntry list \<Rightarrow> bool \<Rightarrow> CachelineMetadata \<Rightarrow> Server
     \<Rightarrow> (bool \<times> CachelineMetadata \<times> Server) option" where
  "apply_entries msync k cacheline_addr [] had info srv = Some (had, info, srv)"
| "apply_entries msync k cacheline_addr (entry # entries) had info srv =
     (if bi_timestamp entry > cm_last_access_time info
      then
        (case write_cacheline (sv_shm_manager srv) cacheline_addr (bi_dirty_data entry) (msync k) of
           None \<Rightarrow> None
         | Some (False, m) \<Rightarrow>
             apply_entries msync (k + 1) cacheline_addr entries had info (srv\<lparr>sv_shm_manager := m\<rparr>)
         | Some (True, m) \<Rightarrow>
             apply_entries msync (k + 1) cacheline_addr entries True
               (info\<lparr>cm_has_dirty_update := False, cm_dirty_update_time := bi_timestamp entry\<rparr>)
               (srv\<lparr>sv_shm_manager := m, sv_back_invalidations := sv_back_invalidations srv + 1\<rparr>))
      else apply_entries msync k cacheline_addr entries had info srv)"

definition check_and_apply_back_invalidations ::
  "(nat \<Rightarrow> bool) \<Rightarrow> Server \<Rightarrow> u64 \<Rightarrow> CachelineMetadata \<Rightarrow> (bool \<times> CachelineMetadata \<times> Server) option" where
  "check_and_apply_back_invalidations msync srv cacheline_addr info =
     (if pending_entries srv cacheline_addr = [] then Some (False, info, srv)
      else
        map_option
          (\<lambda>(had, info', srv'). (had, info', srv'\<lparr>sv_back_invalidation_queue :=
             filter (\<lambda>(a, _). a \<noteq> cacheline_addr) (sv_back_invalidation_queue srv')\<rparr>))
          (apply_entries msync 0 cacheline_addr (pending_entries srv cacheline_addr) False info srv))"

section \<open>Latency\<close>

definition calculate_congestion_factor :: "Server \<Rightarrow> int \<Rightarrow> real \<times> Server" where
  "calculate_congestion_factor srv now =
     (let srv1 = (if (now - sv_last_reset srv) div 1000000 > 1000
                  then srv\<lparr>sv_total_bandwidth_used := 0, sv_last_reset := now\<rparr> else srv);
          factor = 1 + (real_of_int (sv_active_requests srv1) / 10) * (1 / 10)
      in (if sv_total_bandwidth_used srv1 > 64 * 1024 * 1024 * 1024 then factor * (3 / 2) else factor, srv1))"

definition update_congestion_stats :: "Server \<Rightarrow> u64 \<Rightarrow> Server" where
  "update_congestion_stats srv bytes_transferred =
     srv\<lparr>sv_total_bandwidth_used := sv_total_bandwidth_used srv + bytes_transferred\<rparr>"

definition calculate_total_latency :: "u64 \<Rightarrow> real \<Rightarrow> bool \<Rightarrow> u64 \<Rightarrow> u64" where
  "calculate_total_latency base_latency congestion_factor had_coherency_miss sz =
     u64_of_double
       (double_of_u64 base_latency * congestion_factor
        + (if had_coherency_miss then 50 else 0)
        + (double_of_u64 sz * 8) / (64 * 10 ^ 9) * 10 ^ 9)"

text \<open>
  The end of a served request: congestion, bandwidth and latency; \<open>extra\<close> is the cost of a
  read-modify-write.
\<close>

definition finish_request_latency ::
  "Server \<Rightarrow> int \<Rightarrow> real \<Rightarrow> bool \<Rightarrow> u64 \<Rightarrow> u64 \<Rightarrow> u64 \<times> Server" where
  "finish_request_latency srv now base_latency miss sz extra =
     (let (factor, srv1) = calculate_congestion_factor srv now;
          srv2 = update_congestion_stats srv1 sz
      in (calculate_total_latency (u64_of_double base_latency) factor miss sz + extra,
          srv2\<lparr>sv_active_requests := sv_active_requests srv2 - 1\<rparr>))"

section \<open>Statistics in the topology\<close>

fun touch_expanders :: "heap \<Rightarrow> nat list \<Rightarrow> u64 \<Rightarrow> u64 \<Rightarrow> u64 \<Rightarrow> heap" where
  "touch_expanders h [] ts tid addr = h"
| "touch_expanders h (p # ps) ts tid addr =
     touch_expanders (h(p := snd (endpoint_insert (h p) ts tid addr addr (endpoint_id (h p))))) ps ts tid addr"

fun touch_switches :: "heap \<Rightarrow> CXLSwitch list \<Rightarrow> u64 \<Rightarrow> u64 \<Rightarrow> u64 \<Rightarrow> CXLSwitch list \<times> heap" where
  "touch_switches h [] ts tid addr = ([], h)"
| "touch_switches h (s # ss) ts tid addr =
     (let (_, s1, h1) = switch_insert h s ts tid addr addr 0;
          (ss1, h2) = touch_switches h1 ss ts tid addr
      in (s1 # ss1, h2))"

definition propagate_access :: "CXLController \<Rightarrow> u64 \<Rightarrow> int \<Rightarrow> u64 \<Rightarrow> CXLController" where
  "propagate_access c ts thread_id addr =
     (let c1 = count_access Local c;
          (ss, h1) = touch_switches (ct_heap c1) (cs_switches (ct_switch c1)) ts (word_of_int thread_id) addr;
          h2 = touch_expanders h1 (cs_expanders (ct_switch c1)) ts (word_of_int thread_id) addr
      in c1\<lparr>ct_heap := h2, ct_switch := set_switches ss (ct_switch c1)\<rparr>)"

section \<open>Reads and writes\<close>

text \<open>\<open>memcpy\<close> into the data field of a response, which is 64 bytes long.\<close>

definition put_data :: "ServerResponse \<Rightarrow> u8 list \<Rightarrow> ServerResponse" where
  "put_data resp bs = resp\<lparr>rp_data := bs @ drop (length bs) (rp_data resp)\<rparr>"

definition fail_request :: "Server \<Rightarrow> ServerResponse \<Rightarrow> ServerResponse \<times> Server" where
  "fail_request srv resp =
     (resp\<lparr>rp_status := 1\<rparr>, srv\<lparr>sv_active_requests := sv_active_requests srv - 1\<rparr>)"

definition store_info :: "Server \<Rightarrow> u64 \<Rightarrow> CachelineMetadata \<Rightarrow> Server" where
  "store_info srv cacheline_addr info =
     srv\<lparr>sv_shm_manager := set_cacheline_metadata (sv_shm_manager srv) cacheline_addr info\<rparr>"

text \<open>The lookup of the line's metadata, which is created on first use.\<close>

definition load_info :: "Server \<Rightarrow> u64 \<Rightarrow> CachelineMetadata \<times> Server" where
  "load_info srv cacheline_addr =
     (case get_cacheline_metadata (sv_shm_manager srv) cacheline_addr of
        (info, m) \<Rightarrow> (info, srv\<lparr>sv_shm_manager := m\<rparr>))"

definition held_by_other :: "CachelineMetadata \<Rightarrow> int \<Rightarrow> bool" where
  "held_by_other info thread_id \<longleftrightarrow>
     (cm_state info = CS_EXCLUSIVE \<or> cm_state info = CS_MODIFIED) \<and> cm_owner info \<noteq> thread_id"

definition serve_read ::
  "Server \<Rightarrow> request_env \<Rightarrow> int \<Rightarrow> ServerRequest \<Rightarrow> ServerResponse \<Rightarrow> real \<Rightarrow> (ServerResponse \<times> Server) option" where
  "serve_read srv env thread_id req resp base_latency =
     (let cacheline_addr = cl_align (rq_addr req);
          (info0, srv0) = load_info srv cacheline_addr
      in do {
        (had, info1, srv1) \<leftarrow> check_and_apply_back_invalidations (ev_msync env) srv0 cacheline_addr info0;
        let miss = held_by_other info1 thread_id \<and> cm_owner info1 \<noteq> - 1;
        let (info2, srv2) = handle_read_coherency srv1 thread_id info1;
        result \<leftarrow> read_cacheline (sv_shm_manager srv2) (rq_addr req) (unat (rq_size req));
        Some (case result of
            None \<Rightarrow> fail_request (store_info srv2 cacheline_addr info2) resp
          | Some bs \<Rightarrow>
              let srv3 = srv2\<lparr>sv_total_reads := sv_total_reads srv2 + 1,
                     sv_controller := propagate_access (sv_controller srv2) (rq_timestamp req) thread_id (rq_addr req)\<rparr>;
                  srv4 = store_info srv3 cacheline_addr (info2\<lparr>cm_last_access_time := rq_timestamp req\<rparr>);
                  (latency, srv5) = finish_request_latency srv4 (ev_later env) base_latency (miss \<or> had) (rq_size req) 0
              in ((put_data resp bs)\<lparr>rp_status := 0, rp_latency_ns := latency\<rparr>, srv5))
      })"

definition threads_to_invalidate :: "CachelineMetadata \<Rightarrow> int \<Rightarrow> int set" where
  "threads_to_invalidate info thread_id =
     (if cm_state info = CS_SHARED then cm_sharers info
      else if held_by_other info thread_id then {cm_owner info} else {})"

definition serve_write ::
  "Server \<Rightarrow> request_env \<Rightarrow> int \<Rightarrow> ServerRequest \<Rightarrow> ServerResponse \<Rightarrow> real \<Rightarrow> (ServerResponse \<times> Server) option" where
  "serve_write srv env thread_id req resp base_latency =
     (let cacheline_addr = cl_align (rq_addr req);
          (info0, srv0) = load_info srv cacheline_addr;
          miss = ((cm_state info0 = CS_SHARED \<and> cm_sharers info0 \<noteq> {}) \<or> held_by_other info0 thread_id);
          invalidated = threads_to_invalidate info0 thread_id;
          (info1, srv1) = handle_write_coherency srv0 (ev_now env) thread_id info0
      in do {
        (ok, m) \<leftarrow> write_cacheline (sv_shm_manager srv1) (rq_addr req)
                    (take (unat (rq_size req)) (rq_data req)) (ev_msync env 0);
        let srv2 = srv1\<lparr>sv_shm_manager := m\<rparr>;
        if \<not> ok then Some (fail_request (store_info srv2 cacheline_addr info1) resp)
        else do {
          written_back \<leftarrow> read_cacheline m (rq_addr req) (unat (rq_size req));
          let dirty_data = (case written_back of
                Some bs \<Rightarrow> bs | None \<Rightarrow> replicate (unat (rq_size req)) 0);
          let srv3 = fold (\<lambda>_. register_back_invalidation cacheline_addr thread_id dirty_data (rq_timestamp req))
                 (filter (\<lambda>t. t \<noteq> thread_id) (sorted_list_of_set invalidated)) srv2;
          let srv4 = srv3\<lparr>sv_total_writes := sv_total_writes srv3 + 1,
                 sv_controller := propagate_access (sv_controller srv3) (rq_timestamp req) thread_id (rq_addr req)\<rparr>;
          let srv5 = store_info srv4 cacheline_addr (info1\<lparr>cm_last_access_time := rq_timestamp req\<rparr>);
          let (latency, srv6) = finish_request_latency srv5 (ev_later env) base_latency miss (rq_size req) 0;
          Some (resp\<lparr>rp_status := 0, rp_latency_ns := latency\<rparr>, srv6)
        }
      })"

section \<open>Atomic operations\<close>

text \<open>
  The operand is addressed as \<open>data_area + cacheline_addr + offset\<close>, so the address itself is the
  offset in the data area.
\<close>

definition take_ownership :: "CachelineMetadata \<Rightarrow> int \<Rightarrow> CachelineMetadata" where
  "take_ownership info thread_id =
     info\<lparr>cm_state := CS_MODIFIED, cm_owner := thread_id, cm_sharers := {}, cm_version := cm_version info + 1\<rparr>"

definition atomic_update ::
  "Server \<Rightarrow> int \<Rightarrow> ServerRequest \<Rightarrow> u64 \<Rightarrow> CachelineMetadata \<Rightarrow> (u64 \<times> Server) option" where
  "atomic_update srv thread_id req cacheline_addr info =
     (let m = sv_shm_manager srv; off = unat (rq_addr req);
          old = load64 (sm_data_area m) off;
          info1 = info\<lparr>cm_last_access_time := rq_timestamp req\<rparr>
      in if rq_op_type req = OP_FENCE then Some (0, srv\<lparr>sv_total_fences := sv_total_fences srv + 1\<rparr>)
         else if \<not> in_data_area m off 8 then None
         else if rq_op_type req = OP_ATOMIC_FAA
         then Some (old, store_info
                (srv\<lparr>sv_shm_manager := m\<lparr>sm_data_area := store64 (sm_data_area m) off (old + rq_value req)\<rparr>,
                     sv_total_atomic_faa := sv_total_atomic_faa srv + 1\<rparr>)
                cacheline_addr (take_ownership info1 thread_id))
         else if old = rq_expected req
         then Some (old, store_info
                (srv\<lparr>sv_shm_manager := m\<lparr>sm_data_area := store64 (sm_data_area m) off (rq_value req)\<rparr>,
                     sv_total_atomic_cas := sv_total_atomic_cas srv + 1,
                     sv_total_atomic_cas_success := sv_total_atomic_cas_success srv + 1\<rparr>)
                cacheline_addr (take_ownership info1 thread_id))
         else Some (old, store_info (srv\<lparr>sv_total_atomic_cas := sv_total_atomic_cas srv + 1\<rparr>) cacheline_addr info1))"

definition server_atomic_request ::
  "Server \<Rightarrow> request_env \<Rightarrow> int \<Rightarrow> ServerRequest \<Rightarrow> ServerResponse \<Rightarrow> (ServerResponse \<times> Server) option" where
  "server_atomic_request srv env thread_id req resp = do {
     let cacheline_addr = cl_align (rq_addr req);
     let srv0 = srv\<lparr>sv_active_requests := sv_active_requests srv + 1\<rparr>;
     (base_latency, c) \<leftarrow> controller_calculate_latency (sv_controller srv0) [(rq_addr req, 8)]
                            (ct_dramlatency (sv_controller srv0));
     let (info, srv1) = load_info (srv0\<lparr>sv_controller := c\<rparr>) cacheline_addr;
     if sm_header (sv_shm_manager srv1) = None then Some (fail_request srv1 (resp\<lparr>rp_old_value := 0\<rparr>))
     else do {
       (old_value, srv2) \<leftarrow> atomic_update srv1 thread_id req cacheline_addr info;
       let (latency, srv3) = finish_request_latency srv2 (ev_later env) base_latency True 8
              (if rq_op_type req \<noteq> OP_FENCE then 20 else 0);
       Some (resp\<lparr>rp_old_value := old_value, rp_status := 0, rp_latency_ns := latency\<rparr>, srv3)
     }
   }"

section \<open>The label storage area\<close>

definition clamp64 :: "u64 \<Rightarrow> nat" where
  "clamp64 sz = min (unat sz) 64"

definition lsa_read :: "Server \<Rightarrow> ServerRequest \<Rightarrow> ServerResponse \<Rightarrow> (ServerResponse \<times> Server) option" where
  "lsa_read srv req resp =
     (let n = clamp64 (rq_size req); off = unat (rq_addr req)
      in if rq_addr req + of_nat n \<le> sv_lsa_size srv
         then if off + n \<le> length (sv_lsa_data srv)
              then Some ((put_data resp (take n (drop off (sv_lsa_data srv))))\<lparr>rp_status := 0\<rparr>, srv)
              else None
         else Some (resp\<lparr>rp_status := 1\<rparr>, srv))"

text \<open>
  \<open>vector::resize\<close> and \<open>memcpy\<close> into a vector.  Growing throws when the new size is beyond \<open>max_size\<close>,
  \<open>2^63 - 1\<close> bytes, or when there is no memory for it (\<^const>\<open>ev_grows\<close> says for which sizes there is).  No
  thread of the server catches the exception, so that it ends the process: the result is \<^const>\<open>None\<close>.
\<close>

definition resize :: "u8 list \<Rightarrow> nat \<Rightarrow> u8 list" where
  "resize xs n = take n xs @ replicate (n - length xs) 0"

definition overwrite :: "u8 list \<Rightarrow> nat \<Rightarrow> u8 list \<Rightarrow> u8 list" where
  "overwrite xs off bs = take off xs @ bs @ drop (off + length bs) xs"

definition lsa_write ::
  "Server \<Rightarrow> request_env \<Rightarrow> ServerRequest \<Rightarrow> ServerResponse \<Rightarrow> (ServerResponse \<times> Server) option" where
  "lsa_write srv env req resp =
     (let n = clamp64 (rq_size req); off = unat (rq_addr req); new_size = rq_addr req + of_nat n;
          srv1 = (if new_size > sv_lsa_size srv
                  then srv\<lparr>sv_lsa_data := resize (sv_lsa_data srv) (unat new_size), sv_lsa_size := new_size\<rparr>
                  else srv)
      in if new_size > sv_lsa_size srv \<and> \<not> (unat new_size < 2 ^ 63 \<and> ev_grows env (unat new_size)) then None
         else if off + n \<le> length (sv_lsa_data srv1)
         then Some (resp\<lparr>rp_status := 0\<rparr>,
                    srv1\<lparr>sv_lsa_data := overwrite (sv_lsa_data srv1) off (take n (rq_data req))\<rparr>)
         else None)"

section \<open>Requests\<close>

definition handle_request ::
  "Server \<Rightarrow> request_env \<Rightarrow> int \<Rightarrow> ServerRequest \<Rightarrow> ServerResponse \<Rightarrow> (ServerResponse \<times> Server) option" where
  "handle_request srv env thread_id req resp =
     (if rq_op_type req = OP_ATOMIC_FAA \<or> rq_op_type req = OP_ATOMIC_CAS \<or> rq_op_type req = OP_FENCE
      then server_atomic_request srv env thread_id req resp
      else if rq_op_type req = OP_LSA_READ then lsa_read srv req resp
      else if rq_op_type req = OP_LSA_WRITE then lsa_write srv env req resp
      else
        let req1 = (if rq_size req = 0 \<or> rq_size req > 64 then req\<lparr>rq_size := 64\<rparr> else req)
        in if \<not> is_valid_address (sv_shm_manager srv) (rq_addr req1)
           then Some (resp\<lparr>rp_status := 1\<rparr>, srv)
           else do {
             let srv0 = srv\<lparr>sv_active_requests := sv_active_requests srv + 1\<rparr>;
             (base_latency, c) \<leftarrow> controller_calculate_latency (sv_controller srv0)
                [(rq_addr req1, rq_size req1)] (ct_dramlatency (sv_controller srv0));
             let srv1 = srv0\<lparr>sv_controller := c\<rparr>;
             (if rq_op_type req1 = OP_READ then serve_read srv1 env thread_id req1 resp base_latency
              else serve_write srv1 env thread_id req1 resp base_latency)
           })"

text \<open>A response is zeroed before the request is handled.\<close>

definition blank_server_response :: ServerResponse where
  "blank_server_response = \<lparr>rp_status = 0, rp_latency_ns = 0, rp_old_value = 0, rp_data = replicate 64 0\<rparr>"

text \<open>One message of a TCP client: \<open>Disconnect\<close> ends the loop of \<open>handle_client\<close>.\<close>

datatype client_reply = Disconnect | Memory_info SharedMemoryInfo | Reply ServerResponse

definition handle_client_message ::
  "Server \<Rightarrow> request_env \<Rightarrow> int \<Rightarrow> ServerRequest \<Rightarrow> (client_reply \<times> Server) option" where
  "handle_client_message srv env thread_id req =
     (if rq_op_type req > OP_LSA_WRITE then Some (Disconnect, srv)
      else if rq_op_type req = OP_GET_SHM_INFO
      then Some (Memory_info (get_shm_info (sv_shm_manager srv)), srv)
      else map_option (map_prod Reply id)
             (handle_request srv env thread_id
                (if rq_size req > 64 then req\<lparr>rq_size := 64\<rparr> else req) blank_server_response))"

text \<open>
  One request of a client of the shared-memory channel, and one turn of the loop of a worker.  The
  server runs four workers on the same channel; \<open>meanwhile\<close> is what the clients and the other workers do
  to the channel between the moment this one has taken the request and the moment it responds.
\<close>

definition server_request_of :: "ShmRequest \<Rightarrow> ServerRequest" where
  "server_request_of q =
     \<lparr>rq_op_type = sq_op_type q, rq_addr = sq_addr q, rq_size = sq_size q, rq_timestamp = sq_timestamp q,
      rq_value = sq_value q, rq_expected = sq_expected q, rq_data = sq_data q\<rparr>"

definition shm_response_of :: "ServerResponse \<Rightarrow> ShmResponse" where
  "shm_response_of r =
     \<lparr>sp_status = rp_status r, sp_latency_ns = rp_latency_ns r, sp_old_value = rp_old_value r, sp_data = rp_data r\<rparr>"

definition info_response :: "SharedMemoryInfo \<Rightarrow> ShmResponse" where
  "info_response info =
     \<lparr>sp_status = 0, sp_latency_ns = 0, sp_old_value = 0,
      sp_data = bytes_of_u64 (si_base_addr info) @ bytes_of_u64 (si_size info)
                @ bytes_of_u64 (si_num_cachelines info) @ replicate 40 0\<rparr>"

definition answer_shm_request ::
  "Server \<Rightarrow> request_env \<Rightarrow> u32 \<Rightarrow> ShmRequest \<Rightarrow> (ShmResponse \<times> Server) option" where
  "answer_shm_request srv env client_id q =
     (if sq_op_type q = OP_GET_SHM_INFO
      then Some (info_response (get_shm_info (sv_shm_manager srv)), srv)
      else map_option (map_prod shm_response_of id)
             (handle_request srv env (sint client_id) (server_request_of q) blank_server_response))"

definition handle_shm_request ::
  "Server \<Rightarrow> request_env \<Rightarrow> ShmCommunication \<Rightarrow> ShmCommunication option \<Rightarrow> (ShmCommunication \<Rightarrow> ShmCommunication)
     \<Rightarrow> (Server \<times> ShmCommunication) option" where
  "handle_shm_request srv env comm signalled meanwhile =
     (case wait_for_request comm 100 signalled of
        (None, comm1) \<Rightarrow> Some (srv, comm1)
      | (Some (client_id, q), comm1) \<Rightarrow>
          map_option (\<lambda>(p, srv1). (srv1, snd (send_response (meanwhile comm1) client_id p)))
            (answer_shm_request srv env client_id q))"

end
