(* ===== verification/Server_Laws.thy ===== *)
theory Server_Laws
  imports Mem_Server
begin

section \<open>The controller of a single node\<close>

text \<open>
  Outside distributed mode all expanders are local, and the controller's latency is always defined.
\<close>

fun is_local :: "endpoint \<Rightarrow> bool" where
  "is_local (Local_expander _) = True"
| "is_local (Remote_expander _) = False"

definition local_heap :: "heap \<Rightarrow> bool" where
  "local_heap h \<longleftrightarrow> (\<forall>p. is_local (h p))"

lemma local_heap_upd: "local_heap h \<Longrightarrow> is_local x \<Longrightarrow> local_heap (h(p := x))"
  by (simp add: local_heap_def)

lemma is_local_insert: "is_local x \<Longrightarrow> is_local (snd (endpoint_insert x ts tid phys virt index))"
  by (cases x) (auto simp: map_prod_def split: prod.splits)

lemma local_latency:
  assumes "is_local x"
  shows "\<exists>l y. endpoint_calculate_latency x env elems dram = Some (l, y, env) \<and> is_local y"
  using assms by (cases x) (auto simp: split: prod.splits)

lemma expanders_latency_local:
  assumes "local_heap (fb_heap fb)"
  shows "\<exists>l fb'. expanders_latency fb ps elems dram lat = Some (l, fb') \<and> local_heap (fb_heap fb')"
  using assms
proof (induction ps arbitrary: fb lat)
  case (Cons p ps)
  have "is_local (fb_heap fb p)" using Cons.prems by (simp add: local_heap_def)
  from local_latency [OF this] obtain l y where
    y: "endpoint_calculate_latency (fb_heap fb p) (fb_env fb) elems dram = Some (l, y, fb_env fb)" "is_local y"
    by blast
  have "local_heap (fb_heap \<lparr>fb_heap = (fb_heap fb)(p := y), fb_env = fb_env fb\<rparr>)"
    unfolding fabric.simps by (rule local_heap_upd [OF Cons.prems y(2)])
  from Cons.IH [OF this, of "lat + l"] show ?case using y(1) by simp
qed simp

lemma switch_latency_local:
  "local_heap (fb_heap fb) \<Longrightarrow> \<exists>l fb'. switch_calculate_latency fb s elems dram = Some (l, fb') \<and> local_heap (fb_heap fb')"
  and switches_latency_local:
  "local_heap (fb_heap fb) \<Longrightarrow> \<exists>l fb'. switches_latency fb ss elems dram lat = Some (l, fb') \<and> local_heap (fb_heap fb')"
proof (induction fb s elems dram and fb ss elems dram lat
    rule: switch_calculate_latency_switches_latency.induct)
  case (1 fb es ss c i ep ts cl elems dram)
  obtain l fb1 where e: "expanders_latency fb es elems dram 0 = Some (l, fb1)" "local_heap (fb_heap fb1)"
    using expanders_latency_local [OF 1(2), of es elems dram 0] by blast
  then show ?case using 1(1) [OF e(1) refl e(2)] by simp
next
  case (3 fb s ss elems dram lat)
  obtain l fb1 where e: "switch_calculate_latency fb s elems dram = Some (l, fb1)" "local_heap (fb_heap fb1)"
    using 3(1) [OF 3(3)] by blast
  then show ?case using 3(2) [OF e(1) refl e(2)] by simp
qed simp

lemma controller_latency_local:
  assumes "local_heap (ct_heap c)"
  shows "\<exists>l c'. controller_calculate_latency c elems dram = Some (l, c') \<and> local_heap (ct_heap c')"
proof -
  obtain l fb where "switch_calculate_latency (controller_fabric c) (ct_switch c) elems dram = Some (l, fb)"
      "local_heap (fb_heap fb)"
    using switch_latency_local [of "controller_fabric c" "ct_switch c" elems dram] assms
    by (auto simp: controller_fabric_def)
  then show ?thesis
    by (simp add: controller_calculate_latency_def set_fabric_def)
qed

lemma touch_expanders_local: "local_heap h \<Longrightarrow> local_heap (touch_expanders h ps ts tid addr)"
  by (induction ps arbitrary: h) (simp_all add: local_heap_upd is_local_insert local_heap_def)

lemma expanders_insert_local: "local_heap h \<Longrightarrow> local_heap (snd (expanders_insert h ps ts tid phys virt index))"
proof (induction ps arbitrary: h)
  case (Cons p ps)
  obtain ret x where e: "endpoint_insert (h p) ts tid phys virt index = (ret, x)"
    by (cases "endpoint_insert (h p) ts tid phys virt index")
  have "is_local (h p)" using Cons.prems by (simp add: local_heap_def)
  from is_local_insert [OF this] have "is_local x" using e by (metis snd_conv)
  from local_heap_upd [OF Cons.prems this] have h: "local_heap (h(p := x))" .
  show ?case using h Cons.IH [OF h] e by (simp del: fun_upd_apply)
qed simp

lemma switch_insert_local:
  "local_heap h \<Longrightarrow> local_heap (snd (snd (switch_insert h s ts tid phys virt index)))"
  and switches_insert_local:
  "local_heap h \<Longrightarrow> local_heap (snd (snd (switches_insert h ss ts tid phys virt index)))"
proof (induction h s ts tid phys virt index and h ss ts tid phys virt index
    rule: switch_insert_switches_insert.induct)
  case (1 h es ss c i ep t cl ts tid phys virt index)
  obtain ret h1 where e: "expanders_insert h es ts tid phys virt index = (ret, h1)" "local_heap h1"
    using expanders_insert_local [OF 1(2), of es ts tid phys virt index]
    by (cases "expanders_insert h es ts tid phys virt index") simp
  show ?case
  proof (cases "ret = 1 \<or> ret = 2")
    case False
    then show ?thesis using e(1) 1(1) [OF e(1) [symmetric] False e(2)] by (auto split: prod.splits)
  qed (use e in auto)
next
  case (3 h s ss ts tid phys virt index)
  obtain ret s1 h1 where e: "switch_insert h s ts tid phys virt index = (ret, s1, h1)" "local_heap h1"
    using 3(1) [OF 3(3)] by (cases "switch_insert h s ts tid phys virt index") simp
  show ?case
  proof (cases "ret = 1 \<or> ret = 2")
    case False
    then show ?thesis using e(1) 3(2) [OF e(1) [symmetric] refl False e(2)] by (auto split: prod.splits)
  qed (use e in auto)
qed simp

lemma touch_switches_local: "local_heap h \<Longrightarrow> local_heap (snd (touch_switches h ss ts tid addr))"
proof (induction ss arbitrary: h)
  case (Cons s ss)
  show ?case
    using Cons.IH [OF switch_insert_local [OF Cons.prems, of s ts tid addr addr 0]]
    by (auto simp: Let_def split: prod.splits)
qed simp

lemma propagate_access_local: "local_heap (ct_heap c) \<Longrightarrow> local_heap (ct_heap (propagate_access c ts t addr))"
  using touch_switches_local [of "ct_heap c" "cs_switches (ct_switch c)" ts "word_of_int t" addr]
  by (auto simp: propagate_access_def count_access_def Let_def touch_expanders_local split: prod.splits)


section \<open>The state of a server\<close>

text \<open>
  What a request may change, apart from counters and the controller: the coherency entries, the
  contents of the memory and the queued back invalidations.  The geometry of the memory never
  changes.
\<close>

definition line_of :: "Server \<Rightarrow> u64 \<Rightarrow> CachelineMetadata" where
  "line_of srv = metadata_at (sv_shm_manager srv)"

definition contents_of :: "Server \<Rightarrow> memory" where
  "contents_of srv = sm_data_area (sv_shm_manager srv)"

definition geometry :: "Server \<Rightarrow> SharedMemoryHeader option \<times> u64" where
  "geometry srv = (sm_header (sv_shm_manager srv), sm_shm_size (sv_shm_manager srv))"

definition base_ok :: "Server \<Rightarrow> bool" where
  "base_ok srv \<longleftrightarrow> manager_ok (sv_shm_manager srv) \<and> metadata_sorted (sv_shm_manager srv)
     \<and> sorted_wrt (<) (map fst (sv_back_invalidation_queue srv)) \<and> local_heap (ct_heap (sv_controller srv))"

text \<open>\<open>became srv srv' l c q\<close>: the three parts after a step.\<close>

definition became ::
  "Server \<Rightarrow> Server \<Rightarrow> (u64 \<Rightarrow> CachelineMetadata) \<Rightarrow> memory \<Rightarrow> (u64 \<Rightarrow> BackInvalidationEntry list) \<Rightarrow> bool" where
  "became srv srv' l c q \<longleftrightarrow> (base_ok srv \<longrightarrow> base_ok srv') \<and> geometry srv' = geometry srv
     \<and> line_of srv' = l \<and> contents_of srv' = c \<and> pending_entries srv' = q"

lemma manager_cong:
  assumes "sm_header m' = sm_header m" "sm_shm_size m' = sm_shm_size m"
  shows "manager_ok m' = manager_ok m" "byte_offset m' = byte_offset m" "accessible m' = accessible m"
    "is_valid_address m' = is_valid_address m" "in_data_area m' = in_data_area m"
  using assms
  by (simp_all add: manager_ok_def byte_offset_def accessible_def is_valid_address_def in_data_area_def
      cacheline_to_index_def fun_eq_iff split: option.splits)

lemma geometry_cong:
  assumes "geometry srv' = geometry srv"
  shows "byte_offset (sv_shm_manager srv') = byte_offset (sv_shm_manager srv)"
    "accessible (sv_shm_manager srv') = accessible (sv_shm_manager srv)"
    "is_valid_address (sv_shm_manager srv') = is_valid_address (sv_shm_manager srv)"
    "in_data_area (sv_shm_manager srv') = in_data_area (sv_shm_manager srv)"
  using assms manager_cong [of "sv_shm_manager srv'" "sv_shm_manager srv"] by (simp_all add: geometry_def)

lemma became_refl: "became srv srv (line_of srv) (contents_of srv) (pending_entries srv)"
  by (simp add: became_def)

lemma became_trans:
  "became srv srv1 l1 c1 q1 \<Longrightarrow> became srv1 srv2 l2 c2 q2 \<Longrightarrow> became srv srv2 l2 c2 q2"
  by (simp add: became_def)

text \<open>Fields that are not part of these.\<close>

lemma became_manager:
  assumes "sm_header m = sm_header (sv_shm_manager srv)" "sm_shm_size m = sm_shm_size (sv_shm_manager srv)"
    "metadata_sorted (sv_shm_manager srv) \<longrightarrow> metadata_sorted m"
  shows "became srv (srv\<lparr>sv_shm_manager := m\<rparr>) (metadata_at m) (sm_data_area m) (pending_entries srv)"
  using assms manager_cong [OF assms(1,2)]
  by (simp add: became_def base_ok_def geometry_def line_of_def contents_of_def pending_entries_def fun_eq_iff)

lemma became_counters:
  "became srv (srv\<lparr>sv_active_requests := n\<rparr>) (line_of srv) (contents_of srv) (pending_entries srv)"
  "became srv (srv\<lparr>sv_total_bandwidth_used := u\<rparr>) (line_of srv) (contents_of srv) (pending_entries srv)"
  "became srv (srv\<lparr>sv_last_reset := n\<rparr>) (line_of srv) (contents_of srv) (pending_entries srv)"
  "became srv (srv\<lparr>sv_total_reads := u\<rparr>) (line_of srv) (contents_of srv) (pending_entries srv)"
  "became srv (srv\<lparr>sv_total_writes := u\<rparr>) (line_of srv) (contents_of srv) (pending_entries srv)"
  "became srv (srv\<lparr>sv_total_atomic_faa := u\<rparr>) (line_of srv) (contents_of srv) (pending_entries srv)"
  "became srv (srv\<lparr>sv_total_atomic_cas := u\<rparr>) (line_of srv) (contents_of srv) (pending_entries srv)"
  "became srv (srv\<lparr>sv_total_atomic_cas_success := u\<rparr>) (line_of srv) (contents_of srv) (pending_entries srv)"
  "became srv (srv\<lparr>sv_total_fences := u\<rparr>) (line_of srv) (contents_of srv) (pending_entries srv)"
  "became srv (srv\<lparr>sv_coherency_invalidations := u\<rparr>) (line_of srv) (contents_of srv) (pending_entries srv)"
  "became srv (srv\<lparr>sv_coherency_downgrades := u\<rparr>) (line_of srv) (contents_of srv) (pending_entries srv)"
  "became srv (srv\<lparr>sv_back_invalidations := u\<rparr>) (line_of srv) (contents_of srv) (pending_entries srv)"
  "local_heap (ct_heap (sv_controller srv)) \<longrightarrow> local_heap (ct_heap c) \<Longrightarrow>
     became srv (srv\<lparr>sv_controller := c\<rparr>) (line_of srv) (contents_of srv) (pending_entries srv)"
  by (simp_all add: became_def base_ok_def geometry_def line_of_def contents_of_def pending_entries_def fun_eq_iff)


section \<open>Effect of the parts of a request\<close>

lemma load_info_became:
  assumes "load_info srv a = (info, srv')" "base_ok srv"
  shows "info = line_of srv a" "became srv srv' (line_of srv) (contents_of srv) (pending_entries srv)"
proof -
  obtain m where m: "get_cacheline_metadata (sv_shm_manager srv) a = (info, m)" "srv' = srv\<lparr>sv_shm_manager := m\<rparr>"
    using assms(1) by (auto simp: load_info_def split: prod.splits)
  have s: "metadata_sorted (sv_shm_manager srv)" using assms(2) by (simp add: base_ok_def)
  note g = get_metadata [OF m(1) s]
  show "info = line_of srv a" using g(1) by (simp add: line_of_def)
  show "became srv srv' (line_of srv) (contents_of srv) (pending_entries srv)"
    using became_manager [of m srv] g by (simp add: m(2) line_of_def contents_of_def)
qed

lemma store_info_became:
  assumes "base_ok srv"
  shows "became srv (store_info srv a info) ((line_of srv)(a := info)) (contents_of srv) (pending_entries srv)"
proof -
  have s: "metadata_sorted (sv_shm_manager srv)" using assms by (simp add: base_ok_def)
  show ?thesis
    using became_manager [of "set_cacheline_metadata (sv_shm_manager srv) a info" srv] set_metadata [OF s, of a info]
    by (simp add: store_info_def line_of_def contents_of_def)
qed

lemma memory_became:
  "became srv (srv\<lparr>sv_shm_manager := (sv_shm_manager srv)\<lparr>sm_data_area := d\<rparr>\<rparr>)
     (line_of srv) d (pending_entries srv)"
proof -
  have "metadata_at ((sv_shm_manager srv)\<lparr>sm_data_area := d\<rparr>) = line_of srv"
    by (simp add: metadata_at_def line_of_def fun_eq_iff)
  moreover have "metadata_sorted ((sv_shm_manager srv)\<lparr>sm_data_area := d\<rparr>) = metadata_sorted (sv_shm_manager srv)"
    by (simp add: metadata_sorted_def)
  ultimately show ?thesis
    using became_manager [of "(sv_shm_manager srv)\<lparr>sm_data_area := d\<rparr>" srv] by simp
qed

lemma became_counted:
  assumes "became srv srv' l c q"
  shows "became srv (srv'\<lparr>sv_active_requests := n\<rparr>) l c q" "became srv (srv'\<lparr>sv_total_bandwidth_used := u\<rparr>) l c q"
    "became srv (srv'\<lparr>sv_last_reset := n\<rparr>) l c q" "became srv (srv'\<lparr>sv_total_reads := u\<rparr>) l c q"
    "became srv (srv'\<lparr>sv_total_writes := u\<rparr>) l c q" "became srv (srv'\<lparr>sv_total_atomic_faa := u\<rparr>) l c q"
    "became srv (srv'\<lparr>sv_total_atomic_cas := u\<rparr>) l c q"
    "became srv (srv'\<lparr>sv_total_atomic_cas_success := u\<rparr>) l c q" "became srv (srv'\<lparr>sv_total_fences := u\<rparr>) l c q"
    "became srv (srv'\<lparr>sv_coherency_invalidations := u\<rparr>) l c q"
    "became srv (srv'\<lparr>sv_coherency_downgrades := u\<rparr>) l c q" "became srv (srv'\<lparr>sv_back_invalidations := u\<rparr>) l c q"
    "local_heap (ct_heap (sv_controller srv')) \<longrightarrow> local_heap (ct_heap ctrl) \<Longrightarrow>
       became srv (srv'\<lparr>sv_controller := ctrl\<rparr>) l c q"
  using assms became_counters [of srv'] by (auto simp: became_def)

lemma finish_became:
  assumes "finish_request_latency srv now lat miss sz extra = (l, srv')"
  shows "became srv srv' (line_of srv) (contents_of srv) (pending_entries srv)"
    "sv_active_requests srv' = sv_active_requests srv - 1"
  using assms became_refl [of srv]
  by (auto simp: finish_request_latency_def calculate_congestion_factor_def update_congestion_stats_def Let_def
      intro!: became_counted split: if_splits)

lemma read_coherency_became:
  assumes "handle_read_coherency srv t info = (info', srv')"
  shows "became srv srv' (line_of srv) (contents_of srv) (pending_entries srv)"
    "sv_active_requests srv' = sv_active_requests srv"
    "cm_last_access_time info' = cm_last_access_time info"
  using assms became_refl [of srv]
  by (cases "cm_state info";
      auto simp: handle_read_coherency_def server_downgrade_owner_def intro!: became_counted split: if_splits)+

lemma write_coherency_became:
  assumes "handle_write_coherency srv now t info = (info', srv')"
  shows "became srv srv' (line_of srv) (contents_of srv) (pending_entries srv)"
    "sv_active_requests srv' = sv_active_requests srv"
    "cm_last_access_time info' = cm_last_access_time info"
  using assms became_refl [of srv]
  by (cases "cm_state info";
      auto simp: handle_write_coherency_def server_invalidate_sharers_def Let_def intro!: became_counted
      split: if_splits)+

text \<open>Coherency entries a server can produce: a shared line has sharers and no owner, a modified one has an owner and no sharer.\<close>

definition line_ok :: "CachelineMetadata \<Rightarrow> bool" where
  "line_ok info \<longleftrightarrow>
     (case cm_state info of
        CS_INVALID \<Rightarrow> cm_sharers info = {} \<and> cm_owner info = - 1
      | CS_SHARED \<Rightarrow> cm_sharers info \<noteq> {} \<and> finite (cm_sharers info) \<and> (\<forall>t \<in> cm_sharers info. 0 \<le> t) \<and> cm_owner info = - 1
      | CS_EXCLUSIVE \<Rightarrow> False
      | CS_MODIFIED \<Rightarrow> cm_sharers info = {} \<and> 0 \<le> cm_owner info)"

lemma line_ok_new [simp]: "line_ok new_CachelineMetadata"
  by (simp add: line_ok_def new_CachelineMetadata_def)

text \<open>Who holds a line: nobody, some readers, or one writer.\<close>

datatype holding = Nobody | Readers "int set" | Writer int

definition holding_of :: "CachelineMetadata \<Rightarrow> holding" where
  "holding_of info =
     (case cm_state info of
        CS_INVALID \<Rightarrow> Nobody | CS_SHARED \<Rightarrow> Readers (cm_sharers info) | _ \<Rightarrow> Writer (cm_owner info))"

fun grant_read :: "int \<Rightarrow> holding \<Rightarrow> holding" where
  "grant_read t Nobody = Readers {t}"
| "grant_read t (Readers ts) = Readers (insert t ts)"
| "grant_read t (Writer w) = Readers {w, t}"

lemma holding_new [simp]: "holding_of new_CachelineMetadata = Nobody"
  by (simp add: holding_of_def new_CachelineMetadata_def)

lemma holding_access [simp]: "holding_of (info\<lparr>cm_last_access_time := ts\<rparr>) = holding_of info"
  by (cases "cm_state info") (simp_all add: holding_of_def)

lemma line_ok_read:
  "handle_read_coherency srv t info = (info', srv') \<Longrightarrow> line_ok info \<Longrightarrow> 0 \<le> t \<Longrightarrow>
     line_ok info' \<and> holding_of info' = grant_read t (holding_of info)"
  by (cases "cm_state info") (auto simp: handle_read_coherency_def line_ok_def holding_of_def)

lemma line_ok_write:
  "handle_write_coherency srv now t info = (info', srv') \<Longrightarrow> line_ok info \<Longrightarrow> 0 \<le> t \<Longrightarrow>
     line_ok info' \<and> holding_of info' = Writer t"
  by (cases "cm_state info") (auto simp: handle_write_coherency_def line_ok_def holding_of_def Let_def split: if_splits)

lemma line_ok_access [simp]: "line_ok (info\<lparr>cm_last_access_time := ts\<rparr>) = line_ok info"
  by (cases "cm_state info") (simp_all add: line_ok_def)

lemma line_ok_owner: "0 \<le> t \<Longrightarrow> line_ok (take_ownership info t)" "holding_of (take_ownership info t) = Writer t"
  by (simp_all add: line_ok_def holding_of_def take_ownership_def)


section \<open>Back invalidations\<close>

text \<open>What applying the queue of a line leaves alone in its entry.\<close>

definition same_holders :: "CachelineMetadata \<Rightarrow> CachelineMetadata \<Rightarrow> bool" where
  "same_holders info info' \<longleftrightarrow> cm_state info' = cm_state info \<and> cm_sharers info' = cm_sharers info
     \<and> cm_owner info' = cm_owner info \<and> cm_last_access_time info' = cm_last_access_time info"

lemma same_holders_ok:
  "same_holders info info' \<Longrightarrow> line_ok info' = line_ok info \<and> holding_of info' = holding_of info"
  by (simp add: same_holders_def line_ok_def holding_of_def split: CoherencyState.splits)

lemma apply_entries_became:
  assumes "base_ok srv"
  shows "\<exists>had' info' srv' c. apply_entries msync k a es had info srv = Some (had', info', srv')
    \<and> became srv srv' (line_of srv) c (pending_entries srv) \<and> same_holders info info'
    \<and> sv_active_requests srv' = sv_active_requests srv"
  using assms
proof (induction es arbitrary: k had info srv)
  case Nil
  then show ?case using became_refl [of srv] by (auto simp: same_holders_def)
next
  case (Cons e es)
  show ?case
  proof (cases "bi_timestamp e > cm_last_access_time info")
    case False
    then show ?thesis using Cons.IH [OF Cons.prems] by simp
  next
    case True
    have mok: "manager_ok (sv_shm_manager srv)" using Cons.prems by (simp add: base_ok_def)
    obtain ok m where w: "write_cacheline (sv_shm_manager srv) a (bi_dirty_data e) (msync k) = Some (ok, m)"
        and m: "\<exists>d. m = (sv_shm_manager srv)\<lparr>sm_data_area := d\<rparr>"
    proof (cases "accessible (sv_shm_manager srv) a (length (bi_dirty_data e))")
      case True
      then show ?thesis
        using that [of "msync k" "(sv_shm_manager srv)\<lparr>sm_data_area := written (sv_shm_manager srv) a (bi_dirty_data e)\<rparr>"]
          write_cacheline_eq [OF mok, of a "bi_dirty_data e" "msync k"] by auto
    next
      case False
      then show ?thesis
        using that [OF _ exI [of _ "sm_data_area (sv_shm_manager srv)"], of False "sv_shm_manager srv"]
          write_cacheline_eq [OF mok, of a "bi_dirty_data e" "msync k"] by simp
    qed
    let ?srv = "srv\<lparr>sv_shm_manager := m\<rparr>"
    obtain d where b: "became srv ?srv (line_of srv) d (pending_entries srv)" using m memory_became [of srv] by blast
    let ?srv1 = "if ok then ?srv\<lparr>sv_back_invalidations := sv_back_invalidations srv + 1\<rparr> else ?srv"
    let ?info1 = "if ok then info\<lparr>cm_has_dirty_update := False, cm_dirty_update_time := bi_timestamp e\<rparr> else info"
    have b1: "became srv ?srv1 (line_of srv) d (pending_entries srv)" using became_counted(12) [OF b] b by simp
    then have ok1: "base_ok ?srv1" using Cons.prems by (simp add: became_def)
    from Cons.IH [OF ok1, of "k + 1" "had \<or> ok" ?info1] obtain had' info' srv' c where
      r: "apply_entries msync (k + 1) a es (had \<or> ok) ?info1 ?srv1 = Some (had', info', srv')"
        "became ?srv1 srv' (line_of ?srv1) c (pending_entries ?srv1)" "same_holders ?info1 info'"
        "sv_active_requests srv' = sv_active_requests ?srv1" by blast
    have "became srv srv' (line_of srv) c (pending_entries srv)"
      using became_trans [OF b1 r(2)] b1 by (simp add: became_def)
    moreover have "same_holders info info'" using r(3) by (auto simp: same_holders_def split: if_splits)
    moreover have "apply_entries msync k a (e # es) had info srv = Some (had', info', srv')"
      using True w r(1) by (cases ok) simp_all
    moreover have "sv_active_requests srv' = sv_active_requests srv" using r(4) by (simp split: if_splits)
    ultimately show ?thesis by blast
  qed
qed

lemma apply_entries_stale:
  "(\<And>e. e \<in> set es \<Longrightarrow> bi_timestamp e \<le> cm_last_access_time info) \<Longrightarrow>
     apply_entries msync k a es had info srv = Some (had, info, srv)"
  by (induction es arbitrary: k) (simp_all add: leD)

lemma map_of_filter_other:
  "map_of (filter (\<lambda>(b, _). b \<noteq> a) xs) = (map_of xs)(a := None)"
  by (induction xs) (auto simp: fun_eq_iff)

lemma clear_pending:
  "became srv (srv\<lparr>sv_back_invalidation_queue := filter (\<lambda>(b, _). b \<noteq> a) (sv_back_invalidation_queue srv)\<rparr>)
     (line_of srv) (contents_of srv) ((pending_entries srv)(a := []))"
proof -
  have "sorted_wrt (<) (map fst (filter (\<lambda>(b, _). b \<noteq> a) q))" if "sorted_wrt (<) (map fst q)" for q :: "(u64 \<times> 'x) list"
    using that sorted_wrt_filter [of "(\<lambda>x y. fst x < fst y)" q] by (simp add: sorted_wrt_map)
  then show ?thesis
    by (auto simp: became_def base_ok_def geometry_def line_of_def contents_of_def pending_entries_def
        map_of_filter_other fun_eq_iff)
qed

lemma check_and_apply_became:
  assumes "base_ok srv"
  shows "\<exists>had info' srv' c. check_and_apply_back_invalidations msync srv a info = Some (had, info', srv')
    \<and> became srv srv' (line_of srv) c ((pending_entries srv)(a := [])) \<and> same_holders info info'
    \<and> sv_active_requests srv' = sv_active_requests srv
    \<and> ((\<forall>e \<in> set (pending_entries srv a). bi_timestamp e \<le> cm_last_access_time info) \<longrightarrow>
         c = contents_of srv \<and> info' = info)"
proof (cases "pending_entries srv a = []")
  case True
  then have "(pending_entries srv)(a := []) = pending_entries srv" by (simp add: fun_eq_iff)
  then show ?thesis
    using True became_refl [of srv]
    by (intro exI [of _ False] exI [of _ info] exI [of _ srv] exI [of _ "contents_of srv"])
      (simp add: check_and_apply_back_invalidations_def same_holders_def)
next
  case False
  from apply_entries_became [OF assms, of msync 0 a "pending_entries srv a" False info]
  obtain had info' srv' c where
    r: "apply_entries msync 0 a (pending_entries srv a) False info srv = Some (had, info', srv')"
      "became srv srv' (line_of srv) c (pending_entries srv)" "same_holders info info'"
      "sv_active_requests srv' = sv_active_requests srv" by blast
  let ?srv = "srv'\<lparr>sv_back_invalidation_queue := filter (\<lambda>(b, _). b \<noteq> a) (sv_back_invalidation_queue srv')\<rparr>"
  have "became srv ?srv (line_of srv) c ((pending_entries srv)(a := []))"
    using became_trans [OF r(2) clear_pending [of srv' a]] r(2) by (simp add: became_def)
  moreover have "c = contents_of srv \<and> info' = info"
    if "\<forall>e \<in> set (pending_entries srv a). bi_timestamp e \<le> cm_last_access_time info"
    using apply_entries_stale [of "pending_entries srv a" info msync 0 a False srv] that r(1,2)
    by (simp add: became_def)
  ultimately show ?thesis
    using False r by (intro exI [of _ had] exI [of _ info'] exI [of _ ?srv] exI [of _ c])
      (simp add: check_and_apply_back_invalidations_def)
qed

lemma register_became:
  "became srv (register_back_invalidation a t bs ts srv) (line_of srv) (contents_of srv)
     ((pending_entries srv)(a := pending_entries srv a @
        [\<lparr>bi_cacheline_addr = a, bi_source_thread_id = t, bi_timestamp = ts, bi_dirty_data = bs\<rparr>]))" if "base_ok srv"
  using that
  by (auto simp: became_def base_ok_def geometry_def line_of_def contents_of_def pending_entries_def
      register_back_invalidation_def map_of_map_set sorted_map_set fun_eq_iff)

lemma fold_register_became:
  assumes "base_ok srv"
  shows "\<exists>es. became srv (fold (\<lambda>_. register_back_invalidation a t bs ts) xs srv) (line_of srv) (contents_of srv)
      ((pending_entries srv)(a := pending_entries srv a @ es)) \<and> (\<forall>e \<in> set es. bi_timestamp e = ts)
    \<and> sv_active_requests (fold (\<lambda>_. register_back_invalidation a t bs ts) xs srv) = sv_active_requests srv"
  using assms
proof (induction xs arbitrary: srv)
  case Nil
  then show ?case using became_refl [of srv] by (intro exI [of _ "[]"]) simp
next
  case (Cons x xs)
  let ?srv = "register_back_invalidation a t bs ts srv"
  note b = register_became [OF Cons.prems, of a t bs ts]
  have "base_ok ?srv" using b Cons.prems by (simp add: became_def)
  from Cons.IH [OF this] obtain es where
    r: "became ?srv (fold (\<lambda>_. register_back_invalidation a t bs ts) xs ?srv) (line_of ?srv) (contents_of ?srv)
      ((pending_entries ?srv)(a := pending_entries ?srv a @ es))" "\<forall>e \<in> set es. bi_timestamp e = ts"
      "sv_active_requests (fold (\<lambda>_. register_back_invalidation a t bs ts) xs ?srv) = sv_active_requests ?srv" by blast
  let ?e = "\<lparr>bi_cacheline_addr = a, bi_source_thread_id = t, bi_timestamp = ts, bi_dirty_data = bs\<rparr>"
  have e: "line_of ?srv = line_of srv" "contents_of ?srv = contents_of srv"
      "pending_entries ?srv = (pending_entries srv)(a := pending_entries srv a @ [?e])"
    using b by (simp_all add: became_def)
  have "sv_active_requests ?srv = sv_active_requests srv" by (simp add: register_back_invalidation_def)
  moreover have "became srv (fold (\<lambda>_. register_back_invalidation a t bs ts) (x # xs) srv) (line_of srv) (contents_of srv)
      ((pending_entries srv)(a := pending_entries srv a @ ?e # es))"
    using became_trans [OF b r(1)] e by simp
  moreover have "\<forall>e \<in> set (?e # es). bi_timestamp e = ts" using r(2) by simp
  moreover have "fold (\<lambda>_. register_back_invalidation a t bs ts) (x # xs) srv
      = fold (\<lambda>_. register_back_invalidation a t bs ts) xs ?srv" by simp
  ultimately show ?case using r(3) by metis
qed


section \<open>Reads and writes\<close>

text \<open>Loads and stores of a flat memory, through the map from addresses to cells.\<close>

definition fetch_bytes :: "(u64 \<Rightarrow> nat) \<Rightarrow> memory \<Rightarrow> u64 \<Rightarrow> nat \<Rightarrow> u8 list" where
  "fetch_bytes cell c a n = map (\<lambda>i. c (cell (a + of_nat i))) [0..<n]"

definition store_bytes :: "(u64 \<Rightarrow> nat) \<Rightarrow> memory \<Rightarrow> u64 \<Rightarrow> u8 list \<Rightarrow> memory" where
  "store_bytes cell c a bs =
     (\<lambda>p. case List.find (\<lambda>i. cell (a + of_nat i) = p) [0..<length bs] of Some i \<Rightarrow> bs ! i | None \<Rightarrow> c p)"

lemma read_contents:
  assumes "base_ok srv"
  shows "read_cacheline (sv_shm_manager srv) a n =
    Some (if accessible (sv_shm_manager srv) a n
          then Some (fetch_bytes (byte_offset (sv_shm_manager srv)) (contents_of srv) a n) else None)"
  using assms read_cacheline_eq [of "sv_shm_manager srv" a n]
  by (simp add: base_ok_def fetch_bytes_def byte_at_def contents_of_def)

lemma write_contents:
  assumes "base_ok srv"
  shows "write_cacheline (sv_shm_manager srv) a bs synced =
    Some (if accessible (sv_shm_manager srv) a (length bs)
          then (synced, (sv_shm_manager srv)\<lparr>sm_data_area :=
                  store_bytes (byte_offset (sv_shm_manager srv)) (contents_of srv) a bs\<rparr>)
          else (False, sv_shm_manager srv))"
  using assms write_cacheline_eq [of "sv_shm_manager srv" a bs synced]
  by (simp add: base_ok_def store_bytes_def written_def contents_of_def)

lemma length_fetch [simp]: "length (fetch_bytes cell c a n) = n"
  by (simp add: fetch_bytes_def)

lemma put_data_take: "take (length bs) (rp_data (put_data resp bs)) = bs"
  by (simp add: put_data_def)

lemma became_ok: "became srv srv' l c q \<Longrightarrow> base_ok srv \<Longrightarrow> base_ok srv'"
  by (simp add: became_def)

lemma became_parts:
  "became srv srv' l c q \<Longrightarrow> line_of srv' = l \<and> contents_of srv' = c \<and> pending_entries srv' = q
     \<and> geometry srv' = geometry srv"
  by (simp add: became_def)

text \<open>The last part of a served request.\<close>

lemma complete_became:
  assumes "base_ok srv"
    and "finish_request_latency (store_info (srv\<lparr>sv_controller := propagate_access (sv_controller srv) ts t x\<rparr>) a info)
           now lat miss sz extra = (l, srv')"
  shows "became srv srv' ((line_of srv)(a := info)) (contents_of srv) (pending_entries srv)"
    "sv_active_requests srv' = sv_active_requests srv - 1"
proof -
  let ?srv = "srv\<lparr>sv_controller := propagate_access (sv_controller srv) ts t x\<rparr>"
  have b: "became srv ?srv (line_of srv) (contents_of srv) (pending_entries srv)"
    using became_counters(13) [of srv] propagate_access_local by blast
  note s = store_info_became [OF became_ok [OF b assms(1)], of a info]
  note f = finish_became [OF assms(2)]
  show "became srv srv' ((line_of srv)(a := info)) (contents_of srv) (pending_entries srv)"
    using became_trans [OF became_trans [OF b s] f(1)] became_parts [OF b] became_parts [OF s] by simp
  show "sv_active_requests srv' = sv_active_requests srv - 1"
    using f(2) by (simp add: store_info_def)
qed

lemma fail_became:
  assumes "base_ok srv" "fail_request (store_info srv a info) resp = (resp', srv')"
  shows "became srv srv' ((line_of srv)(a := info)) (contents_of srv) (pending_entries srv)"
    "sv_active_requests srv' = sv_active_requests srv - 1" "rp_status resp' = 1"
  using assms became_counted(1) [OF store_info_became [OF assms(1), of a info]]
  by (auto simp: fail_request_def store_info_def)


definition stale :: "Server \<Rightarrow> u64 \<Rightarrow> bool" where
  "stale srv a \<longleftrightarrow> (\<forall>e \<in> set (pending_entries srv a). bi_timestamp e \<le> cm_last_access_time (line_of srv a))"

lemma serve_read_effect:
  fixes req :: ServerRequest and srv :: Server
  defines "a \<equiv> cl_align (rq_addr req)" and "m \<equiv> sv_shm_manager srv" and "n \<equiv> unat (rq_size req)"
  assumes "base_ok srv"
  shows "\<exists>resp' srv' info c. serve_read srv env t req resp lat = Some (resp', srv')
    \<and> became srv srv' ((line_of srv)(a := info)) c ((pending_entries srv)(a := []))
    \<and> (line_ok (line_of srv a) \<and> 0 \<le> t \<longrightarrow> line_ok info \<and> holding_of info = grant_read t (holding_of (line_of srv a)))
    \<and> sv_active_requests srv' = sv_active_requests srv - 1
    \<and> (stale srv a \<longrightarrow> c = contents_of srv)
    \<and> (if accessible m (rq_addr req) n
       then rp_status resp' = 0 \<and> take n (rp_data resp') = fetch_bytes (byte_offset m) c (rq_addr req) n
         \<and> cm_last_access_time info = rq_timestamp req
       else rp_status resp' = 1 \<and> cm_last_access_time info = cm_last_access_time (line_of srv a))"
proof -
  obtain info0 srv0 where l: "load_info srv a = (info0, srv0)" by (cases "load_info srv a")
  note l' = load_info_became [OF l assms(4)]
  have ok0: "base_ok srv0" by (rule became_ok [OF l'(2) assms(4)])
  have act0: "sv_active_requests srv0 = sv_active_requests srv"
    using l by (auto simp: load_info_def split: prod.splits)
  from check_and_apply_became [OF ok0, of "ev_msync env" a info0] obtain had info1 srv1 c where
    k: "check_and_apply_back_invalidations (ev_msync env) srv0 a info0 = Some (had, info1, srv1)"
      "became srv0 srv1 (line_of srv0) c ((pending_entries srv0)(a := []))" "same_holders info0 info1"
      "sv_active_requests srv1 = sv_active_requests srv0"
      "(\<forall>e \<in> set (pending_entries srv0 a). bi_timestamp e \<le> cm_last_access_time info0) \<longrightarrow>
         c = contents_of srv0 \<and> info1 = info0" by blast
  obtain info2 srv2 where h: "handle_read_coherency srv1 t info1 = (info2, srv2)"
    by (cases "handle_read_coherency srv1 t info1")
  note h' = read_coherency_became [OF h]
  have b2: "became srv srv2 (line_of srv) c ((pending_entries srv)(a := []))"
    using became_trans [OF became_trans [OF l'(2) k(2)] h'(1)] became_parts [OF l'(2)] became_parts [OF k(2)] by simp
  have ok2: "base_ok srv2" by (rule became_ok [OF b2 assms(4)])
  have same: "sv_active_requests srv2 = sv_active_requests srv" "cm_last_access_time info2 = cm_last_access_time (line_of srv a)"
    using act0 k(3,4) h'(2,3) l'(1) by (simp_all add: same_holders_def)
  have geo: "accessible (sv_shm_manager srv2) = accessible m" "byte_offset (sv_shm_manager srv2) = byte_offset m"
    "contents_of srv2 = c"
    using geometry_cong [of srv2 srv] became_parts [OF b2] by (simp_all add: m_def)
  have line: "line_ok info2 \<and> holding_of info2 = grant_read t (holding_of (line_of srv a))"
    if "line_ok (line_of srv a)" "0 \<le> t"
    using line_ok_read [OF h _ that(2)] same_holders_ok [OF k(3)] that(1) l'(1) by simp
  have cs: "stale srv a \<longrightarrow> c = contents_of srv"
    using k(5) l'(1) became_parts [OF l'(2)] by (simp add: stale_def)
  show ?thesis
  proof (cases "accessible m (rq_addr req) n")
    case False
    obtain resp' srv' where f: "fail_request (store_info srv2 a info2) resp = (resp', srv')"
      by (cases "fail_request (store_info srv2 a info2) resp")
    note f' = fail_became [OF ok2 f]
    have "serve_read srv env t req resp lat = Some (resp', srv')"
      using l k(1) h f False read_contents [OF ok2, of "rq_addr req" n]
      by (simp add: serve_read_def a_def n_def geo)
    moreover have "became srv srv' ((line_of srv)(a := info2)) c ((pending_entries srv)(a := []))"
      using became_trans [OF b2 f'(1)] became_parts [OF b2] by simp
    ultimately show ?thesis
      using f'(2,3) same line cs False by (intro exI [of _ resp'] exI [of _ srv'] exI [of _ info2] exI [of _ c]) simp
  next
    case True
    let ?srv3 = "srv2\<lparr>sv_total_reads := sv_total_reads srv2 + 1\<rparr>"
    let ?info = "info2\<lparr>cm_last_access_time := rq_timestamp req\<rparr>"
    let ?bs = "fetch_bytes (byte_offset m) c (rq_addr req) n"
    let ?miss = "(held_by_other info1 t \<and> cm_owner info1 \<noteq> - 1) \<or> had"
    obtain latency srv' where f: "finish_request_latency (store_info (?srv3\<lparr>sv_controller :=
        propagate_access (sv_controller ?srv3) (rq_timestamp req) t (rq_addr req)\<rparr>) a ?info)
        (ev_later env) lat ?miss (rq_size req) 0 = (latency, srv')" by fastforce
    have b3: "became srv ?srv3 (line_of srv) c ((pending_entries srv)(a := []))" by (rule became_counted(4) [OF b2])
    note f' = complete_became [OF became_ok [OF b3 assms(4)] f]
    let ?resp = "(put_data resp ?bs)\<lparr>rp_status := 0, rp_latency_ns := latency\<rparr>"
    have "serve_read srv env t req resp lat = Some (?resp, srv')"
      using l k(1) h f True read_contents [OF ok2, of "rq_addr req" n]
      by (simp add: serve_read_def a_def n_def geo)
    moreover have "became srv srv' ((line_of srv)(a := ?info)) c ((pending_entries srv)(a := []))"
      using became_trans [OF b3 f'(1)] became_parts [OF b3] by simp
    ultimately show ?thesis
      using f'(2) same line cs True put_data_take [of ?bs resp]
      by (intro exI [of _ ?resp] exI [of _ srv'] exI [of _ ?info] exI [of _ c]) simp
  qed
qed


text \<open>The common start of both: the entry of the line, and the state it is read from.\<close>

lemma load_info_active: "load_info srv a = (info, srv') \<Longrightarrow> sv_active_requests srv' = sv_active_requests srv"
  by (auto simp: load_info_def split: prod.splits)

lemma serve_write_effect:
  fixes req :: ServerRequest and srv :: Server
  defines "a \<equiv> cl_align (rq_addr req)" and "m \<equiv> sv_shm_manager srv" and "bs \<equiv> take (unat (rq_size req)) (rq_data req)"
  assumes "base_ok srv" and "unat (rq_size req) \<le> length (rq_data req)"
  shows "\<exists>resp' srv' info c es. serve_write srv env t req resp lat = Some (resp', srv')
    \<and> became srv srv' ((line_of srv)(a := info)) c ((pending_entries srv)(a := pending_entries srv a @ es))
    \<and> (\<forall>e \<in> set es. bi_timestamp e = rq_timestamp req)
    \<and> (line_ok (line_of srv a) \<and> 0 \<le> t \<longrightarrow> line_ok info \<and> holding_of info = Writer t)
    \<and> sv_active_requests srv' = sv_active_requests srv - 1
    \<and> c = (if accessible m (rq_addr req) (length bs)
           then store_bytes (byte_offset m) (contents_of srv) (rq_addr req) bs else contents_of srv)
    \<and> (if accessible m (rq_addr req) (length bs) \<and> ev_msync env 0
       then rp_status resp' = 0 \<and> rp_data resp' = rp_data resp \<and> cm_last_access_time info = rq_timestamp req
       else rp_status resp' = 1 \<and> es = [] \<and> cm_last_access_time info = cm_last_access_time (line_of srv a))"
proof -
  obtain info0 srv0 where l: "load_info srv a = (info0, srv0)" by (cases "load_info srv a")
  note l' = load_info_became [OF l assms(4)]
  obtain info1 srv1 where h: "handle_write_coherency srv0 (ev_now env) t info0 = (info1, srv1)"
    by (cases "handle_write_coherency srv0 (ev_now env) t info0")
  note h' = write_coherency_became [OF h]
  have b1: "became srv srv1 (line_of srv) (contents_of srv) (pending_entries srv)"
    using became_trans [OF l'(2) h'(1)] became_parts [OF l'(2)] by simp
  have ok1: "base_ok srv1" by (rule became_ok [OF b1 assms(4)])
  have same: "sv_active_requests srv1 = sv_active_requests srv"
      "cm_last_access_time info1 = cm_last_access_time (line_of srv a)"
    using load_info_active [OF l] h'(2,3) l'(1) by simp_all
  have geo: "accessible (sv_shm_manager srv1) = accessible m" "byte_offset (sv_shm_manager srv1) = byte_offset m"
    using geometry_cong [of srv1 srv] became_parts [OF b1] by (simp_all add: m_def)
  have line: "line_ok info1 \<and> holding_of info1 = Writer t"
    if "line_ok (line_of srv a)" "0 \<le> t"
    using line_ok_write [OF h _ that(2)] that(1) l'(1) by simp
  let ?d = "store_bytes (byte_offset m) (contents_of srv) (rq_addr req) bs"
  let ?m = "if accessible m (rq_addr req) (length bs) then (sv_shm_manager srv1)\<lparr>sm_data_area := ?d\<rparr> else sv_shm_manager srv1"
  let ?c = "if accessible m (rq_addr req) (length bs) then ?d else contents_of srv"
  let ?srv2 = "srv1\<lparr>sv_shm_manager := ?m\<rparr>"
  have w: "write_cacheline (sv_shm_manager srv1) (rq_addr req) bs (ev_msync env 0) =
      Some (accessible m (rq_addr req) (length bs) \<and> ev_msync env 0, ?m)"
    using write_contents [OF ok1, of "rq_addr req" bs "ev_msync env 0"] became_parts [OF b1] by (simp add: geo)
  have b2: "became srv ?srv2 (line_of srv) ?c (pending_entries srv)"
  proof (cases "accessible m (rq_addr req) (length bs)")
    case True
    then show ?thesis
      using became_trans [OF b1 memory_became [of srv1 ?d]] became_parts [OF b1] by simp
  qed (use b1 in simp)
  have ok2: "base_ok ?srv2" by (rule became_ok [OF b2 assms(4)])
  have len: "length bs = unat (rq_size req)" using assms(5) by (simp add: bs_def)
  note unf = serve_write_def a_def [symmetric] bs_def [symmetric] Let_def l h
  show ?thesis
  proof (cases "accessible m (rq_addr req) (length bs) \<and> ev_msync env 0")
    case False
    obtain resp' srv' where f: "fail_request (store_info ?srv2 a info1) resp = (resp', srv')"
      by (cases "fail_request (store_info ?srv2 a info1) resp")
    note f' = fail_became [OF ok2 f]
    have "serve_write srv env t req resp lat = Some (resp', srv')"
      using f False by (auto simp add: unf w)
    moreover have "became srv srv' ((line_of srv)(a := info1)) ?c ((pending_entries srv)(a := pending_entries srv a @ []))"
      using became_trans [OF b2 f'(1)] became_parts [OF b2] by simp
    ultimately show ?thesis
      using f'(2,3) same line False
      by (intro exI [of _ resp'] exI [of _ srv'] exI [of _ info1] exI [of _ ?c] exI [of _ "[]"]) auto
  next
    case True
    define xs where "xs = filter (\<lambda>u. u \<noteq> t) (sorted_list_of_set (threads_to_invalidate info0 t))"
    define dirty where "dirty = fetch_bytes (byte_offset m) ?c (rq_addr req) (unat (rq_size req))"
    have geo2: "accessible ?m = accessible m" "byte_offset ?m = byte_offset m"
      using geometry_cong [of ?srv2 srv] became_parts [OF b2] by (simp_all add: m_def)
    have r: "read_cacheline ?m (rq_addr req) (unat (rq_size req)) = Some (Some dirty)"
      using read_contents [OF ok2, of "rq_addr req" "unat (rq_size req)"] True len became_parts [OF b2] geo2
      by (simp add: dirty_def)
    define srv3 where "srv3 = fold (\<lambda>_. register_back_invalidation a t dirty (rq_timestamp req)) xs ?srv2"
    from fold_register_became [OF ok2, of a t dirty "rq_timestamp req" xs] obtain es where
      g: "became ?srv2 srv3 (line_of ?srv2) (contents_of ?srv2) ((pending_entries ?srv2)(a := pending_entries ?srv2 a @ es))"
        "\<forall>e \<in> set es. bi_timestamp e = rq_timestamp req" "sv_active_requests srv3 = sv_active_requests ?srv2"
      unfolding srv3_def by blast
    let ?srv4 = "srv3\<lparr>sv_total_writes := sv_total_writes srv3 + 1\<rparr>"
    let ?info = "info1\<lparr>cm_last_access_time := rq_timestamp req\<rparr>"
    let ?miss = "(cm_state info0 = CS_SHARED \<and> cm_sharers info0 \<noteq> {}) \<or> held_by_other info0 t"
    let ?q = "(pending_entries srv)(a := pending_entries srv a @ es)"
    have b4: "became srv ?srv4 (line_of srv) ?c ?q"
      using became_counted(5) [OF became_trans [OF b2 g(1)]] became_parts [OF b2] by simp
    obtain latency srv' where f: "finish_request_latency (store_info (?srv4\<lparr>sv_controller :=
        propagate_access (sv_controller ?srv4) (rq_timestamp req) t (rq_addr req)\<rparr>) a ?info)
        (ev_later env) lat ?miss (rq_size req) 0 = (latency, srv')" by fastforce
    note f' = complete_became [OF became_ok [OF b4 assms(4)] f]
    let ?resp = "resp\<lparr>rp_status := 0, rp_latency_ns := latency\<rparr>"
    define m2 where "m2 = (sv_shm_manager srv1)\<lparr>sm_data_area := ?d\<rparr>"
    have at: "write_cacheline (sv_shm_manager srv1) (rq_addr req) bs (ev_msync env 0) = Some (True, m2)"
        "read_cacheline m2 (rq_addr req) (unat (rq_size req)) = Some (Some dirty)"
        "fold (\<lambda>_. register_back_invalidation a t dirty (rq_timestamp req)) xs (srv1\<lparr>sv_shm_manager := m2\<rparr>) = srv3"
      using w r True by (simp_all add: m2_def srv3_def)
    have "serve_write srv env t req resp lat = Some (?resp, srv')"
      using f at by (simp add: unf xs_def [symmetric])
    moreover have "became srv srv' ((line_of srv)(a := ?info)) ?c ?q"
      using became_trans [OF b4 f'(1)] became_parts [OF b4] by simp
    ultimately show ?thesis
      using f'(2) g(2,3) same line True
      by (intro exI [of _ ?resp] exI [of _ srv'] exI [of _ ?info] exI [of _ ?c] exI [of _ es]) simp
  qed
qed


section \<open>Atomic operations\<close>

definition atomic_effect :: "ServerRequest \<Rightarrow> memory \<Rightarrow> u64 \<times> memory" where
  "atomic_effect req c =
     (let off = unat (rq_addr req); old = load64 c off
      in if rq_op_type req = OP_FENCE then (0, c)
         else if rq_op_type req = OP_ATOMIC_FAA then (old, store64 c off (old + rq_value req))
         else if old = rq_expected req then (old, store64 c off (rq_value req)) else (old, c))"

text \<open>An operation that stores takes the line.\<close>

definition takes_line :: "ServerRequest \<Rightarrow> u64 \<Rightarrow> bool" where
  "takes_line req old \<longleftrightarrow> rq_op_type req \<noteq> OP_FENCE \<and> (rq_op_type req = OP_ATOMIC_FAA \<or> old = rq_expected req)"

lemma atomic_update_effect:
  assumes "base_ok srv" "line_of srv a = info"
    and "rq_op_type req = OP_FENCE \<or> in_data_area (sv_shm_manager srv) (unat (rq_addr req)) 8"
  shows "\<exists>srv' info'. atomic_update srv t req a info = Some (fst (atomic_effect req (contents_of srv)), srv')
    \<and> became srv srv' ((line_of srv)(a := info')) (snd (atomic_effect req (contents_of srv))) (pending_entries srv)
    \<and> sv_active_requests srv' = sv_active_requests srv \<and> (line_ok info \<and> 0 \<le> t \<longrightarrow> line_ok info')
    \<and> holding_of info' = (if takes_line req (fst (atomic_effect req (contents_of srv))) then Writer t else holding_of info)
    \<and> cm_last_access_time info' = (if rq_op_type req = OP_FENCE then cm_last_access_time info else rq_timestamp req)"
proof -
  let ?off = "unat (rq_addr req)" and ?m = "sv_shm_manager srv"
  let ?old = "load64 (contents_of srv) ?off"
  let ?info = "info\<lparr>cm_last_access_time := rq_timestamp req\<rparr>"
  have stored: "became srv (store_info srv1 a (take_ownership ?info t)) ((line_of srv)(a := take_ownership ?info t)) d (pending_entries srv)"
    if "became srv srv1 (line_of srv) d (pending_entries srv)" for srv1 d
    using became_trans [OF that store_info_became [OF became_ok [OF that assms(1)]]] became_parts [OF that] by simp
  consider (fence) "rq_op_type req = OP_FENCE"
    | (faa) "rq_op_type req \<noteq> OP_FENCE" "rq_op_type req = OP_ATOMIC_FAA" "in_data_area ?m ?off 8"
    | (swap) "rq_op_type req \<noteq> OP_FENCE" "rq_op_type req \<noteq> OP_ATOMIC_FAA" "?old = rq_expected req" "in_data_area ?m ?off 8"
    | (keep) "rq_op_type req \<noteq> OP_FENCE" "rq_op_type req \<noteq> OP_ATOMIC_FAA" "?old \<noteq> rq_expected req" "in_data_area ?m ?off 8"
    using assms(3) by blast
  then show ?thesis
  proof cases
    case fence
    then show ?thesis
      using became_counters(9) [of srv "sv_total_fences srv + 1"] assms(2)
      by (intro exI [of _ "srv\<lparr>sv_total_fences := sv_total_fences srv + 1\<rparr>"] exI [of _ info])
        (simp add: takes_line_def atomic_update_def atomic_effect_def Let_def fun_upd_idem)
  next
    case faa
    let ?srv = "srv\<lparr>sv_shm_manager := ?m\<lparr>sm_data_area := store64 (contents_of srv) ?off (?old + rq_value req)\<rparr>,
        sv_total_atomic_faa := sv_total_atomic_faa srv + 1\<rparr>"
    show ?thesis
      using faa stored [OF became_counted(6) [OF memory_became]]
      by (intro exI [of _ "store_info ?srv a (take_ownership ?info t)"] exI [of _ "take_ownership ?info t"])
        (simp add: takes_line_def atomic_update_def atomic_effect_def Let_def contents_of_def line_ok_owner,
         simp add: store_info_def take_ownership_def)
  next
    case swap
    let ?srv = "srv\<lparr>sv_shm_manager := ?m\<lparr>sm_data_area := store64 (contents_of srv) ?off (rq_value req)\<rparr>,
        sv_total_atomic_cas := sv_total_atomic_cas srv + 1, sv_total_atomic_cas_success := sv_total_atomic_cas_success srv + 1\<rparr>"
    show ?thesis
      using swap stored [OF became_counted(8) [OF became_counted(7) [OF memory_became]]]
      by (intro exI [of _ "store_info ?srv a (take_ownership ?info t)"] exI [of _ "take_ownership ?info t"])
        (simp add: takes_line_def atomic_update_def atomic_effect_def Let_def contents_of_def line_ok_owner,
         simp add: store_info_def take_ownership_def)
  next
    case keep
    let ?srv = "srv\<lparr>sv_total_atomic_cas := sv_total_atomic_cas srv + 1\<rparr>"
    have b: "became srv ?srv (line_of srv) (contents_of srv) (pending_entries srv)" by (rule became_counters(7))
    show ?thesis
      using keep became_trans [OF b store_info_became [OF became_ok [OF b assms(1)], of a ?info]] became_parts [OF b]
      by (intro exI [of _ "store_info ?srv a ?info"] exI [of _ ?info])
        (simp add: takes_line_def atomic_update_def atomic_effect_def Let_def contents_of_def, simp add: store_info_def)
  qed
qed

lemma atomic_request_effect:
  fixes req :: ServerRequest and srv :: Server
  defines "a \<equiv> cl_align (rq_addr req)"
  assumes "base_ok srv" and "rq_op_type req = OP_FENCE \<or> in_data_area (sv_shm_manager srv) (unat (rq_addr req)) 8"
  shows "\<exists>resp' srv' info. server_atomic_request srv env t req resp = Some (resp', srv')
    \<and> became srv srv' ((line_of srv)(a := info)) (snd (atomic_effect req (contents_of srv))) (pending_entries srv)
    \<and> (line_ok (line_of srv a) \<and> 0 \<le> t \<longrightarrow> line_ok info)
    \<and> holding_of info = (if takes_line req (rp_old_value resp') then Writer t else holding_of (line_of srv a))
    \<and> sv_active_requests srv' = sv_active_requests srv
    \<and> rp_status resp' = 0 \<and> rp_old_value resp' = fst (atomic_effect req (contents_of srv))
    \<and> cm_last_access_time info =
        (if rq_op_type req = OP_FENCE then cm_last_access_time (line_of srv a) else rq_timestamp req)"
proof -
  let ?srv0 = "srv\<lparr>sv_active_requests := sv_active_requests srv + 1\<rparr>"
  have "local_heap (ct_heap (sv_controller ?srv0))" using assms(2) by (simp add: base_ok_def)
  from controller_latency_local [OF this, of "[(rq_addr req, 8)]" "ct_dramlatency (sv_controller ?srv0)"]
  obtain lat c where c: "controller_calculate_latency (sv_controller ?srv0) [(rq_addr req, 8)]
      (ct_dramlatency (sv_controller ?srv0)) = Some (lat, c)" "local_heap (ct_heap c)" by blast
  let ?srv1 = "?srv0\<lparr>sv_controller := c\<rparr>"
  have b1: "became srv ?srv1 (line_of srv) (contents_of srv) (pending_entries srv)"
    by (rule became_counted(13)) (use c(2) became_counters(1) in auto)
  have ok1: "base_ok ?srv1" by (rule became_ok [OF b1 assms(2)])
  obtain info srv2 where l: "load_info ?srv1 a = (info, srv2)" by (cases "load_info ?srv1 a")
  note l' = load_info_became [OF l ok1]
  have b2: "became srv srv2 (line_of srv) (contents_of srv) (pending_entries srv)"
    using became_trans [OF b1 l'(2)] became_parts [OF b1] by simp
  note ok2 = became_ok [OF b2 assms(2)] and p2 = became_parts [OF b2]
  have info: "info = line_of srv a" using l'(1) became_parts [OF b1] by simp
  have area: "rq_op_type req = OP_FENCE \<or> in_data_area (sv_shm_manager srv2) (unat (rq_addr req)) 8"
    using assms(3) geometry_cong(4) [of srv2 srv] p2 by simp
  from atomic_update_effect [OF ok2 _ area, of a info t] info p2 obtain srv3 info' where
    u: "atomic_update srv2 t req a info = Some (fst (atomic_effect req (contents_of srv)), srv3)"
      "became srv2 srv3 ((line_of srv)(a := info')) (snd (atomic_effect req (contents_of srv))) (pending_entries srv)"
      "sv_active_requests srv3 = sv_active_requests srv2" "line_ok info \<and> 0 \<le> t \<longrightarrow> line_ok info'"
      "holding_of info' = (if takes_line req (fst (atomic_effect req (contents_of srv))) then Writer t else holding_of info)"
      "cm_last_access_time info' = (if rq_op_type req = OP_FENCE then cm_last_access_time info else rq_timestamp req)"
    by auto
  obtain latency srv4 where f: "finish_request_latency srv3 (ev_later env) lat True 8
      (if rq_op_type req \<noteq> OP_FENCE then 20 else 0) = (latency, srv4)" by fastforce
  note f' = finish_became [OF f]
  have "sm_header (sv_shm_manager srv2) \<noteq> None" using ok2 by (auto simp: base_ok_def manager_ok_def split: option.splits)
  then have "server_atomic_request srv env t req resp =
      Some (resp\<lparr>rp_old_value := fst (atomic_effect req (contents_of srv)), rp_status := 0, rp_latency_ns := latency\<rparr>, srv4)"
    using c(1) l u(1) f by (simp add: server_atomic_request_def a_def [symmetric] Let_def del: not_None_eq)
  moreover have "became srv srv4 ((line_of srv)(a := info')) (snd (atomic_effect req (contents_of srv))) (pending_entries srv)"
    using became_trans [OF became_trans [OF b2 u(2)] f'(1)] became_parts [OF u(2)] by simp
  moreover have "sv_active_requests srv4 = sv_active_requests srv"
    using f'(2) u(3) load_info_active [OF l] by simp
  ultimately show ?thesis
    using u(4-6) info by auto
qed


lemma atomic_request_undefined:
  assumes "base_ok srv" "rq_op_type req \<noteq> OP_FENCE" "\<not> in_data_area (sv_shm_manager srv) (unat (rq_addr req)) 8"
  shows "server_atomic_request srv env t req resp = None"
proof -
  let ?srv0 = "srv\<lparr>sv_active_requests := sv_active_requests srv + 1\<rparr>" and ?a = "cl_align (rq_addr req)"
  have "local_heap (ct_heap (sv_controller ?srv0))" using assms(1) by (simp add: base_ok_def)
  from controller_latency_local [OF this, of "[(rq_addr req, 8)]" "ct_dramlatency (sv_controller ?srv0)"]
  obtain lat c where c: "controller_calculate_latency (sv_controller ?srv0) [(rq_addr req, 8)]
      (ct_dramlatency (sv_controller ?srv0)) = Some (lat, c)" "local_heap (ct_heap c)" by blast
  have b1: "became srv (?srv0\<lparr>sv_controller := c\<rparr>) (line_of srv) (contents_of srv) (pending_entries srv)"
    by (rule became_counted(13)) (use c(2) became_counters(1) in auto)
  obtain info srv2 where l: "load_info (?srv0\<lparr>sv_controller := c\<rparr>) ?a = (info, srv2)" by fastforce
  note b2 = became_trans [OF b1 load_info_became(2) [OF l became_ok [OF b1 assms(1)]]]
  have "\<not> in_data_area (sv_shm_manager srv2) (unat (rq_addr req)) 8"
    using assms(3) geometry_cong(4) [of srv2 srv] became_parts [OF b2] by simp
  moreover have "sm_header (sv_shm_manager srv2) \<noteq> None"
    using became_ok [OF b2 assms(1)] by (auto simp: base_ok_def manager_ok_def split: option.splits)
  ultimately show ?thesis
    using c(1) l assms(2) by (simp add: server_atomic_request_def atomic_update_def Let_def)
qed

section \<open>Whole requests\<close>

definition lines_ok :: "Server \<Rightarrow> bool" where
  "lines_ok srv \<longleftrightarrow> (\<forall>a. line_ok (line_of srv a))"

definition access_size :: "ServerRequest \<Rightarrow> nat" where
  "access_size req = (if rq_size req = 0 \<or> rq_size req > 64 then 64 else unat (rq_size req))"

lemma access_size_le: "access_size req \<le> 64"
  by (auto simp: access_size_def word_less_nat_alt)

definition clamped :: "ServerRequest \<Rightarrow> ServerRequest" where
  "clamped req = (if rq_size req = 0 \<or> rq_size req > 64 then req\<lparr>rq_size := 64\<rparr> else req)"

lemma clamped_simps [simp]:
  "unat (rq_size (clamped req)) = access_size req" "rq_addr (clamped req) = rq_addr req"
  "rq_timestamp (clamped req) = rq_timestamp req" "rq_data (clamped req) = rq_data req"
  "rq_op_type (clamped req) = rq_op_type req"
  by (simp_all add: access_size_def clamped_def)

abbreviation atomic_op :: "ServerRequest \<Rightarrow> bool" where
  "atomic_op req \<equiv> rq_op_type req = OP_ATOMIC_FAA \<or> rq_op_type req = OP_ATOMIC_CAS \<or> rq_op_type req = OP_FENCE"

abbreviation label_op :: "ServerRequest \<Rightarrow> bool" where
  "label_op req \<equiv> rq_op_type req = OP_LSA_READ \<or> rq_op_type req = OP_LSA_WRITE"

text \<open>A read or write with a valid address: the count of requests, the latency, then the access itself.\<close>

lemma handle_access:
  assumes "base_ok srv" "\<not> atomic_op req" "\<not> label_op req" "is_valid_address (sv_shm_manager srv) (rq_addr req)"
  obtains lat srv1 where
    "handle_request srv env t req resp =
       (if rq_op_type req = OP_READ then serve_read srv1 env t (clamped req) resp lat
        else serve_write srv1 env t (clamped req) resp lat)"
    "became srv srv1 (line_of srv) (contents_of srv) (pending_entries srv)"
    "sv_active_requests srv1 = sv_active_requests srv + 1"
proof -
  let ?srv0 = "srv\<lparr>sv_active_requests := sv_active_requests srv + 1\<rparr>"
  have "local_heap (ct_heap (sv_controller ?srv0))" using assms(1) by (simp add: base_ok_def)
  from controller_latency_local [OF this, of "[(rq_addr (clamped req), rq_size (clamped req))]"
      "ct_dramlatency (sv_controller ?srv0)"]
  obtain lat c where c: "controller_calculate_latency (sv_controller ?srv0)
      [(rq_addr (clamped req), rq_size (clamped req))] (ct_dramlatency (sv_controller ?srv0)) = Some (lat, c)"
      "local_heap (ct_heap c)" by blast
  have "became srv (?srv0\<lparr>sv_controller := c\<rparr>) (line_of srv) (contents_of srv) (pending_entries srv)"
    by (rule became_counted(13)) (use c(2) became_counters(1) in auto)
  moreover have "handle_request srv env t req resp =
       (if rq_op_type req = OP_READ then serve_read (?srv0\<lparr>sv_controller := c\<rparr>) env t (clamped req) resp lat
        else serve_write (?srv0\<lparr>sv_controller := c\<rparr>) env t (clamped req) resp lat)"
    using assms(2-4) c(1) by (simp add: handle_request_def Let_def flip: clamped_def)
  ultimately show thesis using that [of "?srv0\<lparr>sv_controller := c\<rparr>" lat] by simp
qed

lemma lines_ok_upd: "lines_ok srv \<Longrightarrow> line_of srv' = (line_of srv)(a := info) \<Longrightarrow> line_ok info \<Longrightarrow> lines_ok srv'"
  by (simp add: lines_ok_def)

text \<open>The effect of a request on the holders of a line.\<close>

definition holding_step :: "SharedMemoryManager \<Rightarrow> u64 \<Rightarrow> int \<Rightarrow> ServerRequest \<Rightarrow> ServerResponse \<Rightarrow> holding \<Rightarrow> holding" where
  "holding_step m a t req resp h =
     (if cl_align (rq_addr req) \<noteq> a \<or> label_op req then h
      else if atomic_op req then if takes_line req (rp_old_value resp) then Writer t else h
      else if \<not> is_valid_address m (rq_addr req) then h
      else if rq_op_type req = OP_READ then grant_read t h else Writer t)"

lemma handle_request_preserves:
  assumes "base_ok srv" "lines_ok srv" "0 \<le> t" "length (rq_data req) = 64"
    and "handle_request srv env t req resp = Some (resp', srv')"
  shows "base_ok srv' \<and> lines_ok srv' \<and> geometry srv' = geometry srv
    \<and> sv_active_requests srv' = sv_active_requests srv
    \<and> (\<forall>a. holding_of (line_of srv' a) = holding_step (sv_shm_manager srv) a t req resp' (holding_of (line_of srv a)))"
proof -
  have lok: "line_ok (line_of srv a)" for a using assms(2) by (simp add: lines_ok_def)
  consider (atomic) "atomic_op req" | (label) "\<not> atomic_op req" "label_op req"
    | (invalid) "\<not> atomic_op req" "\<not> label_op req" "\<not> is_valid_address (sv_shm_manager srv) (rq_addr req)"
    | (access) "\<not> atomic_op req" "\<not> label_op req" "is_valid_address (sv_shm_manager srv) (rq_addr req)" by blast
  then show ?thesis
  proof cases
    case atomic
    then have r: "server_atomic_request srv env t req resp = Some (resp', srv')"
      using assms(5) by (simp add: handle_request_def)
    then have "rq_op_type req = OP_FENCE \<or> in_data_area (sv_shm_manager srv) (unat (rq_addr req)) 8"
      using atomic_request_undefined [OF assms(1), of req env t resp] by auto
    from atomic_request_effect [OF assms(1) this, of env t resp] r show ?thesis
      using atomic lok assms(1,3) became_ok became_parts lines_ok_upd [OF assms(2)] by (auto simp: holding_step_def)
  next
    case label
    then show ?thesis
      using assms(1,2,5) by (auto simp: handle_request_def lsa_read_def lsa_write_def Let_def base_ok_def lines_ok_def
          line_of_def geometry_def holding_step_def split: if_splits)
  next
    case invalid
    then show ?thesis using assms(1,2,5) by (auto simp: handle_request_def Let_def holding_step_def split: if_splits)
  next
    case access
    obtain lat srv1 where h: "handle_request srv env t req resp =
       (if rq_op_type req = OP_READ then serve_read srv1 env t (clamped req) resp lat
        else serve_write srv1 env t (clamped req) resp lat)"
      "became srv srv1 (line_of srv) (contents_of srv) (pending_entries srv)"
      "sv_active_requests srv1 = sv_active_requests srv + 1" by (rule handle_access [OF assms(1) access])
    note ok1 = became_ok [OF h(2) assms(1)] and p1 = became_parts [OF h(2)]
    have lok1: "line_ok (line_of srv1 a)" for a using lok p1 by simp
    let ?l = "cl_align (rq_addr req)"
    have "\<exists>info c q. became srv1 srv' ((line_of srv1)(?l := info)) c q \<and> line_ok info
        \<and> holding_of info = (if rq_op_type req = OP_READ then grant_read t (holding_of (line_of srv ?l)) else Writer t)
        \<and> sv_active_requests srv' = sv_active_requests srv1 - 1"
    proof (cases "rq_op_type req = OP_READ")
      case True
      from serve_read_effect [OF ok1, of env t "clamped req" resp lat] obtain r s info c where
        e: "serve_read srv1 env t (clamped req) resp lat = Some (r, s)"
          "became srv1 s ((line_of srv1)(cl_align (rq_addr req) := info)) c
             ((pending_entries srv1)(cl_align (rq_addr req) := []))"
          "line_ok info" "sv_active_requests s = sv_active_requests srv1 - 1"
          "holding_of info = grant_read t (holding_of (line_of srv ?l))"
        using lok1 assms(3) p1 by auto
      moreover have "s = srv'" using True e(1) h(1) assms(5) by simp
      ultimately show ?thesis using True by auto
    next
      case False
      have "unat (rq_size (clamped req)) \<le> length (rq_data (clamped req))"
        using access_size_le [of req] assms(4) by simp
      from serve_write_effect [OF ok1 this, of env t resp lat] obtain r s info c q where
        e: "serve_write srv1 env t (clamped req) resp lat = Some (r, s)"
          "became srv1 s ((line_of srv1)(cl_align (rq_addr req) := info)) c q"
          "line_ok info" "sv_active_requests s = sv_active_requests srv1 - 1" "holding_of info = Writer t"
        using lok1 assms(3) by auto
      moreover have "s = srv'" using False e(1) h(1) assms(5) by simp
      ultimately show ?thesis using False by auto
    qed
    then obtain info c q where e: "became srv1 srv' ((line_of srv1)(?l := info)) c q" "line_ok info"
        "sv_active_requests srv' = sv_active_requests srv1 - 1"
        "holding_of info = (if rq_op_type req = OP_READ then grant_read t (holding_of (line_of srv ?l)) else Writer t)"
      by blast
    from became_trans [OF h(2) e(1)] have b: "became srv srv' ((line_of srv)(?l := info)) c q" using p1 by simp
    then show ?thesis
      using became_ok [OF b assms(1)] became_parts [OF b] lines_ok_upd [OF assms(2) _ e(2)] e(3,4) h(3) access
      by (auto simp: holding_step_def)
  qed
qed

end
