(* ===== verification/Server_Runs.thy ===== *)
theory Server_Runs
  imports Server_Laws
begin

text \<open>
  Runs of the memory server of \<open>src/src/main_server.cc\<close>: the server behaves as a flat memory, keeps at
  most one writer per line, balances its count of active requests, and serves a client of the
  shared-memory channel end to end.
\<close>

section \<open>Runs\<close>

text \<open>Requests in the order in which the server's locks admit them.\<close>

type_synonym submission = "request_env \<times> int \<times> ServerRequest"

fun server_run :: "Server \<Rightarrow> submission list \<Rightarrow> (ServerResponse list \<times> Server) option" where
  "server_run srv [] = Some ([], srv)"
| "server_run srv ((env, t, req) # xs) = do {
     (resp, srv1) \<leftarrow> handle_request srv env t req blank_server_response;
     (resps, srv2) \<leftarrow> server_run srv1 xs;
     Some (resp # resps, srv2)
   }"

text \<open>The thread of a connection is not negative and the data of a message is 64 bytes.\<close>

definition well_formed :: "submission \<Rightarrow> bool" where
  "well_formed x = (case x of (env, t, req) \<Rightarrow> 0 \<le> t \<and> length (rq_data req) = 64)"

definition server_ok :: "Server \<Rightarrow> bool" where
  "server_ok srv \<longleftrightarrow> base_ok srv \<and> lines_ok srv"

lemma server_run_Cons:
  "server_run srv ((env, t, req) # xs) = Some (rs, srv') \<longleftrightarrow>
     (\<exists>resp srv1 rs'. handle_request srv env t req blank_server_response = Some (resp, srv1)
        \<and> server_run srv1 xs = Some (rs', srv') \<and> rs = resp # rs')"
  by (auto split: Option.bind_splits)

text \<open>The holders of a line after the requests of a run and their responses.\<close>

fun holding_run :: "SharedMemoryManager \<Rightarrow> u64 \<Rightarrow> submission list \<Rightarrow> ServerResponse list \<Rightarrow> holding \<Rightarrow> holding" where
  "holding_run m a ((env, t, req) # xs) (resp # resps) h = holding_run m a xs resps (holding_step m a t req resp h)"
| "holding_run m a _ _ h = h"

lemma holding_step_geometry:
  "geometry srv' = geometry srv \<Longrightarrow> holding_step (sv_shm_manager srv') = holding_step (sv_shm_manager srv)"
  using geometry_cong(3) [of srv' srv] by (simp add: holding_step_def fun_eq_iff)

lemma holding_run_cong:
  "holding_step m' = holding_step m \<Longrightarrow> holding_run m' a xs rs h = holding_run m a xs rs h"
  by (induction m a xs rs h rule: holding_run.induct) simp_all

lemma server_run_preserves:
  assumes "server_ok srv" "list_all well_formed xs" "server_run srv xs = Some (rs, srv')"
  shows "server_ok srv' \<and> geometry srv' = geometry srv \<and> sv_active_requests srv' = sv_active_requests srv
    \<and> length rs = length xs
    \<and> (\<forall>a. holding_of (line_of srv' a) = holding_run (sv_shm_manager srv) a xs rs (holding_of (line_of srv a)))"
  using assms
proof (induction srv xs arbitrary: rs rule: server_run.induct)
  case (2 srv env t req xs)
  from "2.prems"(3) obtain resp srv1 rs' where
    r: "handle_request srv env t req blank_server_response = Some (resp, srv1)"
      "server_run srv1 xs = Some (rs', srv')" "rs = resp # rs'"
    unfolding server_run_Cons by blast
  have wf: "0 \<le> t" "length (rq_data req) = 64" "list_all well_formed xs"
    using "2.prems"(2) well_formed_def [of "(env, t, req)"] by simp_all
  from handle_request_preserves [OF _ _ wf(1,2) r(1)] "2.prems"(1) have
    h: "server_ok srv1" "geometry srv1 = geometry srv" "sv_active_requests srv1 = sv_active_requests srv"
      "holding_of (line_of srv1 a) = holding_step (sv_shm_manager srv) a t req resp (holding_of (line_of srv a))" for a
    by (auto simp: server_ok_def)
  from "2.IH" [OF r(1) refl h(1) wf(3) r(2)] show ?case
    using h holding_run_cong [OF holding_step_geometry [OF h(2)]] r(3) by simp
qed simp

section \<open>A flat memory\<close>

datatype memory_outcome = Loaded "u8 list" | Stored | Fetched u64

definition flat_step :: "(u64 \<Rightarrow> nat) \<Rightarrow> memory \<Rightarrow> ServerRequest \<Rightarrow> memory_outcome \<times> memory" where
  "flat_step cell c req =
     (let a = rq_addr req; n = access_size req; old = u64_of_bytes (fetch_bytes cell c a 8)
      in if rq_op_type req = OP_READ then (Loaded (fetch_bytes cell c a n), c)
         else if rq_op_type req = OP_WRITE then (Stored, store_bytes cell c a (take n (rq_data req)))
         else if rq_op_type req = OP_ATOMIC_FAA
         then (Fetched old, store_bytes cell c a (bytes_of_u64 (old + rq_value req)))
         else if rq_op_type req = OP_ATOMIC_CAS
         then (Fetched old, if old = rq_expected req then store_bytes cell c a (bytes_of_u64 (rq_value req)) else c)
         else (Stored, c))"

fun flat_run :: "(u64 \<Rightarrow> nat) \<Rightarrow> memory \<Rightarrow> ServerRequest list \<Rightarrow> memory_outcome list \<times> memory" where
  "flat_run cell c [] = ([], c)"
| "flat_run cell c (req # reqs) =
     (let (out, c1) = flat_step cell c req; (outs, c2) = flat_run cell c1 reqs in (out # outs, c2))"

text \<open>What a client reads off the response to its request.\<close>

definition outcome_of :: "ServerRequest \<Rightarrow> ServerResponse \<Rightarrow> memory_outcome" where
  "outcome_of req resp =
     (if rq_op_type req = OP_READ then Loaded (take (access_size req) (rp_data resp))
      else if rq_op_type req = OP_ATOMIC_FAA \<or> rq_op_type req = OP_ATOMIC_CAS then Fetched (rp_old_value resp)
      else Stored)"

text \<open>
  The requests the server can serve: a valid address whose bytes are in the memory; for the atomic
  operations, which address the data area directly, an address that is its own offset.
\<close>

definition serviceable :: "SharedMemoryManager \<Rightarrow> ServerRequest \<Rightarrow> bool" where
  "serviceable m req \<longleftrightarrow>
     (if rq_op_type req = OP_READ \<or> rq_op_type req = OP_WRITE
      then is_valid_address m (rq_addr req) \<and> accessible m (rq_addr req) (access_size req)
      else if rq_op_type req = OP_ATOMIC_FAA \<or> rq_op_type req = OP_ATOMIC_CAS
      then in_data_area m (unat (rq_addr req)) 8 \<and>
        list_all (\<lambda>i. byte_offset m (rq_addr req + of_nat i) = unat (rq_addr req) + i) [0..<8]
      else rq_op_type req = OP_FENCE)"

lemma fetch_raw:
  assumes "list_all (\<lambda>i. cell (a + of_nat i) = unat a + i) [0..<n]"
  shows "fetch_bytes cell c a n = mem_read c (unat a) n"
  using assms by (simp add: fetch_bytes_def mem_read_def list_all_iff)

lemma store_raw:
  assumes "list_all (\<lambda>i. cell (a + of_nat i) = unat a + i) [0..<length bs]"
  shows "store_bytes cell c a bs = mem_write c (unat a) bs"
proof
  fix p
  have "List.find (\<lambda>i. cell (a + of_nat i) = p) [0..<length bs] = List.find (\<lambda>i. unat a + i = p) [0..<length bs]"
    using assms by (intro find_cong) (auto simp: list_all_iff)
  also have "\<dots> = (if unat a \<le> p \<and> p < unat a + length bs then Some (p - unat a) else None)"
  proof (cases "unat a \<le> p \<and> p < unat a + length bs")
    case True
    then have "unat a + [0..<length bs] ! j \<noteq> p" if "j < p - unat a" for j
    proof -
      have "j < length bs" using that True by linarith
      then show ?thesis using that nth_upt [of 0 j "length bs"] by simp
    qed
    moreover have "[0..<length bs] ! (p - unat a) = p - unat a" 
    proof -
      have "p - unat a < length bs" using True by linarith
      then show ?thesis using nth_upt [of 0 "p - unat a" "length bs"] by simp
    qed
    ultimately show ?thesis
      using True by (auto simp: find_Some_iff_nth intro!: exI [of _ "p - unat a"])
  qed (auto simp: find_None_iff)
  finally show "store_bytes cell c a bs p = mem_write c (unat a) bs p"
    by (simp add: store_bytes_def mem_write_def)
qed

lemma atomic_effect_flat:
  assumes "serviceable m req" "atomic_op req"
  shows "flat_step (byte_offset m) c req =
    (if rq_op_type req = OP_FENCE then Stored else Fetched (fst (atomic_effect req c)), snd (atomic_effect req c))"
proof (cases "rq_op_type req = OP_FENCE")
  case False
  then have raw: "list_all (\<lambda>i. byte_offset m (rq_addr req + of_nat i) = unat (rq_addr req) + i) [0..<8]"
    using assms by (auto simp: serviceable_def)
  have "store_bytes (byte_offset m) c (rq_addr req) (bytes_of_u64 v) = store64 c (unat (rq_addr req)) v" for v
    using store_raw [of "byte_offset m" "rq_addr req" "bytes_of_u64 v" c] raw by (simp add: store64_def)
  then show ?thesis
    using False assms(2) fetch_raw [OF raw, of c]
    by (auto simp: flat_step_def atomic_effect_def load64_def Let_def)
qed (simp add: flat_step_def atomic_effect_def Let_def)

section \<open>Requests in the order of their timestamps\<close>

definition quiet_until :: "u64 \<Rightarrow> Server \<Rightarrow> bool" where
  "quiet_until T srv \<longleftrightarrow> (\<forall>a. cm_last_access_time (line_of srv a) \<le> T \<and> stale srv a)"

lemma quiet_line:
  assumes "quiet_until T srv" "T \<le> ts" "line_of srv' = (line_of srv)(a := info)"
    "pending_entries srv' = (pending_entries srv)(a := q)"
    "cm_last_access_time info \<le> ts" "\<And>e. e \<in> set q \<Longrightarrow> bi_timestamp e \<le> cm_last_access_time info"
  shows "quiet_until ts srv'"
  using assms by (auto simp: quiet_until_def stale_def intro: order_trans)

lemma handle_request_flat:
  assumes "base_ok srv" "lines_ok srv" "0 \<le> t" "length (rq_data req) = 64" "quiet_until T srv"
    and "T \<le> rq_timestamp req" "serviceable (sv_shm_manager srv) req" "ev_msync env 0"
  shows "\<exists>resp srv'. handle_request srv env t req blank_server_response = Some (resp, srv') \<and> rp_status resp = 0
    \<and> quiet_until (rq_timestamp req) srv'
    \<and> flat_step (byte_offset (sv_shm_manager srv)) (contents_of srv) req = (outcome_of req resp, contents_of srv')"
proof -
  let ?a = "cl_align (rq_addr req)" and ?m = "sv_shm_manager srv" and ?r = blank_server_response
  have last: "cm_last_access_time (line_of srv ?a) \<le> T" "stale srv ?a" "line_ok (line_of srv ?a)"
    using assms(2,5) by (simp_all add: quiet_until_def lines_ok_def)
  consider (atomic) "atomic_op req" | (load) "rq_op_type req = OP_READ" | (store) "rq_op_type req = OP_WRITE"
    using assms(7) by (auto simp: serviceable_def split: if_splits)
  then show ?thesis
  proof cases
    case atomic
    then have "rq_op_type req = OP_FENCE \<or> in_data_area ?m (unat (rq_addr req)) 8"
      using assms(7) by (auto simp: serviceable_def)
    from atomic_request_effect [OF assms(1) this, of env t ?r] obtain resp srv' info where
      e: "server_atomic_request srv env t req ?r = Some (resp, srv')"
        "became srv srv' ((line_of srv)(?a := info)) (snd (atomic_effect req (contents_of srv))) (pending_entries srv)"
        "rp_status resp = 0" "rp_old_value resp = fst (atomic_effect req (contents_of srv))"
        "cm_last_access_time info =
           (if rq_op_type req = OP_FENCE then cm_last_access_time (line_of srv ?a) else rq_timestamp req)" by auto
    note p = became_parts [OF e(2)]
    have "quiet_until (rq_timestamp req) srv'"
      by (rule quiet_line [OF assms(5,6), of _ ?a info "pending_entries srv ?a"])
        (use p e(5) last assms(6) in \<open>auto simp: stale_def intro: order_trans\<close>)
    then show ?thesis
      using atomic e p atomic_effect_flat [OF assms(7) atomic, of "contents_of srv"]
      by (auto simp: handle_request_def outcome_of_def)
  next
    case load
    then have acc: "is_valid_address ?m (rq_addr req)" "accessible ?m (rq_addr req) (access_size req)"
      using assms(7) by (simp_all add: serviceable_def)
    have n: "\<not> atomic_op req" "\<not> label_op req" using load by simp_all
    obtain lat srv1 where h: "handle_request srv env t req ?r =
       (if rq_op_type req = OP_READ then serve_read srv1 env t (clamped req) ?r lat
        else serve_write srv1 env t (clamped req) ?r lat)"
      "became srv srv1 (line_of srv) (contents_of srv) (pending_entries srv)"
      by (rule handle_access [OF assms(1) n acc(1)])
    note p1 = became_parts [OF h(2)] and ok1 = became_ok [OF h(2) assms(1)]
    note g1 = geometry_cong [of srv1 srv]
    from serve_read_effect [OF ok1, of env t "clamped req" ?r lat] obtain resp srv' info c where
      e: "serve_read srv1 env t (clamped req) ?r lat = Some (resp, srv')"
        "became srv1 srv' ((line_of srv1)(?a := info)) c ((pending_entries srv1)(?a := []))"
        "stale srv1 ?a \<longrightarrow> c = contents_of srv1" "rp_status resp = 0"
        "take (access_size req) (rp_data resp) = fetch_bytes (byte_offset ?m) c (rq_addr req) (access_size req)"
        "cm_last_access_time info = rq_timestamp req"
      using acc g1 p1 assms(3) last(3) by auto
    note p = became_parts [OF e(2)]
    have c: "c = contents_of srv" using e(3) last(2) p1 by (simp add: stale_def)
    have "quiet_until (rq_timestamp req) srv'"
      by (rule quiet_line [OF assms(5,6), of _ ?a info "[]"]) (use p p1 e(6) in simp_all)
    then show ?thesis
      using load h(1) e p c by (auto simp: flat_step_def outcome_of_def Let_def)
  next
    case store
    then have acc: "is_valid_address ?m (rq_addr req)" "accessible ?m (rq_addr req) (access_size req)"
      using assms(7) by (simp_all add: serviceable_def)
    have n: "\<not> atomic_op req" "\<not> label_op req" using store by simp_all
    obtain lat srv1 where h: "handle_request srv env t req ?r =
       (if rq_op_type req = OP_READ then serve_read srv1 env t (clamped req) ?r lat
        else serve_write srv1 env t (clamped req) ?r lat)"
      "became srv srv1 (line_of srv) (contents_of srv) (pending_entries srv)"
      by (rule handle_access [OF assms(1) n acc(1)])
    note p1 = became_parts [OF h(2)] and ok1 = became_ok [OF h(2) assms(1)]
    note g1 = geometry_cong [of srv1 srv]
    let ?bs = "take (access_size req) (rq_data req)"
    have len: "unat (rq_size (clamped req)) \<le> length (rq_data (clamped req))" "length ?bs = access_size req"
      using access_size_le [of req] assms(4) by simp_all
    from serve_write_effect [OF ok1 len(1), of env t ?r lat] obtain resp srv' info c es where
      e: "serve_write srv1 env t (clamped req) ?r lat = Some (resp, srv')"
        "became srv1 srv' ((line_of srv1)(?a := info)) c ((pending_entries srv1)(?a := pending_entries srv1 ?a @ es))"
        "\<forall>e \<in> set es. bi_timestamp e = rq_timestamp req"
        "c = store_bytes (byte_offset ?m) (contents_of srv) (rq_addr req) ?bs" "rp_status resp = 0"
        "cm_last_access_time info = rq_timestamp req"
      using acc g1 p1 assms(3,8) len(2) last(3) by auto
    note p = became_parts [OF e(2)]
    have "quiet_until (rq_timestamp req) srv'"
      by (rule quiet_line [OF assms(5,6), of _ ?a info "pending_entries srv ?a @ es"])
        (use p p1 e(3,6) last assms(6) in \<open>auto simp: stale_def intro: order_trans\<close>)
    then show ?thesis
      using store h(1) e p by (auto simp: flat_step_def outcome_of_def Let_def)
  qed
qed


lemma server_run_flat:
  assumes "server_ok srv" "quiet_until T srv" "list_all well_formed xs"
    and "list_all (\<lambda>(env, t, req). serviceable (sv_shm_manager srv) req \<and> ev_msync env 0) xs"
    and "sorted (T # map (\<lambda>(env, t, req). rq_timestamp req) xs)"
  shows "\<exists>rs srv'. server_run srv xs = Some (rs, srv') \<and> list_all (\<lambda>r. rp_status r = 0) rs
    \<and> flat_run (byte_offset (sv_shm_manager srv)) (contents_of srv) (map (\<lambda>(env, t, req). req) xs) =
        (map2 (\<lambda>(env, t, req) r. outcome_of req r) xs rs, contents_of srv')"
  using assms
proof (induction xs arbitrary: srv T)
  case (Cons x xs)
  obtain env t req where x: "x = (env, t, req)" by (cases x)
  have wf: "0 \<le> t" "length (rq_data req) = 64" "list_all well_formed xs"
    using Cons.prems(3) well_formed_def [of x] by (simp_all add: x)
  have q: "T \<le> rq_timestamp req" "serviceable (sv_shm_manager srv) req" "ev_msync env 0"
      "sorted (rq_timestamp req # map (\<lambda>(env, t, req). rq_timestamp req) xs)"
    using Cons.prems(4,5) by (simp_all add: x)
  have ok: "base_ok srv" "lines_ok srv" using Cons.prems(1) by (simp_all add: server_ok_def)
  from handle_request_flat [OF ok wf(1,2) Cons.prems(2) q(1-3)] obtain resp srv1 where
    h: "handle_request srv env t req blank_server_response = Some (resp, srv1)" "rp_status resp = 0"
      "quiet_until (rq_timestamp req) srv1"
      "flat_step (byte_offset (sv_shm_manager srv)) (contents_of srv) req = (outcome_of req resp, contents_of srv1)"
    by blast
  from handle_request_preserves [OF ok wf(1,2) h(1)] have p: "server_ok srv1" "geometry srv1 = geometry srv"
    by (simp_all add: server_ok_def)
  have same: "serviceable (sv_shm_manager srv1) = serviceable (sv_shm_manager srv)"
      "byte_offset (sv_shm_manager srv1) = byte_offset (sv_shm_manager srv)"
    using geometry_cong [OF p(2)] by (simp_all add: serviceable_def fun_eq_iff)
  have rest: "list_all (\<lambda>(env, t, req). serviceable (sv_shm_manager srv1) req \<and> ev_msync env 0) xs"
    using Cons.prems(4) by (simp add: same)
  from Cons.IH [OF p(1) h(3) wf(3) rest q(4)] obtain rs srv' where
    "server_run srv1 xs = Some (rs, srv')" "list_all (\<lambda>r. rp_status r = 0) rs"
    "flat_run (byte_offset (sv_shm_manager srv)) (contents_of srv1) (map (\<lambda>(env, t, req). req) xs) =
        (map2 (\<lambda>(env, t, req) r. outcome_of req r) xs rs, contents_of srv')"
    unfolding same by blast
  then show ?case
    using h by (intro exI [of _ "resp # rs"] exI [of _ srv']) (simp add: x)
qed simp


section \<open>Properties\<close>

text \<open> C3. A run of the server implements the directory: whatever the requests, as long as none leaves
  the mapped memory, every line is held by nobody, by its readers or by one writer, exactly as the
  sequence of grants says, a modified line has no sharer and a shared line no owner, and the count of
  active requests is back where it was. \<close>

theorem server_implements_directory:
  assumes "server_ok srv" "list_all well_formed xs" "server_run srv xs = Some (rs, srv')"
  shows "holding_of (line_of srv' a) = holding_run (sv_shm_manager srv) a xs rs (holding_of (line_of srv a))
    \<and> (cm_state (line_of srv' a) = CS_MODIFIED \<longrightarrow> cm_sharers (line_of srv' a) = {} \<and> 0 \<le> cm_owner (line_of srv' a))
    \<and> (cm_state (line_of srv' a) = CS_SHARED \<longrightarrow> cm_sharers (line_of srv' a) \<noteq> {} \<and> cm_owner (line_of srv' a) = - 1)
    \<and> sv_active_requests srv' = sv_active_requests srv"
proof -
  note p = server_run_preserves [OF assms]
  then have "line_ok (line_of srv' a)" by (simp add: server_ok_def lines_ok_def)
  with p show ?thesis by (simp add: line_ok_def split: CoherencyState.splits)
qed

text \<open> C1. Requests that arrive in the order of their timestamps, with addresses the memory holds, are
  all served, and the responses and the final contents are those of a flat memory to which the
  requests are applied one after the other: a read returns the bytes last written, an atomic
  operation returns the old value and stores the new one, and the queued back invalidations change
  nothing.  The memory is assumed to be synchronised successfully (\<open>msync\<close>) after each write; for an atomic
  operation, which uses its address as an offset, the memory holds an address that is its own offset
  in the data area. \<close>

theorem server_refines_memory:
  assumes "server_ok srv" "quiet_until T srv" "list_all well_formed xs"
    and "list_all (\<lambda>(env, t, req). serviceable (sv_shm_manager srv) req \<and> ev_msync env 0) xs"
    and "sorted (T # map (\<lambda>(env, t, req). rq_timestamp req) xs)"
  shows "\<exists>rs srv'. server_run srv xs = Some (rs, srv') \<and> list_all (\<lambda>r. rp_status r = 0) rs
    \<and> flat_run (byte_offset (sv_shm_manager srv)) (contents_of srv) (map (\<lambda>(env, t, req). req) xs) =
        (map2 (\<lambda>(env, t, req) r. outcome_of req r) xs rs, contents_of srv')"
  by (rule server_run_flat [OF assms])


section \<open>The label storage area\<close>

definition labels_ok :: "Server \<Rightarrow> bool" where
  "labels_ok srv \<longleftrightarrow> length (sv_lsa_data srv) = unat (sv_lsa_size srv)"

lemma length_resize [simp]: "length (resize xs n) = n"
  by (simp add: resize_def)

lemma length_overwrite [simp]: "off + length bs \<le> length xs \<Longrightarrow> length (overwrite xs off bs) = length xs"
  by (simp add: overwrite_def)

lemma overwrite_slice: "off \<le> length xs \<Longrightarrow> take (length bs) (drop off (overwrite xs off bs)) = bs"
  by (simp add: overwrite_def)

lemma nth_overwrite:
  assumes "off + length bs \<le> length xs" "j < length xs"
  shows "overwrite xs off bs ! j = (if off \<le> j \<and> j < off + length bs then bs ! (j - off) else xs ! j)"
proof -
  have "j < off \<or> off \<le> j \<and> j - off < length bs \<and> j < off + length bs \<or> off + length bs \<le> j \<and> \<not> j - off < length bs"
    by linarith
  then show ?thesis using assms by (elim disjE) (simp_all add: overwrite_def nth_append min_absorb2)
qed

lemma overwrite_elsewhere:
  assumes "off' + n \<le> off \<or> off + length bs \<le> off'" "off + length bs \<le> length xs"
  shows "take n (drop off' (overwrite xs off bs)) = take n (drop off' xs)"
proof (rule nth_equalityI)
  fix i
  assume "i < length (take n (drop off' (overwrite xs off bs)))"
  then have i: "i < n" "off' + i < length xs" using length_overwrite [OF assms(2)] by auto
  then have "overwrite xs off bs ! (off' + i) = xs ! (off' + i)"
    using nth_overwrite [OF assms(2) i(2)] assms(1) by auto
  then show "take n (drop off' (overwrite xs off bs)) ! i = take n (drop off' xs) ! i"
    using i length_overwrite [OF assms(2)] by simp
qed (use assms(2) in simp)

lemma take_drop_append: "off + n \<le> length xs \<Longrightarrow> take n (drop off (xs @ ys)) = take n (drop off xs)"
  by simp

lemma resize_slice: "off + n \<le> length xs \<Longrightarrow> length xs \<le> k \<Longrightarrow> take n (drop off (resize xs k)) = take n (drop off xs)"
  by (simp add: resize_def)

text \<open> C15. What is written to the label storage is read back, and labels elsewhere in the storage keep
  their contents.  This holds for a label that lies within the storage, and for one that ends beyond
  it, where the storage grows, provided that the label ends below \<open>2^63\<close> and there is memory for the
  larger storage. \<close>

theorem label_round_trip:
  assumes "labels_ok srv" "rq_op_type w = OP_LSA_WRITE" "length (rq_data w) = 64"
    and "unat (rq_addr w) + clamp64 (rq_size w) \<le> length (sv_lsa_data srv)
      \<or> unat (rq_addr w) + clamp64 (rq_size w) < 2 ^ 63 \<and> ev_grows env (unat (rq_addr w) + clamp64 (rq_size w))"
    and "rq_op_type r = OP_LSA_READ" "rq_addr r = rq_addr w" "rq_size r = rq_size w"
    and "rq_op_type x = OP_LSA_READ" "unat (rq_addr x) + clamp64 (rq_size x) \<le> length (sv_lsa_data srv)"
    and "unat (rq_addr x) + clamp64 (rq_size x) \<le> unat (rq_addr w)
      \<or> unat (rq_addr w) + clamp64 (rq_size w) \<le> unat (rq_addr x)"
  shows "\<exists>p srv' q. handle_request srv env t w blank_server_response = Some (p, srv') \<and> rp_status p = 0 \<and> labels_ok srv'
    \<and> handle_request srv' env' t' r blank_server_response = Some (q, srv')
    \<and> rp_status q = 0 \<and> take (clamp64 (rq_size w)) (rp_data q) = take (clamp64 (rq_size w)) (rq_data w)
    \<and> map_option fst (handle_request srv' env' t' x blank_server_response)
      = map_option fst (handle_request srv env' t' x blank_server_response)"
proof -
  let ?n = "clamp64 (rq_size w)" and ?off = "unat (rq_addr w)"
  let ?stop = "rq_addr w + of_nat ?n" and ?bs = "take (clamp64 (rq_size w)) (rq_data w)"
  have n: "?n \<le> 64" "length ?bs = ?n" using assms(3) by (simp_all add: clamp64_def)
  have "?off + ?n < 2 ^ 64" using assms(1,4) unat_u64_less [of "sv_lsa_size srv"] by (auto simp: labels_ok_def)
  then have e: "unat ?stop = ?off + ?n" by (simp add: unat_word_ariths unat_of_nat)
  have grows: "unat ?stop < 2 ^ 63 \<and> ev_grows env (unat ?stop)" if "?stop > sv_lsa_size srv"
    using that assms(1,4) by (auto simp: labels_ok_def word_less_nat_alt e)
  let ?srv1 = "if ?stop > sv_lsa_size srv
    then srv\<lparr>sv_lsa_data := resize (sv_lsa_data srv) (unat ?stop), sv_lsa_size := ?stop\<rparr> else srv"
  let ?srv' = "?srv1\<lparr>sv_lsa_data := overwrite (sv_lsa_data ?srv1) ?off ?bs\<rparr>"
  have ok1: "labels_ok ?srv1" "?off + length ?bs \<le> length (sv_lsa_data ?srv1)" "length (sv_lsa_data srv) \<le> length (sv_lsa_data ?srv1)"
    using assms(1) e n(2) by (auto simp: labels_ok_def word_less_nat_alt)
  have same: "take k (drop off (sv_lsa_data ?srv1)) = take k (drop off (sv_lsa_data srv))"
    if "off + k \<le> length (sv_lsa_data srv)" for off k
    using resize_slice [OF that, of "unat ?stop"] assms(1) by (auto simp: labels_ok_def word_less_nat_alt)
  have w: "handle_request srv env t w blank_server_response = Some (blank_server_response\<lparr>rp_status := 0\<rparr>, ?srv')"
    using assms(2) ok1(2) n(2) grows by (simp add: handle_request_def lsa_write_def Let_def)
  have ok': "labels_ok ?srv'" using ok1 by (simp add: labels_ok_def)
  have read: "handle_request s env' t' q blank_server_response =
      Some ((put_data blank_server_response (take (clamp64 (rq_size q)) (drop (unat (rq_addr q)) (sv_lsa_data s))))\<lparr>rp_status := 0\<rparr>, s)"
    if "labels_ok s" "rq_op_type q = OP_LSA_READ" "unat (rq_addr q) + clamp64 (rq_size q) \<le> length (sv_lsa_data s)" for s q
  proof -
    have "unat (rq_addr q + of_nat (clamp64 (rq_size q)) :: u64) \<le> unat (sv_lsa_size s)"
      using that(1,3) unat_u64_less [of "sv_lsa_size s"] by (simp add: labels_ok_def unat_word_ariths unat_of_nat)
    then show ?thesis using that(2,3) by (simp add: handle_request_def lsa_read_def word_le_nat_alt Let_def)
  qed
  have len': "length (sv_lsa_data ?srv') = length (sv_lsa_data ?srv1)" using ok1(2) by simp
  have again: "take ?n (drop ?off (sv_lsa_data ?srv')) = ?bs"
    using overwrite_slice [of ?off "sv_lsa_data ?srv1" ?bs] ok1(2) n(2) by simp
  have r: "handle_request ?srv' env' t' r blank_server_response =
      Some ((put_data blank_server_response ?bs)\<lparr>rp_status := 0\<rparr>, ?srv')"
    using read [OF ok' assms(5)] assms(6,7) ok1(2) len' n(2) again by simp
  have x: "map_option fst (handle_request ?srv' env' t' x blank_server_response)
      = map_option fst (handle_request srv env' t' x blank_server_response)"
    using read [OF ok' assms(8)] read [OF assms(1,8,9)] assms(9) ok1(3) len'
      overwrite_elsewhere [of "unat (rq_addr x)" "clamp64 (rq_size x)" ?off ?bs "sv_lsa_data ?srv1"] assms(10) ok1(2) n(2)
      same [OF assms(9)] by simp
  show ?thesis
    using w ok' r x put_data_take [of ?bs blank_server_response] n(2)
    by (intro exI [of _ "blank_server_response\<lparr>rp_status := 0\<rparr>"] exI [of _ ?srv']
        exI [of _ "(put_data blank_server_response ?bs)\<lparr>rp_status := 0\<rparr>"]) (simp del: if_split)
qed


section \<open>An example\<close>

definition example_server :: Server where
  "example_server = new_Server example_controller (example_manager None) 0"

definition example_request :: "u8 \<Rightarrow> u64 \<Rightarrow> u64 \<Rightarrow> u64 \<Rightarrow> ServerRequest" where
  "example_request op addr ts v =
     \<lparr>rq_op_type = op, rq_addr = addr, rq_size = 8, rq_timestamp = ts, rq_value = v, rq_expected = 0,
      rq_data = replicate 64 7\<rparr>"

definition example_env :: request_env where
  "example_env = \<lparr>ev_now = 0, ev_later = 0, ev_msync = (\<lambda>_. True), ev_grows = (\<lambda>n. n < 2 ^ 32)\<rparr>"

definition example_submissions :: "submission list" where
  "example_submissions =
     [(example_env, 1, example_request OP_WRITE 64 1 0), (example_env, 2, example_request OP_ATOMIC_FAA 64 2 5),
      (example_env, 1, example_request OP_READ 64 3 0)]"

lemma example_server_manager: "sv_shm_manager example_server = example_manager None"
  by (simp add: example_server_def new_Server_def)

lemma example_server_idle: "sv_active_requests example_server = 0"
  by (simp add: example_server_def new_Server_def)

lemma example_server_line: "line_of example_server a = new_CachelineMetadata"
  by (simp add: line_of_def metadata_at_def example_server_manager example_manager_def manager_initialize_def
      new_SharedMemoryManager_def initialize_data_area_def Let_def)

lemma example_server_ok: "server_ok example_server" "quiet_until 0 example_server"
proof -
  have "metadata_sorted (example_manager None)"
    by (simp add: metadata_sorted_def example_manager_def manager_initialize_def
        new_SharedMemoryManager_def initialize_data_area_def Let_def)
  moreover have "local_heap (ct_heap example_controller)"
    by (simp add: example_controller_def local_heap_def)
  ultimately show "server_ok example_server"
    using example_manager_ok
    by (simp add: server_ok_def base_ok_def lines_ok_def example_server_line)
      (simp add: example_server_def new_Server_def)
  have "pending_entries example_server a = []" for a
    by (simp add: pending_entries_def example_server_def new_Server_def)
  then show "quiet_until 0 example_server"
    by (simp add: quiet_until_def stale_def example_server_line new_CachelineMetadata_def)
qed

lemma example_cell: "i < 8 \<Longrightarrow> byte_offset (example_manager None) (64 + of_nat i) = 64 + i"
  using byte_offset_modulo [of "example_manager None" _ "64 + of_nat i"] example_manager_ok
  by (simp add: example_manager_fields unat_word_ariths unat_of_nat)

lemma example_submissions_ok:
  "list_all well_formed example_submissions"
  "list_all (\<lambda>(env, t, req). serviceable (sv_shm_manager example_server) req \<and> ev_msync env 0) example_submissions"
  "sorted (0 # map (\<lambda>(env, t, req). rq_timestamp req) example_submissions)"
  by (simp_all add: example_submissions_def well_formed_def example_request_def example_env_def
      serviceable_def example_server_manager access_size_def is_valid_address_def accessible_def
      example_manager_fields in_data_area_def example_cell [simplified] list_all_iff)


section \<open>Witnesses\<close>

theorem server_refines_memory_witness:
  "\<exists>rs srv'. server_run example_server example_submissions = Some (rs, srv') \<and> list_all (\<lambda>r. rp_status r = 0) rs
    \<and> flat_run (byte_offset (example_manager None)) (contents_of example_server)
        (map (\<lambda>(env, t, req). req) example_submissions) =
      (map2 (\<lambda>(env, t, req) r. outcome_of req r) example_submissions rs, contents_of srv')"
  using server_refines_memory [OF example_server_ok example_submissions_ok] by (simp add: example_server_manager)

theorem server_implements_directory_witness:
  "\<exists>rs srv'. server_run example_server example_submissions = Some (rs, srv')
    \<and> holding_of (line_of srv' 64) = Readers {1, 2} \<and> sv_active_requests srv' = 0"
proof -
  obtain rs srv' where r: "server_run example_server example_submissions = Some (rs, srv')"
    using server_run_flat [OF example_server_ok example_submissions_ok] by blast
  have "length rs = 3"
    using server_run_preserves [OF example_server_ok(1) example_submissions_ok(1) r] by (simp add: example_submissions_def)
  then obtain r1 r2 r3 where "rs = [r1, r2, r3]" by (auto simp: numeral_3_eq_3 length_Suc_conv)
  moreover have "cl_align 64 = 64" by (simp add: cl_align_def)
  ultimately have "holding_run (example_manager None) 64 example_submissions rs Nobody = Readers {1, 2}"
    by (simp add: example_submissions_def example_request_def holding_step_def takes_line_def is_valid_address_def
        example_manager_fields insert_commute)
  then show ?thesis
    using server_implements_directory [OF example_server_ok(1) example_submissions_ok(1) r, of 64] r
    by (simp add: example_server_manager example_server_line example_server_idle)
qed


theorem label_round_trip_witness:
  "\<exists>p srv' q. handle_request example_server example_env 1 (example_request OP_LSA_WRITE 300000 1 0) blank_server_response
      = Some (p, srv')
    \<and> handle_request srv' example_env 1 (example_request OP_LSA_READ 300000 2 0) blank_server_response = Some (q, srv')
    \<and> take 8 (rp_data q) = replicate 8 7"
proof -
  have "labels_ok example_server" by (simp add: labels_ok_def example_server_def new_Server_def)
  moreover have "length (sv_lsa_data example_server) = 262144" by (simp add: example_server_def new_Server_def)
  ultimately show ?thesis
    using label_round_trip [of example_server "example_request OP_LSA_WRITE 300000 1 0" example_env
        "example_request OP_LSA_READ 300000 2 0" "example_request OP_LSA_READ 100 2 0" 1 example_env 1]
    by (auto simp: example_request_def example_env_def clamp64_def)
qed

section \<open>Where the server differs from its comments\<close>

text \<open>A write whose synchronisation fails is reported as failed, but its bytes are in the memory.\<close>

lemma failed_write_is_visible:
  assumes "base_ok srv" "unat (rq_size req) \<le> length (rq_data req)" "\<not> ev_msync env 0"
    and "accessible (sv_shm_manager srv) (rq_addr req) (unat (rq_size req))"
  shows "\<exists>resp' srv'. serve_write srv env t req resp lat = Some (resp', srv') \<and> rp_status resp' = 1
    \<and> contents_of srv' = store_bytes (byte_offset (sv_shm_manager srv)) (contents_of srv) (rq_addr req)
        (take (unat (rq_size req)) (rq_data req))"
  using serve_write_effect [OF assms(1,2), of env t resp lat] assms(2-4) became_parts by (auto simp: min_absorb2)

text \<open>A queued update is written to the start of its line, wherever in the line the write went.\<close>

lemma queued_update_misplaced:
  assumes "base_ok srv" "pending_entries srv a = [e]" "bi_timestamp e > cm_last_access_time info" "msync 0"
    and "accessible (sv_shm_manager srv) a (length (bi_dirty_data e))"
  shows "\<exists>info' srv'. check_and_apply_back_invalidations msync srv a info = Some (True, info', srv')
    \<and> contents_of srv' = store_bytes (byte_offset (sv_shm_manager srv)) (contents_of srv) a (bi_dirty_data e)"
  using assms write_contents [OF assms(1), of a "bi_dirty_data e" "msync 0"]
  by (simp add: check_and_apply_back_invalidations_def contents_of_def)

text \<open>An atomic operation ignores the base address and the wrap-around of the memory.\<close>

lemma atomic_ignores_base:
  assumes "server_ok srv" "rq_op_type req = OP_ATOMIC_FAA" "unat (sm_shm_size (sv_shm_manager srv)) \<le> unat (rq_addr req)"
  shows "handle_request srv env t req resp = None"
  using assms atomic_request_undefined [of srv req env t resp]
  by (simp add: handle_request_def server_ok_def in_data_area_def)

text \<open>The end of a label is computed modulo \<open>2^64\<close>.\<close>

lemma label_bound_wraps:
  "handle_request example_server env t (example_request OP_LSA_READ (- 1) 0 0) resp = None"
  by (simp add: handle_request_def example_request_def lsa_read_def clamp64_def example_server_def new_Server_def Let_def
      unsigned_minus_1_eq_mask mask_eq_exp_minus_1)

text \<open>A label beyond what a vector can hold ends the server.\<close>

lemma label_beyond_vector:
  assumes "rq_op_type req = OP_LSA_WRITE" "2 ^ 63 \<le> unat (rq_addr req)" "unat (rq_addr req) + 64 < 2 ^ 64"
    and "unat (sv_lsa_size srv) < 2 ^ 63"
  shows "handle_request srv env t req resp = None"
proof -
  let ?stop = "rq_addr req + of_nat (clamp64 (rq_size req)) :: u64"
  have "unat ?stop = unat (rq_addr req) + clamp64 (rq_size req)"
    using assms(3) by (simp add: unat_word_ariths unat_of_nat clamp64_def min_def)
  then have "?stop > sv_lsa_size srv" "\<not> unat ?stop < 2 ^ 63"
    using assms(2,4) by (simp_all add: word_less_nat_alt)
  then show ?thesis using assms(1) by (simp add: handle_request_def lsa_write_def Let_def)
qed

lemma serve_write_operation:
  "serve_write srv env t (req\<lparr>rq_op_type := x\<rparr>) resp lat = serve_write srv env t req resp lat"
proof (cases req)
  case (fields rq_op_type rq_addr rq_size rq_timestamp rq_value rq_expected rq_data)
  show ?thesis unfolding fields serve_write_def ServerRequest.simps ..
qed

text \<open>On the shared-memory channel an unknown operation is executed as a write.\<close>

lemma unknown_operation_writes:
  "handle_request srv env t (req\<lparr>rq_op_type := 9\<rparr>) resp = handle_request srv env t (req\<lparr>rq_op_type := OP_WRITE\<rparr>) resp"
proof (cases req)
  case (fields op addr sz ts v x data)
  have "serve_write s env t \<lparr>rq_op_type = 9, rq_addr = addr, rq_size = n, rq_timestamp = ts, rq_value = v, rq_expected = x, rq_data = data\<rparr> resp lat
      = serve_write s env t \<lparr>rq_op_type = OP_WRITE, rq_addr = addr, rq_size = n, rq_timestamp = ts, rq_value = v, rq_expected = x, rq_data = data\<rparr> resp lat"
    for s n lat
    using serve_write_operation [of s env t 9 "\<lparr>rq_op_type = OP_WRITE, rq_addr = addr, rq_size = n, rq_timestamp = ts,
      rq_value = v, rq_expected = x, rq_data = data\<rparr>" resp lat] by simp
  then show ?thesis by (simp add: fields handle_request_def Let_def)
qed

end
