(* ===== verification/Spec2Isabelle.thy ===== *)
theory Spec2Isabelle
  imports HDM_Decoder Coherency_Engine MHSLD_Device Mem_Expander LRU_Cache Paging_Policy Remote_Expander
    CXL_Switch Policies Topology CXL_Controller Controller_Runs Shm_Manager Shm_Ring Ring_Threads Server_Runs
begin

text \<open>
  A verification development of the CXL memory simulator: the timing model of a CXL fabric (decoder,
  switches, expanders, coherency, policies, controller) and the memory servers built on it.

  \<^bold>\<open>The program.\<close>  Accesses of a program or of a virtual machine are charged the latency they would
  have on a tree of CXL switches and memory expanders.  \<open>CXLController\<close> owns the tree; for each access
  it asks its cache, the address decoder (\<open>HDMDecoder\<close>) or the allocation policy where the access goes,
  records it in the expander concerned, and lets the caching, migration and paging policies act.  In
  distributed mode some addresses belong to other nodes: \<open>RemoteCXLExpander\<close> adds the cost of the
  network (\<open>LogPModel\<close>, \<open>FabricLink\<close>) and of the directory protocol (\<open>CoherencyEngine\<close>), and \<open>MHSLDDevice\<close> is a
  multi-headed device with its own MOESI directory.  \<open>main_server.cc\<close> serves the memory itself: clients
  connect by TCP or through a shared-memory channel (\<open>ShmCommunicationManager\<close>), the bytes live in a
  mapping owned by \<open>SharedMemoryManager\<close>, and each request is charged a latency by the controller.

  \<^bold>\<open>Theories and sources\<close> (paths below \<open>src/\<close>).

  \<^item> \<open>Prelude\<close>: word types, conversions between \<open>double\<close> and integers, cache-line alignment, ordered maps.
  \<^item> \<open>HDM_Decoder\<close>: \<open>include/hdm_decoder.h\<close>, \<open>src/hdm_decoder.cpp\<close>; the locales \<open>address_router\<close> and
    \<open>fallback_router\<close> are the contract of the three decoding modes.
  \<^item> \<open>LogP\<close>, \<open>Fabric_Link\<close>, \<open>Mem_Expander\<close>, \<open>MHSLD_Device\<close>, \<open>Remote_Expander\<close>, \<open>CXL_Switch\<close>: the classes of
    \<open>include/cxlendpoint.h\<close> and \<open>src/cxlendpoint.cpp\<close>; locales \<open>latency_channel\<close> (what a latency model
    promises) and \<open>credit_pool\<close> (flow-control credits).  Switches form a tree; expanders are objects in a
    heap, because controller, switches and remote list share them.
  \<^item> \<open>Cache_State\<close>, \<open>Coherency_Engine\<close>: \<open>include/coherency_engine.h\<close>, \<open>src/coherency_engine.cpp\<close>; the locale
    \<open>coherent_memory\<close> is the abstract protocol both the engine and \<open>MHSLD_Device\<close> implement.
  \<^item> \<open>Counters\<close>: \<open>include/cxlcounter.h\<close>.
  \<^item> \<open>LRU_Cache\<close>, \<open>Paging_Policy\<close>, \<open>Policies\<close>: \<open>include/cxlcontroller.h\<close> (cache and policy interfaces),
    \<open>include/policy.h\<close>, \<open>src/policy.cpp\<close>; the cache and the TLBs interpret the locale \<open>recency_cache\<close>.
  \<^item> \<open>Topology\<close>, \<open>CXL_Controller\<close>, \<open>Controller_Runs\<close>: \<open>src/cxlcontroller.cpp\<close>, \<open>include/cxlcontroller.h\<close>: the
    parser of topology strings, the operations of the controller, and properties of whole runs.
  \<^item> \<open>Byte_Memory\<close>, \<open>Shm_Manager\<close>: \<open>include/shared_memory_manager.h\<close>, \<open>src/shared_memory_manager.cc\<close>; the locale
    \<open>byte_store\<close> is what its clients rely on.
  \<^item> \<open>Ring_Queue\<close>, \<open>Shm_Ring\<close>, \<open>Ring_Threads\<close>: \<open>include/shm_communication.h\<close>, \<open>src/shm_communication.cpp\<close>; the
    locale \<open>bounded_queue\<close> is the contract of a ring.  \<open>Shm_Ring\<close> takes a call as one step; \<open>Ring_Threads\<close> has
    the single loads and stores of the client and of the four workers, which take no lock, under any
    schedule, and shows that an uninterrupted call is the one of \<open>Shm_Ring\<close>.
  \<^item> \<open>Mem_Server\<close>, \<open>Server_Laws\<close>, \<open>Server_Runs\<close>: \<open>src/main_server.cc\<close>: definitions of the server, the effect
    of each part of a request, and properties of runs.
  \<^item> This theory: the server behind the channel.

  \<^bold>\<open>How state and operations correspond.\<close>  A class is a record (a datatype where the source has
  variants) whose fields carry a prefix (\<open>ct_\<close> controller, \<open>sv_\<close> server, \<open>sm_\<close> memory manager, and so on); a
  method is a function of the record that returns the result and the new record.  \<open>std::map\<close> is an
  ascending association list, \<open>std::unordered_map\<close> a map.  Integers keep their width as words, and
  wrap; \<open>double\<close> is an exact real, so rounding is not modelled.  A mutex-protected method is one step.
  \<^const>\<open>None\<close> stands for undefined behaviour, for a loop that does not end or for an exception that ends the
  process; exceptions that are caught are values of a sum type.  The clock, random choices and the
  outcomes of system calls and of allocations that depend on a request are arguments.

  \<^bold>\<open>Where the model abstracts.\<close>  A request of the server is one step, although the controller computes its
  base latency before the memory is locked.  The coherency engine holds the links registered with it
  by value: the distributed server, which is not modelled, registers the link of a remote expander, and
  what accesses through that expander add to the traffic on the link is not seen by the engine.  The shares of the interleaving policy are quotients of reals, so
  that a division by zero gives 0, not an infinity; its index into the expanders cannot be out of range, as
  expanders are only added.  A string that has been moved from is empty in \<open>tokenize\<close>, as it is with the
  library the program is built with.  The statistics of the cache are \<open>int\<close>, as in the source.

  \<^bold>\<open>What is shown.\<close>  Decoder: binary search and linear scan find the unique range of an address,
  interleaving is invertible, and no two addresses of a node alias.  Coherency: engine and multi-headed
  device refine the abstract protocol, so a line never has a writer and another holder; the device
  never dereferences a missing head.  Expander and links: credits and queues stay within bounds, and
  the credit of a request that another one overwrites is never returned.  Cache and TLB: they hold exactly the most recently used lines.
  Switch and controller: an access is routed to one expander and counted once, accesses complete in
  distributed mode, back invalidation removes every copy, latencies cover the network path, the
  reorder buffer stays in its window, and parsing a printed topology rebuilds the tree.  Policies: the
  chosen node or victim is the one the policy promises, and the interleaving loop ends exactly when
  some slot is free.  Memory manager: what is written is read back and nothing else changes.  Channel:
  a ring is a bounded FIFO as long as the calls of the workers do not overlap, and an exchange completes.  Server: a run is the run of a flat memory, the
  coherency table is the directory the grants describe, errors are reported and do not write outside
  the memory; over the channel, clients see that same memory as long as the calls of the workers do not
  overlap.

  \<^bold>\<open>Bounds and fuel.\<close>  No definition uses fuel: loops are structural recursion or recursion with a
  termination proof, and the loops of \<open>release_pool\<close> and of the interleaving policy, which may run for
  ever, are \<open>partial_function\<close>s whose termination is characterised.

  \<^bold>\<open>Not modelled.\<close>  Sampling and tracing of real programs (\<open>pebs\<close>, \<open>lbr\<close>, \<open>perf\<close>, \<open>incore\<close>, \<open>uncore\<close>, \<open>bw\<close>,
  \<open>monitor\<close>, the BPF program and its runtime, \<open>main.cc\<close>) read hardware counters and kernel interfaces;
  the socket and RDMA transports move bytes through the operating system; \<open>rob.cpp\<close> and the test
  programs are stand-alone tools; logging and formatting, and the vendored QEMU tree, generated
  headers, benchmarks, scripts and use cases, which are not part of the simulator.  Of
  \<open>distributed_server.cpp\<close> only the calibration record is used.  Floating-point rounding and the
  interleaving of threads inside one locked operation are not modelled either.
\<close>

section \<open>The server behind the shared-memory channel\<close>

text \<open>
  One call of a client: it puts the request in its ring, a worker of the server takes it, answers it
  and puts the response back, and the client picks the response up.  The server runs four workers; the
  others, whose calls of \<open>wait_for_request\<close> do not overlap with this one, look at the channel any number
  of times before the request is sent, while it is answered, and before the response is picked up
  (the three numbers of \<open>polls\<close>).  A worker that looks in between sending and taking is the one that takes
  the request.
\<close>

definition worker_polls :: "nat \<Rightarrow> ShmCommunication \<Rightarrow> ShmCommunication" where
  "worker_polls n = (\<lambda>comm. snd (wait_for_request comm 100 None)) ^^ n"

definition channel_call ::
  "Server \<Rightarrow> request_env \<Rightarrow> nat \<times> nat \<times> nat \<Rightarrow> ShmCommunication \<Rightarrow> u32 \<Rightarrow> ShmRequest
     \<Rightarrow> (ShmResponse \<times> Server \<times> ShmCommunication) option" where
  "channel_call srv env polls comm client_id q =
     (case polls of (before, during, after) \<Rightarrow>
        (case send_request (worker_polls before comm) client_id q of
           (False, _) \<Rightarrow> None
         | (True, comm1) \<Rightarrow>
             (case handle_shm_request srv env comm1 None (worker_polls during) of
                None \<Rightarrow> None
              | Some (srv', comm2) \<Rightarrow>
                  (case wait_for_response [(worker_polls after comm2, False)] client_id of
                     Some (Some p, comm3) \<Rightarrow> Some (p, srv', comm3)
                   | _ \<Rightarrow> None))))"

type_synonym client_call = "request_env \<times> (nat \<times> nat \<times> nat) \<times> u32 \<times> ShmRequest"

fun channel_run ::
  "Server \<Rightarrow> ShmCommunication \<Rightarrow> client_call list \<Rightarrow> (ShmResponse list \<times> Server \<times> ShmCommunication) option" where
  "channel_run srv comm [] = Some ([], srv, comm)"
| "channel_run srv comm ((env, polls, client_id, q) # calls) =
     (case channel_call srv env polls comm client_id q of
        None \<Rightarrow> None
      | Some (p, srv1, comm1) \<Rightarrow>
          map_option (\<lambda>(ps, rest). (p # ps, rest)) (channel_run srv1 comm1 calls))"

abbreviation submission_of :: "client_call \<Rightarrow> submission" where
  "submission_of \<equiv> (\<lambda>(env, polls, client_id, q). (env, sint client_id, server_request_of q))"

lemma worker_polls_idle: "comm_idle comm \<Longrightarrow> worker_polls n comm = comm"
  by (induction n) (simp_all add: worker_polls_def wait_idle)

lemma channel_call_eq:
  assumes "comm_quiet comm" "client_is_connected comm client_id" "sq_op_type q \<noteq> OP_GET_SHM_INFO"
    and "handle_request srv env (sint client_id) (server_request_of q) blank_server_response = Some (resp, srv')"
  shows "\<exists>comm'. channel_call srv env polls comm client_id q = Some (shm_response_of resp, srv', comm')
    \<and> comm_quiet comm' \<and> sm_clients comm' = sm_clients comm"
proof -
  obtain before during after where polls: "polls = (before, during, after)" by (cases polls)
  obtain c1 c2 c3 c4 where c: "send_request comm client_id q = (True, c1)"
    "wait_for_request c1 100 None = (Some (client_id, q), c2)"
    "send_response c2 client_id (shm_response_of resp) = (True, c3)"
    "wait_for_response [(c3, False)] client_id = Some (Some (shm_response_of resp), c4)"
    "comm_idle c2" "comm_idle c3" "comm_quiet c4" "sm_clients c4 = sm_clients comm"
    using comm_exchange [OF assms(1,2), of q 100 "shm_response_of resp" False] by blast
  have "answer_shm_request srv env client_id q = Some (shm_response_of resp, srv')"
    using assms(3,4) by (simp add: answer_shm_request_def)
  then have "handle_shm_request srv env c1 None (worker_polls during) = Some (srv', c3)"
    using c(2,3) worker_polls_idle [OF c(5)] by (simp add: handle_shm_request_def)
  then show ?thesis
    using c worker_polls_idle [OF comm_quiet_idle [OF assms(1)]] worker_polls_idle [OF c(6)]
    by (simp add: channel_call_def polls del: wait_for_response.simps)
qed

lemma channel_run_eq:
  assumes "comm_quiet comm"
    and "list_all (\<lambda>(env, polls, id, q). client_is_connected comm id \<and> sq_op_type q \<noteq> OP_GET_SHM_INFO) calls"
    and "server_run srv (map submission_of calls) = Some (rs, srv')"
  shows "\<exists>comm'. channel_run srv comm calls = Some (map shm_response_of rs, srv', comm') \<and> comm_quiet comm'"
  using assms
proof (induction calls arbitrary: srv comm rs)
  case (Cons call calls)
  obtain env polls id q where call: "call = (env, polls, id, q)" by (cases call)
  from Cons.prems(3) obtain resp srv1 rs' where
    r: "handle_request srv env (sint id) (server_request_of q) blank_server_response = Some (resp, srv1)"
      "server_run srv1 (map submission_of calls) = Some (rs', srv')" "rs = resp # rs'"
    unfolding call by (auto simp: server_run_Cons simp del: server_run.simps)
  obtain comm1 where c: "channel_call srv env polls comm id q = Some (shm_response_of resp, srv1, comm1)"
      "comm_quiet comm1" "sm_clients comm1 = sm_clients comm"
    using channel_call_eq [OF Cons.prems(1) _ _ r(1), of polls] Cons.prems(2) by (auto simp: call)
  have "client_is_connected comm1 = client_is_connected comm" using c(3) by (simp add: client_is_connected_def fun_eq_iff)
  then have "list_all (\<lambda>(env, polls, id, q). client_is_connected comm1 id \<and> sq_op_type q \<noteq> OP_GET_SHM_INFO) calls"
    using Cons.prems(2) by simp
  from Cons.IH [OF c(2) this r(2)] show ?case using c(1) r(3) by (auto simp: call)
qed simp

text \<open>The outcome a client reads off its response is the one the server computed.\<close>

definition client_outcome :: "ShmRequest \<Rightarrow> ShmResponse \<Rightarrow> memory_outcome" where
  "client_outcome q p =
     (if sq_op_type q = OP_READ then Loaded (take (access_size (server_request_of q)) (sp_data p))
      else if sq_op_type q = OP_ATOMIC_FAA \<or> sq_op_type q = OP_ATOMIC_CAS then Fetched (sp_old_value p)
      else Stored)"

lemma client_outcome_eq: "client_outcome q (shm_response_of r) = outcome_of (server_request_of q) r"
  by (simp add: client_outcome_def outcome_of_def server_request_of_def shm_response_of_def)

lemma connected_nonneg: "client_is_connected comm client_id \<Longrightarrow> 0 \<le> sint client_id"
proof -
  assume "client_is_connected comm client_id"
  then have "client_id \<le> 64" by (auto simp: client_is_connected_def not_less)
  then have "uint client_id \<le> 64" by (simp add: word_le_def)
  then have "uint client_id div 2 ^ 31 = 0" by (intro div_pos_pos_trivial) simp_all
  then have "\<not> bit (uint client_id) 31" unfolding bit_iff_odd by simp
  then have "\<not> bit client_id 31" by (simp add: bit_uint_iff)
  then show "0 \<le> sint client_id" by (simp add: sint_uint signed_take_bit_eq_if_positive bit_uint_iff)
qed

text \<open> C2. Clients that are connected to the server through the shared-memory channel see a memory: calls made one
  after the other, with timestamps that do not decrease and addresses the memory holds, all complete, and the
  clients read off the responses what a flat memory would give them; the channel is quiet afterwards.
  A call is served by one of the four workers of the server while the others look at the channel any number
  of times; this holds as long as the workers' calls of \<open>wait_for_request\<close>, which take no lock, do not
  overlap, and the memory is synchronised successfully (\<open>msync\<close>) after each write.  For an atomic
  operation the memory holds an address that is its own offset in the data area. \<close>

theorem channel_serves_memory:
  assumes "server_ok srv" "quiet_until T srv" "comm_quiet comm"
    and "list_all (\<lambda>(env, polls, id, q). client_is_connected comm id \<and> length (sq_data q) = 64 \<and> ev_msync env 0
           \<and> serviceable (sv_shm_manager srv) (server_request_of q)) calls"
    and "sorted (T # map (\<lambda>(env, polls, id, q). sq_timestamp q) calls)"
  shows "\<exists>ps srv' comm'. channel_run srv comm calls = Some (ps, srv', comm') \<and> comm_quiet comm'
    \<and> list_all (\<lambda>p. sp_status p = 0) ps
    \<and> flat_run (byte_offset (sv_shm_manager srv)) (contents_of srv) (map (\<lambda>(env, polls, id, q). server_request_of q) calls)
      = (map2 (\<lambda>(env, polls, id, q) p. client_outcome q p) calls ps, contents_of srv')"
proof -
  let ?xs = "map submission_of calls"
  have wf: "list_all well_formed ?xs"
    using assms(4) connected_nonneg [of comm]
    by (auto simp: list_all_iff well_formed_def server_request_of_def)
  have ok: "list_all (\<lambda>(env, t, req). serviceable (sv_shm_manager srv) req \<and> ev_msync env 0) ?xs"
    using assms(4) by (auto simp: list_all_iff)
  have "map (\<lambda>(env, t, req). rq_timestamp req) ?xs = map (\<lambda>(env, polls, id, q). sq_timestamp q) calls"
    by (auto simp: server_request_of_def)
  then have ordered: "sorted (T # map (\<lambda>(env, t, req). rq_timestamp req) ?xs)"
    using assms(5) by (simp only:)
  obtain rs srv' where r: "server_run srv ?xs = Some (rs, srv')" "list_all (\<lambda>r. rp_status r = 0) rs"
    "flat_run (byte_offset (sv_shm_manager srv)) (contents_of srv) (map (\<lambda>(env, t, req). req) ?xs) =
        (map2 (\<lambda>(env, t, req) r. outcome_of req r) ?xs rs, contents_of srv')"
    using server_run_flat [OF assms(1,2) wf ok ordered] by blast
  have "list_all (\<lambda>(env, polls, id, q). client_is_connected comm id \<and> sq_op_type q \<noteq> OP_GET_SHM_INFO) calls"
    using assms(4) by (auto simp: list_all_iff serviceable_def server_request_of_def)
  from channel_run_eq [OF assms(3) this r(1)] obtain comm' where
    "channel_run srv comm calls = Some (map shm_response_of rs, srv', comm')" "comm_quiet comm'" by blast
  moreover have e1: "map (\<lambda>(env, t, req). req) ?xs = map (\<lambda>(env, polls, id, q). server_request_of q) calls" by auto
  moreover have e2: "map2 (\<lambda>(env, t, req) r. outcome_of req r) ?xs rs
      = map2 (\<lambda>(env, polls, id, q) p. client_outcome q p) calls (map shm_response_of rs)"
    by (auto simp: zip_map1 zip_map2 client_outcome_eq)
  moreover have "list_all (\<lambda>p. sp_status p = 0) (map shm_response_of rs)"
    using r(2) by (simp add: list_all_iff shm_response_of_def)
  ultimately show ?thesis using r(3) [unfolded e1 e2] by blast
qed


text \<open>A client that connects, writes, and reads back.\<close>

definition example_call :: "u8 \<Rightarrow> u64 \<Rightarrow> client_call" where
  "example_call op ts =
     (example_env, (3, 2, 1), 1, \<lparr>sq_op_type = op, sq_addr = 64, sq_size = 8, sq_timestamp = ts, sq_value = 0, sq_expected = 0,
        sq_data = replicate 64 7\<rparr>)"

theorem channel_serves_memory_witness:
  "\<exists>ps srv' comm'. channel_run example_server (snd (connect example_comm 42)) [example_call OP_WRITE 1, example_call OP_READ 2]
      = Some (ps, srv', comm') \<and> comm_quiet comm' \<and> list_all (\<lambda>p. sp_status p = 0) ps"
proof -
  let ?calls = "[example_call OP_WRITE 1, example_call OP_READ 2]"
  have "list_all (\<lambda>(env, polls, id, q). client_is_connected (snd (connect example_comm 42)) id \<and> length (sq_data q) = 64
      \<and> ev_msync env 0 \<and> serviceable (sv_shm_manager example_server) (server_request_of q)) ?calls"
    using example_connected
    by (simp add: example_call_def example_env_def serviceable_def server_request_of_def access_size_def
        is_valid_address_def accessible_def example_manager_fields example_server_manager)
  moreover have "sorted (0 # map (\<lambda>(env, polls, id, q). sq_timestamp q) ?calls)" by (simp add: example_call_def)
  ultimately show ?thesis
    using channel_serves_memory [OF example_server_ok example_connected(2), of ?calls] by blast
qed

end
